(* ===== verification/Aegis_Prelude.thy ===== *)
theory Aegis_Prelude
  imports Main "HOL-Library.Word" "HOL-Library.Monad_Syntax"
begin

text \<open>
  Shared vocabulary of the development: the byte and machine-integer types of
  the C++ sources, network-byte-order encodings with their round-trip laws, the
  fixed-size identifiers, and the generic lemmas on lists and options that the
  component theories use.  Theorem collections:

  \<^item> \<open>wire_simps\<close>: unconditional rewriting of reader/writer calls,
  \<^item> \<open>wire_dest\<close>: what a successful read says about the input,
  \<^item> \<open>wf_defs\<close>: unfolding of the well-formedness predicates of wire records.
\<close>

named_theorems wire_simps
named_theorems wire_dest
named_theorems wf_defs

unbundle bit_operations_syntax

section \<open>Bytes and machine integers\<close>

type_synonym byte = "8 word"
type_synonym bytes = "byte list"
type_synonym u16 = "16 word"
type_synonym u32 = "32 word"
type_synonym u64 = "64 word"

text \<open>Points in time and durations of the steady clock, in milliseconds: every
  timeout of the program is a whole number of them.\<close>

type_synonym time = int

text \<open>The fixed-size arrays of the sources are byte lists; the length is part
  of the well-formedness predicates.\<close>

type_synonym node_id = bytes
type_synonym network_id = bytes
type_synonym public_key = bytes

abbreviation NODE_ID_SIZE :: nat where "NODE_ID_SIZE \<equiv> 32"
abbreviation NETWORK_ID_SIZE :: nat where "NETWORK_ID_SIZE \<equiv> 32"
abbreviation PUBLIC_KEY_SIZE :: nat where "PUBLIC_KEY_SIZE \<equiv> 32"

definition ascii :: "string \<Rightarrow> bytes" where
  "ascii s = map of_char s"

lemma length_ascii [simp]: "length (ascii s) = length s"
  by (simp add: ascii_def)

section \<open>Network byte order\<close>

definition be_word :: "bytes \<Rightarrow> 'a::len word" where
  "be_word bs = foldl (\<lambda>v b. push_bit 8 v OR ucast b) 0 bs"

definition be_bytes :: "nat \<Rightarrow> 'a::len word \<Rightarrow> bytes" where
  "be_bytes k x = map (\<lambda>i. ucast (drop_bit (8 * (k - 1 - i)) x)) [0..<k]"

lemma be_word_Nil [simp]: "be_word [] = 0"
  by (simp add: be_word_def)

lemma be_word_snoc: "be_word (bs @ [b]) = push_bit 8 (be_word bs) OR ucast b"
  by (simp add: be_word_def)

lemma bit_be_word:
  "bit (be_word bs :: 'a::len word) n \<longleftrightarrow>
     n < LENGTH('a) \<and> n div 8 < length bs \<and> bit (rev bs ! (n div 8)) (n mod 8)"
proof (induction bs arbitrary: n rule: rev_induct)
  case Nil
  then show ?case by simp
next
  case (snoc b bs)
  show ?case
  proof (cases "n < 8")
    case True
    then show ?thesis by (auto simp: bit_simps be_word_snoc)
  next
    case False
    then obtain m where n: "n = m + 8" by (metis add.commute le_Suc_ex not_less)
    have d: "(m + 8) div 8 = Suc (m div 8)" by simp
    have "\<not> bit b n" using False by (auto dest: bit_imp_le_length)
    then show ?thesis using snoc.IH [of m]
      by (auto simp: bit_simps be_word_snoc n d simp del: div_add_self2)
  qed
qed

lemma length_be_bytes [simp]: "length (be_bytes k x) = k"
  by (simp add: be_bytes_def)

lemma rev_be_bytes_nth: "i < k \<Longrightarrow> rev (be_bytes k x) ! i = ucast (drop_bit (8 * i) x)"
  by (simp add: be_bytes_def rev_nth)

lemma be_word_be_bytes:
  "8 * k = LENGTH('a) \<Longrightarrow> be_word (be_bytes k x) = (x :: 'a::len word)"
  by (rule bit_word_eqI)
    (auto simp: bit_be_word bit_simps rev_be_bytes_nth less_mult_imp_div_less mult.commute)

lemma be_bytes_be_word:
  assumes "8 * length bs = LENGTH('a)"
  shows "be_bytes (length bs) (be_word bs :: 'a::len word) = bs"
proof (rule nth_equalityI)
  fix i assume "i < length (be_bytes (length bs) (be_word bs :: 'a word))"
  then have i: "i < length bs" by simp
  have "be_bytes (length bs) (be_word bs :: 'a word) ! i =
     ucast (drop_bit (8 * (length bs - 1 - i)) (be_word bs :: 'a word))"
    using i by (simp add: be_bytes_def)
  also have "\<dots> = bs ! i"
  proof (rule bit_word_eqI)
    fix n assume "n < LENGTH(8)"
    then have n: "n < 8" by simp
    have d: "(8 * (length bs - 1 - i) + n) div 8 = length bs - 1 - i"
      and m: "(8 * (length bs - 1 - i) + n) mod 8 = n" using n by auto
    have "8 * (length bs - 1 - i) + n < LENGTH('a)" using assms i n by linarith
    then show "bit (ucast (drop_bit (8 * (length bs - 1 - i)) (be_word bs :: 'a word)) :: 8 word) n
        = bit (bs ! i) n"
      using i n by (auto simp: bit_simps bit_be_word d m rev_nth simp del: mult_Suc_right)
  qed
  finally show "be_bytes (length bs) (be_word bs :: 'a word) ! i = bs ! i" .
qed simp

text \<open>The three widths the wire uses, written as the sources write them.\<close>

definition be16 :: "u16 \<Rightarrow> bytes" where
  "be16 x = [ucast (drop_bit 8 x), ucast x]"

definition be32 :: "u32 \<Rightarrow> bytes" where
  "be32 x = [ucast (drop_bit 24 x), ucast (drop_bit 16 x), ucast (drop_bit 8 x), ucast x]"

definition be64 :: "u64 \<Rightarrow> bytes" where
  "be64 x =
    [ucast (drop_bit 56 x), ucast (drop_bit 48 x), ucast (drop_bit 40 x), ucast (drop_bit 32 x),
     ucast (drop_bit 24 x), ucast (drop_bit 16 x), ucast (drop_bit 8 x), ucast x]"

lemma be_eq_be_bytes:
  shows be16_eq: "be16 x2 = be_bytes 2 x2"
    and be32_eq: "be32 x4 = be_bytes 4 x4"
    and be64_eq: "be64 x8 = be_bytes 8 x8"
  by (simp_all add: be16_def be32_def be64_def be_bytes_def upt_rec)

lemma length_be [simp]: "length (be16 x2) = 2" "length (be32 x4) = 4" "length (be64 x8) = 8"
  by (simp_all add: be_eq_be_bytes)

lemma be_word_be [simp]:
  "be_word (be16 x2) = x2" "be_word (be32 x4) = x4" "be_word (be64 x8) = x8"
  by (simp_all add: be_eq_be_bytes be_word_be_bytes)

lemma be_be_word:
  "length bs = 2 \<Longrightarrow> be16 (be_word bs) = bs"
  "length bs = 4 \<Longrightarrow> be32 (be_word bs) = bs"
  "length bs = 8 \<Longrightarrow> be64 (be_word bs) = bs"
  using be_bytes_be_word [where bs = bs and 'a = 16] be_bytes_be_word [where bs = bs and 'a = 32]
    be_bytes_be_word [where bs = bs and 'a = 64]
  by (simp_all add: be_eq_be_bytes)

lemma be_inject [simp]:
  "be16 x = be16 y \<longleftrightarrow> x = y" "be32 u = be32 v \<longleftrightarrow> u = v" "be64 p = be64 q \<longleftrightarrow> p = q"
  by (metis be_word_be)+

lemma be_neq_Nil [simp]: "be16 x \<noteq> []" "be32 u \<noteq> []" "be64 p \<noteq> []"
  by (simp_all add: be16_def be32_def be64_def)

lemma be_append_inject [simp]:
  "be16 x @ s = be16 y @ t \<longleftrightarrow> x = y \<and> s = t"
  "be32 u @ s = be32 v @ t \<longleftrightarrow> u = v \<and> s = t"
  "be64 p @ s = be64 q @ t \<longleftrightarrow> p = q \<and> s = t"
  by (auto simp: append_eq_append_conv)

section \<open>Shared facts on bytes and lists\<close>

lemma unat_byte_less: "unat (b :: byte) < 256"
  using unsigned_less [of b] by simp

lemma length_eq_append_inject:
  "length xs = length ys \<Longrightarrow> xs @ s = ys @ t \<longleftrightarrow> xs = ys \<and> s = t"
  by simp

lemma split_at: "n \<le> length xs \<Longrightarrow> \<exists>ys zs. xs = ys @ zs \<and> length ys = n"
  by (metis append_take_drop_id length_take min.absorb2)

lemma concat_slices: "concat (map (\<lambda>i. take k (drop (i * k) xs)) [0..<n]) = take (n * k) xs"
proof (induction n)
  case (Suc n)
  have "take (n * k) xs @ take k (drop (n * k) xs) = take (n * k + k) xs" by (rule take_add [symmetric])
  with Suc show ?case by (simp add: add.commute)
qed simp

end
