(* ===== verification/Wire.thy ===== *)
theory Wire
  imports Aegis_Prelude
begin

text \<open>
  \<open>include/aegis/protocol/wire.hpp\<close>: the bounded \<open>WireReader\<close> and
  \<open>WireWriter\<close> every codec of the program is written with.  A read returns
  \<open>None\<close> for \<open>std::nullopt\<close> (the caller then keeps its reader, whose cursor did
  not move), a write returns \<open>None\<close> for \<open>false\<close>.  The lemmas put a reader into
  the form \<^emph>\<open>consumed bytes, remaining bytes\<close> and a writer into the form
  \<^emph>\<open>written bytes, free bytes\<close>, on which every call is one rewrite step.
\<close>

section \<open>Definitions\<close>

record wire_reader =
  rd_bytes :: bytes
  rd_offset :: nat

definition WireReader :: "bytes \<Rightarrow> wire_reader" where
  "WireReader bs = \<lparr>rd_bytes = bs, rd_offset = 0\<rparr>"

definition rd_remaining :: "wire_reader \<Rightarrow> nat" where
  "rd_remaining r = length (rd_bytes r) - rd_offset r"

definition rd_finished :: "wire_reader \<Rightarrow> bool" where
  "rd_finished r \<longleftrightarrow> rd_offset r = length (rd_bytes r)"

definition read_bytes :: "nat \<Rightarrow> wire_reader \<Rightarrow> (bytes \<times> wire_reader) option" where
  "read_bytes count r =
    (if count > rd_remaining r then None
     else Some (take count (drop (rd_offset r) (rd_bytes r)),
                r\<lparr>rd_offset := rd_offset r + count\<rparr>))"

definition read_u8 :: "wire_reader \<Rightarrow> (byte \<times> wire_reader) option" where
  "read_u8 r = do { (bs, r) \<leftarrow> read_bytes 1 r; Some (bs ! 0, r) }"

definition read_u16 :: "wire_reader \<Rightarrow> (u16 \<times> wire_reader) option" where
  "read_u16 r = do {
     (bs, r) \<leftarrow> read_bytes 2 r;
     Some (push_bit 8 (ucast (bs ! 0)) OR ucast (bs ! 1), r) }"

definition read_u32 :: "wire_reader \<Rightarrow> (u32 \<times> wire_reader) option" where
  "read_u32 r = do {
     (bs, r) \<leftarrow> read_bytes 4 r;
     Some (push_bit 24 (ucast (bs ! 0)) OR push_bit 16 (ucast (bs ! 1)) OR
           push_bit 8 (ucast (bs ! 2)) OR ucast (bs ! 3), r) }"

definition read_u64 :: "wire_reader \<Rightarrow> (u64 \<times> wire_reader) option" where
  "read_u64 r = do {
     (bs, r) \<leftarrow> read_bytes 8 r;
     Some (foldl (\<lambda>value byte. push_bit 8 value OR ucast byte) 0 bs, r) }"

record wire_writer =
  wr_bytes :: bytes
  wr_offset :: nat

definition WireWriter :: "bytes \<Rightarrow> wire_writer" where
  "WireWriter bs = \<lparr>wr_bytes = bs, wr_offset = 0\<rparr>"

definition wr_remaining :: "wire_writer \<Rightarrow> nat" where
  "wr_remaining w = length (wr_bytes w) - wr_offset w"

definition wr_finished :: "wire_writer \<Rightarrow> bool" where
  "wr_finished w \<longleftrightarrow> wr_offset w = length (wr_bytes w)"

definition wr_written :: "wire_writer \<Rightarrow> bytes" where
  "wr_written w = take (wr_offset w) (wr_bytes w)"

definition write_bytes :: "bytes \<Rightarrow> wire_writer \<Rightarrow> wire_writer option" where
  "write_bytes v w =
    (if length v > wr_remaining w then None
     else Some (w\<lparr>wr_bytes := take (wr_offset w) (wr_bytes w) @ v @
                              drop (wr_offset w + length v) (wr_bytes w),
                 wr_offset := wr_offset w + length v\<rparr>))"

definition write_u8 :: "byte \<Rightarrow> wire_writer \<Rightarrow> wire_writer option" where
  "write_u8 v w = write_bytes [v] w"

definition write_u16 :: "u16 \<Rightarrow> wire_writer \<Rightarrow> wire_writer option" where
  "write_u16 v w = write_bytes [ucast (drop_bit 8 v), ucast v] w"

definition write_u32 :: "u32 \<Rightarrow> wire_writer \<Rightarrow> wire_writer option" where
  "write_u32 v w = write_bytes
     [ucast (drop_bit 24 v), ucast (drop_bit 16 v), ucast (drop_bit 8 v), ucast v] w"

definition write_u64 :: "u64 \<Rightarrow> wire_writer \<Rightarrow> wire_writer option" where
  "write_u64 v w = write_bytes
     [ucast (drop_bit 56 v), ucast (drop_bit 48 v), ucast (drop_bit 40 v), ucast (drop_bit 32 v),
      ucast (drop_bit 24 v), ucast (drop_bit 16 v), ucast (drop_bit 8 v), ucast v] w"

section \<open>The reader as consumed and remaining bytes\<close>

definition reader_at :: "bytes \<Rightarrow> bytes \<Rightarrow> wire_reader" where
  "reader_at pre suf = \<lparr>rd_bytes = pre @ suf, rd_offset = length pre\<rparr>"

lemma WireReader_at [wire_simps]: "WireReader bs = reader_at [] bs"
  by (simp add: WireReader_def reader_at_def)

lemma rd_remaining_at [wire_simps]: "rd_remaining (reader_at pre suf) = length suf"
  by (simp add: rd_remaining_def reader_at_def)

lemma rd_finished_at [wire_simps]: "rd_finished (reader_at pre suf) \<longleftrightarrow> suf = []"
  by (simp add: rd_finished_def reader_at_def)

lemma read_bytes_at:
  "read_bytes n (reader_at pre suf) =
    (if n \<le> length suf then Some (take n suf, reader_at (pre @ take n suf) (drop n suf)) else None)"
  by (simp add: read_bytes_def rd_remaining_def reader_at_def min_def)

lemma read_bytes_append [wire_simps]:
  "length bs = n \<Longrightarrow> read_bytes n (reader_at pre (bs @ t)) = Some (bs, reader_at (pre @ bs) t)"
  by (auto simp: read_bytes_at)

lemma read_bytes_exact [wire_simps]:
  "length bs = n \<Longrightarrow> read_bytes n (reader_at pre bs) = Some (bs, reader_at (pre @ bs) [])"
  using read_bytes_append [of bs n pre "[]"] by simp

lemma read_bytes_short [wire_simps]:
  "length suf < n \<Longrightarrow> read_bytes n (reader_at pre suf) = None"
  by (simp add: read_bytes_at)

lemma read_bytes_SomeD [wire_dest]:
  "read_bytes n (reader_at pre suf) = Some (bs, r) \<Longrightarrow>
    \<exists>t. suf = bs @ t \<and> length bs = n \<and> r = reader_at (pre @ bs) t"
  by (auto simp: read_bytes_at split: if_splits intro!: exI [of _ "drop n suf"])

lemma nth_two: "length bs = 2 \<Longrightarrow> bs = [bs ! 0, bs ! 1]"
  by (simp add: list_eq_iff_nth_eq less_Suc_eq numeral_2_eq_2)

lemma nth_four: "length bs = 4 \<Longrightarrow> bs = [bs ! 0, bs ! 1, bs ! 2, bs ! 3]"
  by (auto simp: eval_nat_numeral length_Suc_conv)

lemma be_word_two: "length bs = 2 \<Longrightarrow>
    be_word bs = push_bit 8 (ucast (bs ! 0)) OR (ucast (bs ! 1) :: 'a::len word)"
  by (subst nth_two, assumption) (simp add: be_word_def)

lemma be_word_four: "length bs = 4 \<Longrightarrow>
    be_word bs = push_bit 24 (ucast (bs ! 0)) OR push_bit 16 (ucast (bs ! 1)) OR
       push_bit 8 (ucast (bs ! 2)) OR (ucast (bs ! 3) :: 'a::len word)"
  by (subst nth_four, assumption) (simp add: be_word_def push_bit_or or.assoc)

lemma read_u8_at [wire_simps]:
  "read_u8 (reader_at pre (b # t)) = Some (b, reader_at (pre @ [b]) t)"
  "read_u8 (reader_at pre []) = None"
  by (simp_all add: read_u8_def read_bytes_at)

lemma read_word_at:
  "read_u16 (reader_at pre suf) =
     (if 2 \<le> length suf then Some (be_word (take 2 suf), reader_at (pre @ take 2 suf) (drop 2 suf)) else None)"
  "read_u32 (reader_at pre suf) =
     (if 4 \<le> length suf then Some (be_word (take 4 suf), reader_at (pre @ take 4 suf) (drop 4 suf)) else None)"
  "read_u64 (reader_at pre suf) =
     (if 8 \<le> length suf then Some (be_word (take 8 suf), reader_at (pre @ take 8 suf) (drop 8 suf)) else None)"
  by (auto simp: read_u16_def read_u32_def read_u64_def read_bytes_at be_word_two be_word_four
      be_word_def [where bs = "take 8 suf"])

lemma read_word_append [wire_simps]:
  "read_u16 (reader_at pre (be16 x2 @ t)) = Some (x2, reader_at (pre @ be16 x2) t)"
  "read_u32 (reader_at pre (be32 x4 @ t)) = Some (x4, reader_at (pre @ be32 x4) t)"
  "read_u64 (reader_at pre (be64 x8 @ t)) = Some (x8, reader_at (pre @ be64 x8) t)"
  "read_u16 (reader_at pre (be16 x2)) = Some (x2, reader_at (pre @ be16 x2) [])"
  "read_u32 (reader_at pre (be32 x4)) = Some (x4, reader_at (pre @ be32 x4) [])"
  "read_u64 (reader_at pre (be64 x8)) = Some (x8, reader_at (pre @ be64 x8) [])"
  by (simp_all add: read_word_at)

lemma read_word_short [wire_simps]:
  "length suf < 2 \<Longrightarrow> read_u16 (reader_at pre suf) = None"
  "length suf < 4 \<Longrightarrow> read_u32 (reader_at pre suf) = None"
  "length suf < 8 \<Longrightarrow> read_u64 (reader_at pre suf) = None"
  by (simp_all add: read_word_at)

lemma read_u8_SomeD [wire_dest]:
  "read_u8 (reader_at pre suf) = Some (b, r) \<Longrightarrow> \<exists>t. suf = b # t \<and> r = reader_at (pre @ [b]) t"
  by (cases suf) (auto simp: wire_simps)

lemma read_u16_SomeD [wire_dest]:
  "read_u16 (reader_at pre suf) = Some (x, r) \<Longrightarrow>
    \<exists>t. suf = be16 x @ t \<and> r = reader_at (pre @ be16 x) t"
  by (auto simp: read_word_at be_be_word split: if_splits intro!: exI [of _ "drop _ suf"])

lemma read_u32_SomeD [wire_dest]:
  "read_u32 (reader_at pre suf) = Some (x, r) \<Longrightarrow>
    \<exists>t. suf = be32 x @ t \<and> r = reader_at (pre @ be32 x) t"
  by (auto simp: read_word_at be_be_word split: if_splits intro!: exI [of _ "drop _ suf"])

lemma read_u64_SomeD [wire_dest]:
  "read_u64 (reader_at pre suf) = Some (x, r) \<Longrightarrow>
    \<exists>t. suf = be64 x @ t \<and> r = reader_at (pre @ be64 x) t"
  by (auto simp: read_word_at be_be_word split: if_splits intro!: exI [of _ "drop _ suf"])

section \<open>The writer as written and free bytes\<close>

definition writer_at :: "bytes \<Rightarrow> bytes \<Rightarrow> wire_writer" where
  "writer_at out free = \<lparr>wr_bytes = out @ free, wr_offset = length out\<rparr>"

lemma WireWriter_at [wire_simps]: "WireWriter bs = writer_at [] bs"
  by (simp add: WireWriter_def writer_at_def)

lemma wr_at [wire_simps]:
  "wr_remaining (writer_at out free) = length free"
  "wr_finished (writer_at out free) \<longleftrightarrow> free = []"
  "wr_written (writer_at out free) = out"
  "wr_bytes (writer_at out free) = out @ free"
  by (simp_all add: wr_remaining_def wr_finished_def wr_written_def writer_at_def)

lemma write_bytes_at [wire_simps]:
  "write_bytes v (writer_at out free) =
    (if length v \<le> length free then Some (writer_at (out @ v) (drop (length v) free)) else None)"
  by (simp add: write_bytes_def wr_remaining_def writer_at_def)

lemma write_int_at [wire_simps]:
  "write_u8 b (writer_at out free) =
    (if 1 \<le> length free then Some (writer_at (out @ [b]) (drop 1 free)) else None)"
  "write_u16 x2 (writer_at out free) =
    (if 2 \<le> length free then Some (writer_at (out @ be16 x2) (drop 2 free)) else None)"
  "write_u32 x4 (writer_at out free) =
    (if 4 \<le> length free then Some (writer_at (out @ be32 x4) (drop 4 free)) else None)"
  "write_u64 x8 (writer_at out free) =
    (if 8 \<le> length free then Some (writer_at (out @ be64 x8) (drop 8 free)) else None)"
  by (simp_all add: write_u8_def write_u16_def write_u32_def write_u64_def write_bytes_at
      be16_def be32_def be64_def eval_nat_numeral)

section \<open>The contract of a wire codec\<close>

text \<open>
  Every message type comes with a serializer and a parser.  \<open>wire_codec\<close> is the
  promise a sender relies on: a well-formed value has an encoding and the parser
  returns the value.  \<open>canonical_codec\<close> adds the promise a receiver relies on:
  whatever the parser accepts is well-formed and is the one encoding the
  serializer would have produced, so no message has two wire forms.
\<close>

locale wire_codec =
  fixes wf :: "'a \<Rightarrow> bool"
    and enc :: "'a \<Rightarrow> bytes option"
    and dec :: "bytes \<Rightarrow> 'a option"
  assumes enc_wf: "wf x \<Longrightarrow> \<exists>bs. enc x = Some bs"
    and dec_enc: "wf x \<Longrightarrow> enc x = Some bs \<Longrightarrow> dec bs = Some x"
begin

lemma enc_inj: "wf x \<Longrightarrow> wf y \<Longrightarrow> enc x = enc y \<Longrightarrow> x = y"
  by (metis dec_enc enc_wf option.inject)

lemma dec_enc_ex: "wf x \<Longrightarrow> \<exists>bs. enc x = Some bs \<and> dec bs = Some x"
  using dec_enc enc_wf by blast

end

locale canonical_codec = wire_codec +
  assumes dec_wf: "dec bs = Some x \<Longrightarrow> wf x"
    and enc_dec: "dec bs = Some x \<Longrightarrow> enc x = Some bs"
begin

lemma dec_Some_iff: "dec bs = Some x \<longleftrightarrow> wf x \<and> enc x = Some bs"
  using dec_enc dec_wf enc_dec by blast

lemma dec_unique: "dec bs = Some x \<Longrightarrow> dec bs' = Some x \<Longrightarrow> bs = bs'"
  by (metis enc_dec option.inject)

end

end
