(* ===== verification/Packet_Header.thy ===== *)
theory Packet_Header
  imports Wire
begin

text \<open>
  \<open>include/aegis/packet/header.hpp\<close> and \<open>include/aegis/packet/mtu.hpp\<close>: the
  fixed 16-byte frame header with its codec, the padding arithmetic of the
  encrypted session frames, and the MTU contract that sizes the overlay
  interface.  Sizes (\<open>size_t\<close>) are natural numbers.
\<close>

section \<open>Header\<close>

record PacketHeader =
  ph_version :: byte
  ph_packet_type :: byte
  ph_flags :: byte
  ph_reserved :: byte
  ph_session_id :: u32
  ph_sequence_number :: u32
  ph_payload_length :: u32

abbreviation PACKET_VERSION :: byte where "PACKET_VERSION \<equiv> 2"
abbreviation TYPE_HANDSHAKE_INIT :: byte where "TYPE_HANDSHAKE_INIT \<equiv> 0"
abbreviation TYPE_HANDSHAKE_RESP :: byte where "TYPE_HANDSHAKE_RESP \<equiv> 1"
abbreviation TYPE_DATA :: byte where "TYPE_DATA \<equiv> 2"
abbreviation TYPE_KEEPALIVE :: byte where "TYPE_KEEPALIVE \<equiv> 3"
abbreviation TYPE_DISCOVERY :: byte where "TYPE_DISCOVERY \<equiv> 4"
abbreviation TYPE_PEER_TABLE :: byte where "TYPE_PEER_TABLE \<equiv> 5"
abbreviation TYPE_RELAY :: byte where "TYPE_RELAY \<equiv> 6"
abbreviation TYPE_CHAT_MSG :: byte where "TYPE_CHAT_MSG \<equiv> 7"
abbreviation TYPE_FILE_HEADER :: byte where "TYPE_FILE_HEADER \<equiv> 8"
abbreviation TYPE_FILE_CHUNK :: byte where "TYPE_FILE_CHUNK \<equiv> 9"
abbreviation TYPE_FILE_ACK :: byte where "TYPE_FILE_ACK \<equiv> 0xA"
abbreviation TYPE_NETWORK_TEARDOWN :: byte where "TYPE_NETWORK_TEARDOWN \<equiv> 0xB"
abbreviation TYPE_HANDSHAKE_COOKIE :: byte where "TYPE_HANDSHAKE_COOKIE \<equiv> 0xC"
abbreviation TYPE_FILE_CANCEL :: byte where "TYPE_FILE_CANCEL \<equiv> 0xD"
abbreviation TYPE_PATH_PROBE :: byte where "TYPE_PATH_PROBE \<equiv> 0xE"
abbreviation TYPE_ENDPOINT_CANDIDATES :: byte where "TYPE_ENDPOINT_CANDIDATES \<equiv> 0xF"
abbreviation TYPE_ENDPOINT_PUNCH :: byte where "TYPE_ENDPOINT_PUNCH \<equiv> 0x10"
abbreviation TYPE_MEMBERSHIP_REVOCATION :: byte where "TYPE_MEMBERSHIP_REVOCATION \<equiv> 0x11"

abbreviation FLAG_RELAY :: byte where "FLAG_RELAY \<equiv> 1"
abbreviation FLAG_FRAGMENTED :: byte where "FLAG_FRAGMENTED \<equiv> 2"
abbreviation PACKET_KNOWN_FLAGS :: byte where "PACKET_KNOWN_FLAGS \<equiv> 3"

abbreviation PACKET_HEADER_SIZE :: nat where "PACKET_HEADER_SIZE \<equiv> 16"
abbreviation SESSION_MAX_PAYLOAD_SIZE :: nat where "SESSION_MAX_PAYLOAD_SIZE \<equiv> 4096"
abbreviation SESSION_PADDING_BUCKET_SIZE :: nat where "SESSION_PADDING_BUCKET_SIZE \<equiv> 64"
abbreviation SESSION_PADDING_BUCKET_MIN :: nat where "SESSION_PADDING_BUCKET_MIN \<equiv> 32"
abbreviation SESSION_PADDING_BUCKET_MAX :: nat where "SESSION_PADDING_BUCKET_MAX \<equiv> 256"
abbreviation SESSION_LENGTH_PREFIX_SIZE :: nat where "SESSION_LENGTH_PREFIX_SIZE \<equiv> 4"
abbreviation SESSION_MAX_PADDING_SIZE :: nat where "SESSION_MAX_PADDING_SIZE \<equiv> 255"
abbreviation SESSION_MAX_LOGICAL_PAYLOAD_SIZE :: nat where
  "SESSION_MAX_LOGICAL_PAYLOAD_SIZE \<equiv> 4092"

text \<open>The chain of writes of \<open>serialize_packet_header\<close>; the source discards its
  success flag and returns the buffer, which \<open>header_writes_ok\<close> below shows to be
  completely written.\<close>

definition header_writes :: "PacketHeader \<Rightarrow> wire_writer option" where
  "header_writes h = do {
     w \<leftarrow> write_u8 (ph_version h) (WireWriter (replicate PACKET_HEADER_SIZE 0));
     w \<leftarrow> write_u8 (ph_packet_type h) w;
     w \<leftarrow> write_u8 (ph_flags h) w;
     w \<leftarrow> write_u8 (ph_reserved h) w;
     w \<leftarrow> write_u32 (ph_session_id h) w;
     w \<leftarrow> write_u32 (ph_sequence_number h) w;
     w \<leftarrow> write_u32 (ph_payload_length h) w;
     if wr_finished w then Some w else None }"

definition serialize_packet_header :: "PacketHeader \<Rightarrow> bytes" where
  "serialize_packet_header h =
    (case header_writes h of
       Some w \<Rightarrow> wr_bytes w
     | None \<Rightarrow> replicate PACKET_HEADER_SIZE 0)"

definition parse_packet_header :: "bytes \<Rightarrow> PacketHeader option" where
  "parse_packet_header bs = do {
     (v, r) \<leftarrow> read_u8 (WireReader bs);
     (t, r) \<leftarrow> read_u8 r;
     (f, r) \<leftarrow> read_u8 r;
     (res, r) \<leftarrow> read_u8 r;
     (sid, r) \<leftarrow> read_u32 r;
     (sq, r) \<leftarrow> read_u32 r;
     (len, r) \<leftarrow> read_u32 r;
     if rd_finished r
     then Some \<lparr>ph_version = v, ph_packet_type = t, ph_flags = f, ph_reserved = res, ph_session_id = sid,
                ph_sequence_number = sq, ph_payload_length = len\<rparr>
     else None }"

section \<open>Padding\<close>

definition is_supported_session_padding_bucket :: "nat \<Rightarrow> bool" where
  "is_supported_session_padding_bucket bucket_size \<longleftrightarrow>
     bucket_size = 32 \<or> bucket_size = 64 \<or> bucket_size = 128 \<or> bucket_size = 256"

definition session_max_padding_for_bucket :: "nat \<Rightarrow> nat" where
  "session_max_padding_for_bucket bucket_size =
    (if is_supported_session_padding_bucket bucket_size then bucket_size - 1 else 0)"

definition session_frame_overhead :: "nat \<Rightarrow> nat" where
  "session_frame_overhead bucket_size =
     PACKET_HEADER_SIZE + 12 + 16 + SESSION_LENGTH_PREFIX_SIZE +
     session_max_padding_for_bucket bucket_size"

definition session_padded_plaintext_size :: "nat \<Rightarrow> nat \<Rightarrow> nat" where
  "session_padded_plaintext_size logical_payload_size bucket_size =
    (if \<not> is_supported_session_padding_bucket bucket_size then 0
     else let prefixed_size = logical_payload_size + SESSION_LENGTH_PREFIX_SIZE
          in ((prefixed_size + bucket_size - 1) div bucket_size) * bucket_size)"

section \<open>MTU contract\<close>

abbreviation DIRECT_ROUTE_DEPTH :: nat where "DIRECT_ROUTE_DEPTH \<equiv> 1"
abbreviation DEFAULT_UNDERLAY_MTU :: nat where "DEFAULT_UNDERLAY_MTU \<equiv> 1500"
abbreviation MINIMUM_IPV4_MTU :: nat where "MINIMUM_IPV4_MTU \<equiv> 576"
abbreviation MAXIMUM_IPV4_MTU :: nat where "MAXIMUM_IPV4_MTU \<equiv> 65535"
abbreviation OUTER_IPV4_UDP_OVERHEAD :: nat where "OUTER_IPV4_UDP_OVERHEAD \<equiv> 28"
abbreviation RELAY_CONTENT_TYPE_SIZE :: nat where "RELAY_CONTENT_TYPE_SIZE \<equiv> 1"
abbreviation RELAY_SOURCE_OVERHEAD :: nat where
  "RELAY_SOURCE_OVERHEAD \<equiv> NODE_ID_SIZE + RELAY_CONTENT_TYPE_SIZE"
abbreviation ONION_OVERHEAD :: nat where "ONION_OVERHEAD \<equiv> 60"
abbreviation ONION_MAX_HOPS :: nat where "ONION_MAX_HOPS \<equiv> 8"

definition wire_overhead_for_route_depth :: "nat \<Rightarrow> nat \<Rightarrow> nat option" where
  "wire_overhead_for_route_depth route_depth padding_bucket_size =
    (if route_depth < DIRECT_ROUTE_DEPTH \<or> route_depth > ONION_MAX_HOPS \<or>
        \<not> is_supported_session_padding_bucket padding_bucket_size
     then None
     else let overhead = OUTER_IPV4_UDP_OVERHEAD + session_frame_overhead padding_bucket_size
          in Some (if route_depth > DIRECT_ROUTE_DEPTH
                   then overhead + (RELAY_SOURCE_OVERHEAD + route_depth * ONION_OVERHEAD)
                   else overhead))"

definition safe_overlay_mtu :: "nat \<Rightarrow> nat \<Rightarrow> nat \<Rightarrow> nat option" where
  "safe_overlay_mtu underlay_mtu route_depth padding_bucket_size =
    (if underlay_mtu > MAXIMUM_IPV4_MTU then None
     else case wire_overhead_for_route_depth route_depth padding_bucket_size of
       None \<Rightarrow> None
     | Some overhead \<Rightarrow>
         if underlay_mtu < overhead + MINIMUM_IPV4_MTU then None
         else Some (underlay_mtu - overhead))"

section \<open>Lemmas\<close>

lemma header_writes_ok:
  "header_writes h = Some (writer_at
     (ph_version h # ph_packet_type h # ph_flags h # ph_reserved h #
      be32 (ph_session_id h) @ be32 (ph_sequence_number h) @ be32 (ph_payload_length h)) [])"
  by (simp add: header_writes_def wire_simps)

lemma serialize_packet_header_eq:
  "serialize_packet_header h =
     ph_version h # ph_packet_type h # ph_flags h # ph_reserved h #
     be32 (ph_session_id h) @ be32 (ph_sequence_number h) @ be32 (ph_payload_length h)"
  by (simp add: serialize_packet_header_def header_writes_ok wire_simps)

lemma length_serialize_packet_header [simp]:
  "length (serialize_packet_header h) = PACKET_HEADER_SIZE"
  by (simp add: serialize_packet_header_eq)

lemma parse_serialize_packet_header:
  "parse_packet_header (serialize_packet_header h) = Some h"
  by (simp add: parse_packet_header_def serialize_packet_header_eq wire_simps)

lemma parse_packet_header_SomeD:
  "parse_packet_header bs = Some h \<Longrightarrow> bs = serialize_packet_header h"
  by (auto simp: parse_packet_header_def serialize_packet_header_eq WireReader_at rd_finished_at
      bind_eq_Some_conv split: if_splits dest!: wire_dest)

interpretation header_codec: canonical_codec "\<lambda>_. True" "Some \<circ> serialize_packet_header"
    parse_packet_header
  by unfold_locales (auto simp: parse_serialize_packet_header dest: parse_packet_header_SomeD)

lemma parse_packet_header_length:
  "parse_packet_header bs = Some h \<Longrightarrow> length bs = PACKET_HEADER_SIZE"
  by (auto dest!: parse_packet_header_SomeD)

lemma supported_bucket_cases:
  assumes "is_supported_session_padding_bucket b"
  obtains "b = 32" | "b = 64" | "b = 128" | "b = 256"
  using assms by (auto simp: is_supported_session_padding_bucket_def)

lemma supported_bucket_pos: "is_supported_session_padding_bucket b \<Longrightarrow> 0 < b"
  by (auto simp: is_supported_session_padding_bucket_def)

lemma round_up_bounds:
  fixes n b :: nat
  assumes "0 < b"
  shows "n \<le> ((n + b - 1) div b) * b" and "((n + b - 1) div b) * b < n + b"
proof -
  have e: "((n + b - 1) div b) * b + (n + b - 1) mod b = n + b - 1" by simp
  have "(n + b - 1) mod b < b" using assms by simp
  then show "n \<le> ((n + b - 1) div b) * b" using e by linarith
  show "((n + b - 1) div b) * b < n + b" using e assms by linarith
qed

lemma session_padded_plaintext_size_bounds:
  assumes "is_supported_session_padding_bucket b"
  shows "n + SESSION_LENGTH_PREFIX_SIZE \<le> session_padded_plaintext_size n b"
    and "session_padded_plaintext_size n b < n + SESSION_LENGTH_PREFIX_SIZE + b"
    and "b dvd session_padded_plaintext_size n b"
  using assms round_up_bounds [OF supported_bucket_pos [OF assms], of "n + 4"]
  by (simp_all add: session_padded_plaintext_size_def Let_def)

end
