(* ===== verification/Std_Map.thy ===== *)
theory Std_Map
  imports Aegis_Prelude "HOL-Library.List_Lexorder"
begin

text \<open>
  \<open>std::map\<close> and the erase-while-iterating loops of the sources.  A map is the
  list of its entries in key order; byte-array keys compare lexicographically
  as \<open>std::array\<close> does.  The contract \<open>ordered_map\<close> is what the components rely
  on: the lookup laws of every update, and the entry count the capacity checks
  read.
\<close>

section \<open>Definitions\<close>

type_synonym ('k, 'v) std_map = "('k \<times> 'v) list"

fun map_put :: "'k::linorder \<Rightarrow> 'v \<Rightarrow> ('k, 'v) std_map \<Rightarrow> ('k, 'v) std_map" where
  "map_put k v [] = [(k, v)]"
| "map_put k v ((a, b) # m) =
    (if k < a then (k, v) # (a, b) # m
     else if k = a then (k, v) # m
     else (a, b) # map_put k v m)"

definition map_erase :: "'k \<Rightarrow> ('k, 'v) std_map \<Rightarrow> ('k, 'v) std_map" where
  "map_erase k m = filter (\<lambda>e. fst e \<noteq> k) m"

text \<open>The loop \<open>for (it = begin; it != end;) if (drop) it = erase(it); else ++it;\<close>.\<close>

definition map_erase_if :: "('k \<times> 'v \<Rightarrow> bool) \<Rightarrow> ('k, 'v) std_map \<Rightarrow> ('k, 'v) std_map" where
  "map_erase_if P m = filter (\<lambda>e. \<not> P e) m"

definition map_contains :: "'k \<Rightarrow> ('k, 'v) std_map \<Rightarrow> bool" where
  "map_contains k m \<longleftrightarrow> k \<in> fst ` set m"

text \<open>\<open>std::min_element\<close>: the first entry no other entry is less than.\<close>

definition min_element :: "('a \<Rightarrow> 'a \<Rightarrow> bool) \<Rightarrow> 'a list \<Rightarrow> 'a option" where
  "min_element lt xs =
    (case xs of [] \<Rightarrow> None
     | y # ys \<Rightarrow> Some (foldl (\<lambda>best x. if lt x best then x else best) y ys))"

definition map_ok :: "('k::linorder, 'v) std_map \<Rightarrow> bool" where
  "map_ok m \<longleftrightarrow> sorted_wrt (<) (map fst m)"

section \<open>Lookup laws\<close>

lemma map_of_put [simp]: "map_of (map_put k v m) = (map_of m)(k \<mapsto> v)"
  by (induction k v m rule: map_put.induct) (auto simp: fun_eq_iff)

lemma map_of_erase [simp]: "map_of (map_erase k m) = (map_of m)(k := None)"
  by (induction m) (auto simp: map_erase_def fun_eq_iff)

lemma keys_put: "fst ` set (map_put k v m) = insert k (fst ` set m)"
  by (induction k v m rule: map_put.induct) auto

lemma set_put_subset: "set (map_put k v m) \<subseteq> insert (k, v) (set m)"
  by (induction k v m rule: map_put.induct) auto

lemma map_contains_iff: "map_contains k m \<longleftrightarrow> map_of m k \<noteq> None"
  by (simp add: map_contains_def map_of_eq_None_iff)

lemma map_contains_code [simp]:
  "map_contains k [] = False"
  "map_contains k ((a, b) # m) \<longleftrightarrow> k = a \<or> map_contains k m"
  by (auto simp: map_contains_def)

lemma map_contains_put [simp]: "map_contains k (map_put a v m) \<longleftrightarrow> k = a \<or> map_contains k m"
  by (simp add: map_contains_def keys_put)

lemma map_contains_erase [simp]: "map_contains k (map_erase a m) \<longleftrightarrow> k \<noteq> a \<and> map_contains k m"
  by (auto simp: map_contains_def map_erase_def)

section \<open>Order and size\<close>

lemma map_ok_Nil [simp]: "map_ok []"
  by (simp add: map_ok_def)

lemma map_ok_Cons: "map_ok ((a, b) # m) \<longleftrightarrow> (\<forall>k \<in> fst ` set m. a < k) \<and> map_ok m"
  by (auto simp: map_ok_def)

lemma map_ok_distinct: "map_ok m \<Longrightarrow> distinct (map fst m)"
  unfolding map_ok_def using strict_sorted_iff by blast

lemma map_ok_put [intro]: "map_ok m \<Longrightarrow> map_ok (map_put k v m)"
  by (induction k v m rule: map_put.induct) (auto simp: map_ok_Cons keys_put intro: less_trans)

lemma map_ok_filter: "map_ok m \<Longrightarrow> map_ok (filter P m)"
  by (induction m) (auto simp: map_ok_Cons)

lemma map_ok_erase [intro]: "map_ok m \<Longrightarrow> map_ok (map_erase k m)"
  by (simp add: map_erase_def map_ok_filter)

lemma map_ok_erase_if [intro]: "map_ok m \<Longrightarrow> map_ok (map_erase_if P m)"
  by (simp add: map_erase_if_def map_ok_filter)

lemma length_put:
  "map_ok m \<Longrightarrow> length (map_put k v m) = (if map_contains k m then length m else Suc (length m))"
  by (induction k v m rule: map_put.induct) (auto simp: map_ok_Cons map_contains_def)

lemma length_erase:
  "map_ok m \<Longrightarrow> length (map_erase k m) = (if map_contains k m then length m - 1 else length m)"
proof (induction m)
  case (Cons e m)
  obtain a b where e: "e = (a, b)" by fastforce
  show ?case
  proof (cases "a = k")
    case True
    then have "filter (\<lambda>e. fst e \<noteq> k) m = m"
      using Cons.prems by (auto simp: e map_ok_Cons filter_id_conv)
    then show ?thesis using True by (simp add: e map_erase_def)
  next
    case False
    have "Suc (length m - 1) = length m" if "map_contains k m" using that by (cases m) auto
    then show ?thesis using Cons False by (auto simp: e map_erase_def map_ok_Cons)
  qed
qed (simp add: map_erase_def)

lemma length_erase_le [simp]: "length (map_erase k m) \<le> length m"
  by (simp add: map_erase_def)

lemma length_erase_if_le [simp]: "length (map_erase_if P m) \<le> length m"
  by (simp add: map_erase_if_def)

lemma map_of_erase_if:
  "map_ok m \<Longrightarrow> map_of (map_erase_if P m) k =
    (case map_of m k of None \<Rightarrow> None | Some v \<Rightarrow> if P (k, v) then None else Some v)"
proof (induction m)
  case (Cons e m)
  obtain a b where e: "e = (a, b)" by fastforce
  have "map_of m a = None" using Cons.prems by (auto simp: e map_ok_Cons map_of_eq_None_iff)
  then show ?case using Cons by (auto simp: e map_erase_if_def map_ok_Cons split: option.splits)
qed (simp add: map_erase_if_def)

lemma map_of_erase_if_SomeD:
  "map_ok m \<Longrightarrow> map_of (map_erase_if P m) k = Some v \<Longrightarrow> map_of m k = Some v \<and> \<not> P (k, v)"
  by (auto simp: map_of_erase_if split: option.splits if_splits)

lemma map_contains_erase_if_D: "map_contains k (map_erase_if P m) \<Longrightarrow> map_contains k m"
  by (auto simp: map_contains_def map_erase_if_def)

lemma map_ok_mem: "map_ok m \<Longrightarrow> (k, v) \<in> set m \<longleftrightarrow> map_of m k = Some v"
  by (simp add: map_ok_distinct map_of_eq_Some_iff)

section \<open>Least element\<close>

lemma foldl_best_mem:
  "foldl (\<lambda>best x. if lt x best then x else best) y ys \<in> insert y (set ys)"
proof (induction ys arbitrary: y)
  case (Cons a ys)
  show ?case using Cons.IH [of "if lt a y then a else y"] by (auto split: if_splits)
qed simp

lemma min_element_mem: "min_element lt xs = Some x \<Longrightarrow> x \<in> set xs"
  using foldl_best_mem [of lt] by (cases xs) (auto simp: min_element_def)

lemma min_element_None [simp]: "min_element lt xs = None \<longleftrightarrow> xs = []"
  by (cases xs) (auto simp: min_element_def)

lemma foldl_best_least:
  fixes f :: "'a \<Rightarrow> 'b::linorder"
  assumes "\<And>x y. lt x y \<longleftrightarrow> f x < f y"
  shows "\<forall>x \<in> insert y (set ys). f (foldl (\<lambda>best x. if lt x best then x else best) y ys) \<le> f x"
proof (induction ys arbitrary: y)
  case (Cons a ys)
  show ?case using Cons.IH [of "if lt a y then a else y"] assms [of a y]
    by (auto split: if_splits)
qed simp

section \<open>The contract\<close>

locale ordered_map =
  fixes lookup :: "'m \<Rightarrow> 'k \<Rightarrow> 'v option"
    and put :: "'k \<Rightarrow> 'v \<Rightarrow> 'm \<Rightarrow> 'm"
    and erase :: "'k \<Rightarrow> 'm \<Rightarrow> 'm"
    and size_of :: "'m \<Rightarrow> nat"
    and invar :: "'m \<Rightarrow> bool"
  assumes lookup_put: "invar m \<Longrightarrow> lookup (put k v m) = (lookup m)(k \<mapsto> v)"
    and lookup_erase: "invar m \<Longrightarrow> lookup (erase k m) = (lookup m)(k := None)"
    and invar_put: "invar m \<Longrightarrow> invar (put k v m)"
    and invar_erase: "invar m \<Longrightarrow> invar (erase k m)"
    and size_put: "invar m \<Longrightarrow>
      size_of (put k v m) = (if lookup m k = None then Suc (size_of m) else size_of m)"
    and size_erase: "invar m \<Longrightarrow>
      size_of (erase k m) = (if lookup m k = None then size_of m else size_of m - 1)"
begin

text \<open>A bounded insert, the pattern of every table with a capacity: an entry is
  inserted when its key is present or a slot is free.\<close>

lemma bounded_put:
  "invar m \<Longrightarrow> size_of m \<le> cap \<Longrightarrow> lookup m k \<noteq> None \<or> size_of m < cap \<Longrightarrow>
    size_of (put k v m) \<le> cap"
  by (auto simp: size_put)

text \<open>Evicting one entry makes room for one insert.\<close>

lemma evict_put:
  "invar m \<Longrightarrow> size_of m \<le> cap \<Longrightarrow> lookup m victim \<noteq> None \<Longrightarrow> 0 < cap \<Longrightarrow>
    size_of (put k v (erase victim m)) \<le> cap"
  by (auto simp: size_put size_erase invar_erase lookup_erase)

end

interpretation std_map: ordered_map map_of map_put map_erase length map_ok
  by unfold_locales (auto simp: length_put length_erase map_contains_iff)

end
