(* ===== verification/Replay_Window.thy ===== *)
theory Replay_Window
  imports Packet_Header Std_Map
begin

text \<open>
  \<open>SessionManager::SessionState\<close> and its anti-replay window
  (\<open>check_replay\<close>, \<open>update_replay\<close> in \<open>src/session/session.cpp\<close>).  The 2048-bit
  \<open>std::bitset\<close> is a \<open>2048 word\<close>, the counters keep their 64-bit width.  The
  window is refined against the set of sequence numbers received so far.
\<close>

section \<open>Definitions\<close>

record SessionState =
  ss_id :: u32
  ss_send_key :: bytes
  ss_recv_key :: bytes
  ss_send_seq :: u64
  ss_recv_last :: u64
  ss_recv_window :: "2048 word"
  ss_peer_id :: node_id
  ss_established :: bool
  ss_initiated_locally :: bool
  ss_established_at :: time

abbreviation REPLAY_BITS :: nat where "REPLAY_BITS \<equiv> 2048"

definition check_replay :: "SessionState \<Rightarrow> u64 \<Rightarrow> bool" where
  "check_replay session seq =
    (if ss_recv_last session \<ge> of_nat REPLAY_BITS \<and>
        seq \<le> ss_recv_last session - of_nat REPLAY_BITS then False
     else if seq > ss_recv_last session then True
     else if seq + of_nat REPLAY_BITS \<le> ss_recv_last session then False
     else if bit (ss_recv_window session) (unat (ss_recv_last session - seq)) then False
     else True)"

definition update_replay :: "SessionState \<Rightarrow> u64 \<Rightarrow> SessionState" where
  "update_replay session seq =
    (let session =
       (if seq > ss_recv_last session
        then let shift = seq - ss_recv_last session;
                 window = (if shift < of_nat REPLAY_BITS
                           then push_bit (unat shift) (ss_recv_window session) else 0)
             in session\<lparr>ss_recv_window := window, ss_recv_last := seq\<rparr>
        else session)
     in session\<lparr>ss_recv_window :=
          set_bit (unat (ss_recv_last session - seq)) (ss_recv_window session)\<rparr>)"

section \<open>Abstract specification\<close>

text \<open>What the window promises: a number is accepted when it was not received
  before and lies within \<open>REPLAY_BITS\<close> of the highest number received.\<close>

definition replay_spec :: "nat set \<Rightarrow> nat \<Rightarrow> bool" where
  "replay_spec received n \<longleftrightarrow> n \<notin> received \<and> (\<forall>m \<in> received. m < n + REPLAY_BITS)"

text \<open>The abstraction relation between a window and the set of numbers received.\<close>

definition replay_rel :: "SessionState \<Rightarrow> nat set \<Rightarrow> bool" where
  "replay_rel s received \<longleftrightarrow>
     (\<forall>n \<in> received. n \<le> unat (ss_recv_last s)) \<and>
     (received \<noteq> {} \<longrightarrow> unat (ss_recv_last s) \<in> received) \<and>
     (received = {} \<longrightarrow> ss_recv_last s = 0) \<and>
     (\<forall>d < REPLAY_BITS. bit (ss_recv_window s) d \<longleftrightarrow>
        d \<le> unat (ss_recv_last s) \<and> unat (ss_recv_last s) - d \<in> received)"

lemma replay_relD:
  assumes "replay_rel s received"
  shows "n \<in> received \<Longrightarrow> n \<le> unat (ss_recv_last s)"
    and "received \<noteq> {} \<Longrightarrow> unat (ss_recv_last s) \<in> received"
    and "received = {} \<Longrightarrow> ss_recv_last s = 0"
    and "d < REPLAY_BITS \<Longrightarrow> bit (ss_recv_window s) d \<longleftrightarrow>
        d \<le> unat (ss_recv_last s) \<and> unat (ss_recv_last s) - d \<in> received"
  using assms by (auto simp: replay_rel_def)

lemma replay_rel_initial:
  "ss_recv_last s = 0 \<Longrightarrow> ss_recv_window s = 0 \<Longrightarrow> replay_rel s {}"
  by (simp add: replay_rel_def)

lemma replay_rel_cong:
  "replay_rel s R \<Longrightarrow> ss_recv_last s' = ss_recv_last s \<Longrightarrow>
    ss_recv_window s' = ss_recv_window s \<Longrightarrow> replay_rel s' R"
  by (simp add: replay_rel_def)

section \<open>Refinement\<close>

lemma check_replay_nat:
  assumes "unat seq + REPLAY_BITS < 2 ^ 64"
  shows "check_replay s seq \<longleftrightarrow>
    unat (ss_recv_last s) < unat seq \<or>
    (unat (ss_recv_last s) < unat seq + REPLAY_BITS \<and>
     \<not> bit (ss_recv_window s) (unat (ss_recv_last s) - unat seq))"
proof -
  have add: "unat (seq + 2048) = unat seq + 2048"
    using assms by (simp add: unat_word_ariths)
  have sub: "unat (ss_recv_last s - 2048) = unat (ss_recv_last s) - 2048"
    if "2048 \<le> ss_recv_last s" using that unat_sub by fastforce
  have diff: "unat (ss_recv_last s - seq) = unat (ss_recv_last s) - unat seq"
    if "seq \<le> ss_recv_last s" using that by (simp add: unat_sub)
  show ?thesis
    using add sub diff unfolding check_replay_def
    by (auto simp: word_le_nat_alt word_less_nat_alt)
qed

lemma check_replay_spec:
  assumes rel: "replay_rel s received" and small: "unat seq + REPLAY_BITS < 2 ^ 64"
  shows "check_replay s seq \<longleftrightarrow> replay_spec received (unat seq)"
proof (cases "received = {}")
  case True
  then show ?thesis
    using replay_relD(3,4) [OF rel] by (auto simp: check_replay_nat [OF small] replay_spec_def)
next
  case False
  let ?l = "unat (ss_recv_last s)"
  note l = replay_relD(2) [OF rel False] and le = replay_relD(1) [OF rel]
  have "replay_spec received (unat seq) \<longleftrightarrow> unat seq \<notin> received \<and> ?l < unat seq + REPLAY_BITS"
    using l le by (fastforce simp: replay_spec_def)
  moreover have "bit (ss_recv_window s) (?l - unat seq) \<longleftrightarrow> unat seq \<in> received"
    if "unat seq \<le> ?l" "?l < unat seq + REPLAY_BITS"
    using that replay_relD(4) [OF rel, of "?l - unat seq"] by auto
  ultimately show ?thesis
    using le [of "unat seq"] by (auto simp: check_replay_nat [OF small])
qed

lemma update_replay_fields:
  "ss_id (update_replay s seq) = ss_id s" "ss_send_key (update_replay s seq) = ss_send_key s"
  "ss_recv_key (update_replay s seq) = ss_recv_key s"
  "ss_send_seq (update_replay s seq) = ss_send_seq s"
  "ss_peer_id (update_replay s seq) = ss_peer_id s"
  "ss_established (update_replay s seq) = ss_established s"
  "ss_initiated_locally (update_replay s seq) = ss_initiated_locally s"
  "ss_established_at (update_replay s seq) = ss_established_at s"
  by (simp_all add: update_replay_def Let_def)

declare update_replay_fields [simp]

lemma recv_last_update:
  "ss_recv_last (update_replay s seq) = (if seq > ss_recv_last s then seq else ss_recv_last s)"
  by (simp add: update_replay_def Let_def)

lemma recv_window_update:
  assumes "d < REPLAY_BITS"
  shows "bit (ss_recv_window (update_replay s seq)) d \<longleftrightarrow>
    (if seq > ss_recv_last s
     then d = 0 \<or> (unat seq - unat (ss_recv_last s) \<le> d \<and>
                   bit (ss_recv_window s) (d - (unat seq - unat (ss_recv_last s))))
     else d = unat (ss_recv_last s) - unat seq \<or> bit (ss_recv_window s) d)"
proof -
  have up: "unat (seq - ss_recv_last s) = unat seq - unat (ss_recv_last s)"
    if "ss_recv_last s < seq" using that by (simp add: unat_sub)
  have down: "unat (ss_recv_last s - seq) = unat (ss_recv_last s) - unat seq"
    if "\<not> ss_recv_last s < seq" using that by (simp add: unat_sub)
  have big: "seq - ss_recv_last s < 2048 \<longleftrightarrow> unat seq - unat (ss_recv_last s) < 2048"
    if "ss_recv_last s < seq" using up [OF that] by (simp add: word_less_nat_alt)
  show ?thesis
    using assms up down big
    by (auto simp: update_replay_def Let_def bit_simps not_less)
qed

lemma update_replay_rel:
  assumes rel: "replay_rel s received" and spec: "replay_spec received (unat seq)"
  shows "replay_rel (update_replay s seq) (insert (unat seq) received)"
proof -
  let ?l = "unat (ss_recv_last s)" and ?n = "unat seq"
  note le = replay_relD(1) [OF rel] and bits = replay_relD(4) [OF rel]
  have win: "bit (ss_recv_window (update_replay s seq)) d \<longleftrightarrow>
      d \<le> unat (ss_recv_last (update_replay s seq)) \<and>
      unat (ss_recv_last (update_replay s seq)) - d \<in> insert ?n received"
    if d: "d < REPLAY_BITS" for d
  proof (cases "seq > ss_recv_last s")
    case True
    then have lt: "?l < ?n" by (simp add: word_less_nat_alt)
    have "bit (ss_recv_window s) (d - (?n - ?l)) \<longleftrightarrow> d \<le> ?n \<and> ?n - d \<in> received"
      if "?n - ?l \<le> d"
      using that lt d bits [of "d - (?n - ?l)"] by (auto simp: algebra_simps)
    moreover have "?n - d \<notin> received" if "d < ?n - ?l"
      using that le by fastforce
    ultimately show ?thesis
      using True lt d
      by (cases "?n - ?l \<le> d") (auto simp: recv_window_update [OF d] recv_last_update not_le)
  next
    case False
    then have nl: "?n \<le> ?l" by (simp add: word_less_nat_alt)
    have "ss_recv_last s = 0 \<and> seq = 0 \<or> received \<noteq> {}"
      using replay_relD(3) [OF rel] False by (auto simp: word_gt_0)
    then show ?thesis
      using False nl d bits [OF d] by (auto simp: recv_window_update [OF d] recv_last_update)
  qed
  have "unat (ss_recv_last (update_replay s seq)) \<in> insert ?n received"
    using replay_relD(2,3) [OF rel]
    by (cases "received = {}") (auto simp: recv_last_update word_gt_0)
  moreover have "\<forall>n \<in> insert ?n received. n \<le> unat (ss_recv_last (update_replay s seq))"
    using le by (fastforce simp: recv_last_update word_less_nat_alt)
  ultimately show ?thesis using win by (auto simp: replay_rel_def)
qed

end
