(* ===== verification/Handshake_V2.thy ===== *)
theory Handshake_V2
  imports Wire
begin

text \<open>
  \<open>src/session/handshake_v2.cpp\<close> with \<open>include/aegis/session/handshake_v2.hpp\<close>:
  the envelope of the two Noise IK messages and the prologue that binds the
  network, the session id and both envelope headers into the handshake
  transcript.
\<close>

section \<open>Definitions\<close>

abbreviation HANDSHAKE_V2_VERSION :: byte where "HANDSHAKE_V2_VERSION \<equiv> 2"
abbreviation HANDSHAKE_V2_INIT_TYPE :: byte where "HANDSHAKE_V2_INIT_TYPE \<equiv> 0"
abbreviation HANDSHAKE_V2_RESPONSE_TYPE :: byte where "HANDSHAKE_V2_RESPONSE_TYPE \<equiv> 1"
abbreviation HANDSHAKE_V2_FLAGS :: byte where "HANDSHAKE_V2_FLAGS \<equiv> 0"
abbreviation HANDSHAKE_V2_INITIATOR_ROLE :: byte where "HANDSHAKE_V2_INITIATOR_ROLE \<equiv> 1"
abbreviation HANDSHAKE_V2_RESPONDER_ROLE :: byte where "HANDSHAKE_V2_RESPONDER_ROLE \<equiv> 2"
abbreviation HANDSHAKE_V2_PROLOGUE_DOMAIN :: string where
  "HANDSHAKE_V2_PROLOGUE_DOMAIN \<equiv> ''aegis-handshake-v2''"
abbreviation HANDSHAKE_V2_NOISE_PROTOCOL :: string where
  "HANDSHAKE_V2_NOISE_PROTOCOL \<equiv> ''Noise_IK_25519_ChaChaPoly_BLAKE2s''"
abbreviation HANDSHAKE_V2_HEADER_SIZE :: nat where "HANDSHAKE_V2_HEADER_SIZE \<equiv> 9"
abbreviation HANDSHAKE_V2_INIT_NOISE_SIZE :: nat where "HANDSHAKE_V2_INIT_NOISE_SIZE \<equiv> 96"
abbreviation HANDSHAKE_V2_RESPONSE_NOISE_SIZE :: nat where
  "HANDSHAKE_V2_RESPONSE_NOISE_SIZE \<equiv> 48"
abbreviation HANDSHAKE_V2_INIT_PAYLOAD_SIZE :: nat where
  "HANDSHAKE_V2_INIT_PAYLOAD_SIZE \<equiv> NETWORK_ID_SIZE + HANDSHAKE_V2_INIT_NOISE_SIZE"
abbreviation HANDSHAKE_V2_RESPONSE_PAYLOAD_SIZE :: nat where
  "HANDSHAKE_V2_RESPONSE_PAYLOAD_SIZE \<equiv> HANDSHAKE_V2_RESPONSE_NOISE_SIZE"
abbreviation HANDSHAKE_V2_INIT_FRAME_SIZE :: nat where
  "HANDSHAKE_V2_INIT_FRAME_SIZE \<equiv> HANDSHAKE_V2_HEADER_SIZE + HANDSHAKE_V2_INIT_PAYLOAD_SIZE"
abbreviation HANDSHAKE_V2_RESPONSE_FRAME_SIZE :: nat where
  "HANDSHAKE_V2_RESPONSE_FRAME_SIZE \<equiv>
     HANDSHAKE_V2_HEADER_SIZE + HANDSHAKE_V2_RESPONSE_PAYLOAD_SIZE"
abbreviation HANDSHAKE_V2_PROLOGUE_SIZE :: nat where
  "HANDSHAKE_V2_PROLOGUE_SIZE \<equiv>
     1 + length HANDSHAKE_V2_PROLOGUE_DOMAIN + 1 + length HANDSHAKE_V2_NOISE_PROTOCOL +
     1 + NETWORK_ID_SIZE + 4 + 2 + 2 * HANDSHAKE_V2_HEADER_SIZE"

record HandshakeV2InitFrame =
  hi_session_id :: u32
  hi_network_id :: network_id
  hi_noise_message :: bytes

record HandshakeV2ResponseFrame =
  hr_session_id :: u32
  hr_noise_message :: bytes

definition write_header :: "byte \<Rightarrow> u32 \<Rightarrow> u16 \<Rightarrow> wire_writer \<Rightarrow> wire_writer option" where
  "write_header type sid plen w =
    (if sid = 0 then None
     else do {
       w \<leftarrow> write_u8 HANDSHAKE_V2_VERSION w;
       w \<leftarrow> write_u8 type w;
       w \<leftarrow> write_u8 HANDSHAKE_V2_FLAGS w;
       w \<leftarrow> write_u32 sid w;
       write_u16 plen w })"

definition read_header :: "byte \<Rightarrow> u16 \<Rightarrow> wire_reader \<Rightarrow> (u32 \<times> wire_reader) option" where
  "read_header expected_type expected_payload_length r = do {
     (ver, r) \<leftarrow> read_u8 r;
     (type, r) \<leftarrow> read_u8 r;
     (flg, r) \<leftarrow> read_u8 r;
     (parsed_session_id, r) \<leftarrow> read_u32 r;
     (plen, r) \<leftarrow> read_u16 r;
     if ver \<noteq> HANDSHAKE_V2_VERSION \<or> type \<noteq> expected_type \<or> flg \<noteq> HANDSHAKE_V2_FLAGS \<or>
        parsed_session_id = 0 \<or> plen \<noteq> expected_payload_length
     then None
     else Some (parsed_session_id, r) }"

definition write_prologue_header ::
    "byte \<Rightarrow> u32 \<Rightarrow> u16 \<Rightarrow> wire_writer \<Rightarrow> wire_writer option" where
  "write_prologue_header type sid plen w = do {
     w \<leftarrow> write_u8 HANDSHAKE_V2_VERSION w;
     w \<leftarrow> write_u8 type w;
     w \<leftarrow> write_u8 HANDSHAKE_V2_FLAGS w;
     w \<leftarrow> write_u32 sid w;
     write_u16 plen w }"

definition make_handshake_v2_prologue :: "network_id \<Rightarrow> u32 \<Rightarrow> bytes option" where
  "make_handshake_v2_prologue network_id sid =
    (if sid = 0 then None
     else do {
       w \<leftarrow> write_u8 (of_nat (length HANDSHAKE_V2_PROLOGUE_DOMAIN))
             (WireWriter (replicate HANDSHAKE_V2_PROLOGUE_SIZE 0));
       w \<leftarrow> write_bytes (ascii HANDSHAKE_V2_PROLOGUE_DOMAIN) w;
       w \<leftarrow> write_u8 (of_nat (length HANDSHAKE_V2_NOISE_PROTOCOL)) w;
       w \<leftarrow> write_bytes (ascii HANDSHAKE_V2_NOISE_PROTOCOL) w;
       w \<leftarrow> write_u8 HANDSHAKE_V2_VERSION w;
       w \<leftarrow> write_bytes network_id w;
       w \<leftarrow> write_u32 sid w;
       w \<leftarrow> write_u8 HANDSHAKE_V2_INITIATOR_ROLE w;
       w \<leftarrow> write_u8 HANDSHAKE_V2_RESPONDER_ROLE w;
       w \<leftarrow> write_prologue_header HANDSHAKE_V2_INIT_TYPE sid
             (of_nat HANDSHAKE_V2_INIT_PAYLOAD_SIZE) w;
       w \<leftarrow> write_prologue_header HANDSHAKE_V2_RESPONSE_TYPE sid
             (of_nat HANDSHAKE_V2_RESPONSE_PAYLOAD_SIZE) w;
       if wr_finished w then Some (wr_bytes w) else None })"

definition serialize_handshake_v2_init :: "HandshakeV2InitFrame \<Rightarrow> bytes option" where
  "serialize_handshake_v2_init frame = do {
     w \<leftarrow> write_header HANDSHAKE_V2_INIT_TYPE (hi_session_id frame)
           (of_nat HANDSHAKE_V2_INIT_PAYLOAD_SIZE)
           (WireWriter (replicate HANDSHAKE_V2_INIT_FRAME_SIZE 0));
     w \<leftarrow> write_bytes (hi_network_id frame) w;
     w \<leftarrow> write_bytes (hi_noise_message frame) w;
     if wr_finished w then Some (wr_bytes w) else None }"

definition parse_handshake_v2_init :: "bytes \<Rightarrow> HandshakeV2InitFrame option" where
  "parse_handshake_v2_init bs =
    (if length bs \<noteq> HANDSHAKE_V2_INIT_FRAME_SIZE then None
     else do {
       (sid, r) \<leftarrow> read_header HANDSHAKE_V2_INIT_TYPE (of_nat HANDSHAKE_V2_INIT_PAYLOAD_SIZE)
                    (WireReader bs);
       (nid, r) \<leftarrow> read_bytes NETWORK_ID_SIZE r;
       (msg, r) \<leftarrow> read_bytes HANDSHAKE_V2_INIT_NOISE_SIZE r;
       if rd_finished r
       then Some \<lparr>hi_session_id = sid, hi_network_id = nid, hi_noise_message = msg\<rparr>
       else None })"

definition serialize_handshake_v2_response :: "HandshakeV2ResponseFrame \<Rightarrow> bytes option" where
  "serialize_handshake_v2_response frame = do {
     w \<leftarrow> write_header HANDSHAKE_V2_RESPONSE_TYPE (hr_session_id frame)
           (of_nat HANDSHAKE_V2_RESPONSE_PAYLOAD_SIZE)
           (WireWriter (replicate HANDSHAKE_V2_RESPONSE_FRAME_SIZE 0));
     w \<leftarrow> write_bytes (hr_noise_message frame) w;
     if wr_finished w then Some (wr_bytes w) else None }"

definition parse_handshake_v2_response :: "bytes \<Rightarrow> HandshakeV2ResponseFrame option" where
  "parse_handshake_v2_response bs =
    (if length bs \<noteq> HANDSHAKE_V2_RESPONSE_FRAME_SIZE then None
     else do {
       (sid, r) \<leftarrow> read_header HANDSHAKE_V2_RESPONSE_TYPE
                    (of_nat HANDSHAKE_V2_RESPONSE_PAYLOAD_SIZE) (WireReader bs);
       (msg, r) \<leftarrow> read_bytes HANDSHAKE_V2_RESPONSE_NOISE_SIZE r;
       if rd_finished r then Some \<lparr>hr_session_id = sid, hr_noise_message = msg\<rparr> else None })"

text \<open>What the array types of the two frames and the session id check give.\<close>

definition wf_init_frame :: "HandshakeV2InitFrame \<Rightarrow> bool" where
  [wf_defs]: "wf_init_frame f \<longleftrightarrow> hi_session_id f \<noteq> 0 \<and>
     length (hi_network_id f) = NETWORK_ID_SIZE \<and>
     length (hi_noise_message f) = HANDSHAKE_V2_INIT_NOISE_SIZE"

definition wf_response_frame :: "HandshakeV2ResponseFrame \<Rightarrow> bool" where
  [wf_defs]: "wf_response_frame f \<longleftrightarrow> hr_session_id f \<noteq> 0 \<and>
     length (hr_noise_message f) = HANDSHAKE_V2_RESPONSE_NOISE_SIZE"

section \<open>Lemmas\<close>

definition header_bytes :: "byte \<Rightarrow> u32 \<Rightarrow> u16 \<Rightarrow> bytes" where
  "header_bytes type sid plen = HANDSHAKE_V2_VERSION # type # HANDSHAKE_V2_FLAGS # be32 sid @ be16 plen"

lemma length_header_bytes [simp]: "length (header_bytes t s p) = HANDSHAKE_V2_HEADER_SIZE"
  by (simp add: header_bytes_def)

lemma write_header_at [wire_simps]:
  "write_header t sid p (writer_at out free) =
    (if sid \<noteq> 0 \<and> HANDSHAKE_V2_HEADER_SIZE \<le> length free
     then Some (writer_at (out @ header_bytes t sid p) (drop HANDSHAKE_V2_HEADER_SIZE free)) else None)"
  by (auto simp: write_header_def wire_simps header_bytes_def)

lemma write_prologue_header_at [wire_simps]:
  "write_prologue_header t sid p (writer_at out free) =
    (if HANDSHAKE_V2_HEADER_SIZE \<le> length free
     then Some (writer_at (out @ header_bytes t sid p) (drop HANDSHAKE_V2_HEADER_SIZE free)) else None)"
  by (auto simp: write_prologue_header_def wire_simps header_bytes_def)

lemma read_header_at [wire_simps]:
  "sid \<noteq> 0 \<Longrightarrow> read_header t p (reader_at pre (header_bytes t sid p @ s)) =
    Some (sid, reader_at (pre @ header_bytes t sid p) s)"
  by (simp add: read_header_def header_bytes_def wire_simps)

lemma read_header_SomeD [wire_dest]:
  "read_header t p (reader_at pre suf) = Some (sid, r) \<Longrightarrow>
    \<exists>s. suf = header_bytes t sid p @ s \<and> sid \<noteq> 0 \<and> r = reader_at (pre @ header_bytes t sid p) s"
  by (auto simp: read_header_def header_bytes_def bind_eq_Some_conv split: if_splits dest!: wire_dest)

lemma serialize_init_eq:
  "wf_init_frame f \<Longrightarrow> serialize_handshake_v2_init f =
    Some (header_bytes HANDSHAKE_V2_INIT_TYPE (hi_session_id f) 128 @
          hi_network_id f @ hi_noise_message f)"
  by (simp add: serialize_handshake_v2_init_def wf_defs wire_simps)

lemma parse_init_SomeD:
  assumes "parse_handshake_v2_init bs = Some f"
  shows "wf_init_frame f" and "serialize_handshake_v2_init f = Some bs"
proof -
  show wf: "wf_init_frame f"
    using assms by (auto simp: parse_handshake_v2_init_def wf_defs WireReader_at rd_finished_at
        bind_eq_Some_conv split: if_splits dest!: wire_dest)
  show "serialize_handshake_v2_init f = Some bs"
    using assms by (auto simp: serialize_init_eq [OF wf] parse_handshake_v2_init_def WireReader_at
        rd_finished_at bind_eq_Some_conv split: if_splits dest!: wire_dest)
qed

interpretation init_codec: canonical_codec wf_init_frame serialize_handshake_v2_init
    parse_handshake_v2_init
proof unfold_locales
  fix f bs
  show "wf_init_frame f \<Longrightarrow> \<exists>bs. serialize_handshake_v2_init f = Some bs"
    by (simp add: serialize_init_eq)
  show "wf_init_frame f \<Longrightarrow> serialize_handshake_v2_init f = Some bs \<Longrightarrow>
      parse_handshake_v2_init bs = Some f"
    by (auto simp: serialize_init_eq parse_handshake_v2_init_def wire_simps wf_init_frame_def)
qed (rule parse_init_SomeD, assumption)+

lemma serialize_response_eq:
  "wf_response_frame f \<Longrightarrow> serialize_handshake_v2_response f =
    Some (header_bytes HANDSHAKE_V2_RESPONSE_TYPE (hr_session_id f) 48 @ hr_noise_message f)"
  by (simp add: serialize_handshake_v2_response_def wf_defs wire_simps)

lemma parse_response_SomeD:
  assumes "parse_handshake_v2_response bs = Some f"
  shows "wf_response_frame f" and "serialize_handshake_v2_response f = Some bs"
proof -
  show wf: "wf_response_frame f"
    using assms by (auto simp: parse_handshake_v2_response_def wf_defs WireReader_at rd_finished_at
        bind_eq_Some_conv split: if_splits dest!: wire_dest)
  show "serialize_handshake_v2_response f = Some bs"
    using assms by (auto simp: serialize_response_eq [OF wf] parse_handshake_v2_response_def
        WireReader_at rd_finished_at bind_eq_Some_conv split: if_splits dest!: wire_dest)
qed

interpretation response_codec: canonical_codec wf_response_frame serialize_handshake_v2_response
    parse_handshake_v2_response
proof unfold_locales
  fix f bs
  show "wf_response_frame f \<Longrightarrow> \<exists>bs. serialize_handshake_v2_response f = Some bs"
    by (simp add: serialize_response_eq)
  show "wf_response_frame f \<Longrightarrow> serialize_handshake_v2_response f = Some bs \<Longrightarrow>
      parse_handshake_v2_response bs = Some f"
    by (auto simp: serialize_response_eq parse_handshake_v2_response_def wire_simps
        wf_response_frame_def)
qed (rule parse_response_SomeD, assumption)+

text \<open>The prologue is built for every network and non-zero session id, and determines both.\<close>

lemma make_prologue_eq:
  assumes "length nid = NETWORK_ID_SIZE" and "sid \<noteq> 0"
  shows "make_handshake_v2_prologue nid sid =
    Some (18 # ascii HANDSHAKE_V2_PROLOGUE_DOMAIN @ 33 # ascii HANDSHAKE_V2_NOISE_PROTOCOL @
      2 # nid @ be32 sid @ [1, 2] @ header_bytes 0 sid 128 @ header_bytes 1 sid 48)"
  using assms by (simp add: make_handshake_v2_prologue_def wire_simps)

lemma make_prologue_inj:
  assumes "length nid = NETWORK_ID_SIZE" "length nid' = NETWORK_ID_SIZE" "sid \<noteq> 0" "sid' \<noteq> 0"
    and "make_handshake_v2_prologue nid sid = make_handshake_v2_prologue nid' sid'"
  shows "nid = nid' \<and> sid = sid'"
  using assms by (simp add: make_prologue_eq)

end
