(* ===== verification/Session.thy ===== *)
theory Session
  imports Replay_Window Handshake_V2
begin

text \<open>
  \<open>src/session/session.cpp\<close>: the session manager.  Its mutex-protected tables
  are one record; every operation returns its result and the new tables.  The
  handshake responder runs in three separately locked phases and unlocked Noise
  computations between them; each is a definition of its own, composed in
  \<open>handle_handshake_init\<close>.  One clock reading is taken per locked section.

  Parameters of the model: \<open>noise_api\<close> (the Noise IK engine behind
  \<open>NoiseIkHandshake\<close>), \<open>crypto_api\<close> (BLAKE2 and ChaCha20-Poly1305 of the crypto
  library) and the random source.
\<close>

section \<open>Parameters\<close>

record 'hs noise_api =
  create_initiator :: "bytes \<Rightarrow> public_key \<Rightarrow> bytes \<Rightarrow> bytes \<Rightarrow> 'hs option"
  create_responder :: "bytes \<Rightarrow> bytes \<Rightarrow> bytes \<Rightarrow> 'hs option"
  write_message :: "'hs \<Rightarrow> (bytes \<times> 'hs) option"
  read_message :: "bytes \<Rightarrow> 'hs \<Rightarrow> 'hs option"
  remote_static_public_key :: "'hs \<Rightarrow> public_key option"
  split_keys :: "'hs \<Rightarrow> (bytes \<times> bytes) option"

record crypto_api =
  hash_public_key :: "public_key \<Rightarrow> node_id"
  transcript_hash :: "bytes \<Rightarrow> bytes option"
  aead_encrypt :: "bytes \<Rightarrow> bytes \<Rightarrow> bytes \<Rightarrow> bytes \<Rightarrow> (bytes \<times> bytes) option"
  aead_decrypt :: "bytes \<Rightarrow> bytes \<Rightarrow> bytes \<Rightarrow> bytes \<Rightarrow> bytes \<Rightarrow> bytes option"

section \<open>State\<close>

record SessionCapacityLimits =
  cap_active :: nat
  cap_retired :: nat
  cap_pending :: nat

record RetiredSession =
  rs_session :: SessionState
  rs_expires :: time

record 'hs PendingInitiator =
  pi_expected_peer_id :: node_id
  pi_expected_peer_static :: public_key
  pi_handshake :: 'hs
  pi_expires :: time

record 'hs SessionManager =
  sm_node_id :: node_id
  sm_network_id :: network_id
  sm_private_key :: bytes
  sm_capacity :: SessionCapacityLimits
  sm_padding_bucket_size :: nat
  sm_sessions :: "(node_id, SessionState) std_map"
  sm_session_to_peer :: "(u32, node_id) std_map"
  sm_retired_grace :: time
  sm_retired :: "(u32, RetiredSession) std_map"
  sm_handshake_timeout :: time
  sm_pending_initiators :: "(u32, 'hs PendingInitiator) std_map"
  sm_handshake_replay_ttl :: time
  sm_handshake_replays :: "(bytes, time) std_map"

record SessionSnapshot =
  sn_id :: u32
  sn_peer_id :: node_id
  sn_established :: bool
  sn_initiated_locally :: bool
  sn_established_at :: time

abbreviation SESSION_MAX_ACTIVE :: nat where "SESSION_MAX_ACTIVE \<equiv> 256"
abbreviation SESSION_MAX_RETIRED :: nat where "SESSION_MAX_RETIRED \<equiv> 256"
abbreviation SESSION_MAX_PENDING :: nat where "SESSION_MAX_PENDING \<equiv> 256"

text \<open>The constructor; the grace, timeout and replay defaults are 10 s, 15 s and 2 min.\<close>

definition new_SessionManager ::
    "node_id \<Rightarrow> network_id \<Rightarrow> bytes \<Rightarrow> SessionCapacityLimits \<Rightarrow> nat \<Rightarrow> 'hs SessionManager" where
  "new_SessionManager nid net priv cap bucket =
    \<lparr>sm_node_id = nid, sm_network_id = net, sm_private_key = priv, sm_capacity = cap,
     sm_padding_bucket_size = bucket, sm_sessions = [], sm_session_to_peer = [],
     sm_retired_grace = 10000, sm_retired = [], sm_handshake_timeout = 15000,
     sm_pending_initiators = [], sm_handshake_replay_ttl = 120000, sm_handshake_replays = []\<rparr>"

definition fresh_SessionState :: SessionState where
  "fresh_SessionState =
    \<lparr>ss_id = 0, ss_send_key = replicate 32 0, ss_recv_key = replicate 32 0, ss_send_seq = 0,
     ss_recv_last = 0, ss_recv_window = 0, ss_peer_id = replicate NODE_ID_SIZE 0,
     ss_established = False, ss_initiated_locally = False, ss_established_at = 0\<rparr>"

section \<open>Purging and timers\<close>

definition purge_retired_locked :: "time \<Rightarrow> 'hs SessionManager \<Rightarrow> 'hs SessionManager" where
  "purge_retired_locked now sm =
    sm\<lparr>sm_retired := map_erase_if (\<lambda>(_, r). rs_expires r \<le> now) (sm_retired sm)\<rparr>"

definition purge_incomplete_handshakes_locked ::
    "time \<Rightarrow> 'hs SessionManager \<Rightarrow> 'hs SessionManager" where
  "purge_incomplete_handshakes_locked now sm =
    sm\<lparr>sm_pending_initiators :=
        map_erase_if (\<lambda>(_, p). pi_expires p \<le> now) (sm_pending_initiators sm)\<rparr>"

definition purge_handshake_replays_locked ::
    "time \<Rightarrow> 'hs SessionManager \<Rightarrow> 'hs SessionManager" where
  "purge_handshake_replays_locked now sm =
    sm\<lparr>sm_handshake_replays :=
        map_erase_if (\<lambda>(_, expires). expires \<le> now) (sm_handshake_replays sm)\<rparr>"

definition set_retired_grace :: "time \<Rightarrow> 'hs SessionManager \<Rightarrow> 'hs SessionManager" where
  "set_retired_grace grace sm = sm\<lparr>sm_retired_grace := grace\<rparr>"

definition set_handshake_timeout ::
    "time \<Rightarrow> time \<Rightarrow> 'hs SessionManager \<Rightarrow> 'hs SessionManager" where
  "set_handshake_timeout now timeout sm =
    purge_incomplete_handshakes_locked now (sm\<lparr>sm_handshake_timeout := max timeout 0\<rparr>)"

definition set_handshake_replay_ttl ::
    "time \<Rightarrow> time \<Rightarrow> 'hs SessionManager \<Rightarrow> 'hs SessionManager" where
  "set_handshake_replay_ttl now ttl sm =
    purge_handshake_replays_locked now (sm\<lparr>sm_handshake_replay_ttl := max ttl 0\<rparr>)"

section \<open>Session table\<close>

definition retired_before :: "u32 \<times> RetiredSession \<Rightarrow> u32 \<times> RetiredSession \<Rightarrow> bool" where
  "retired_before l r =
    (if rs_expires (snd l) \<noteq> rs_expires (snd r) then rs_expires (snd l) < rs_expires (snd r)
     else fst l < fst r)"

definition retire_session_locked ::
    "SessionState \<Rightarrow> time \<Rightarrow> 'hs SessionManager \<Rightarrow> 'hs SessionManager" where
  "retire_session_locked session now sm =
    (let sm = purge_retired_locked now sm in
     if cap_retired (sm_capacity sm) = 0 then sm
     else
       let retired =
         (if \<not> map_contains (ss_id session) (sm_retired sm) \<and>
             length (sm_retired sm) \<ge> cap_retired (sm_capacity sm)
          then case min_element retired_before (sm_retired sm) of
                 Some victim \<Rightarrow> map_erase (fst victim) (sm_retired sm)
               | None \<Rightarrow> sm_retired sm
          else sm_retired sm)
       in sm\<lparr>sm_retired := map_put (ss_id session)
              \<lparr>rs_session = session, rs_expires = now + sm_retired_grace sm\<rparr> retired\<rparr>)"

definition create_session ::
    "time \<Rightarrow> node_id \<Rightarrow> u32 \<Rightarrow> 'hs SessionManager \<Rightarrow> SessionState \<times> 'hs SessionManager" where
  "create_session now peer_id session_id sm =
    (let found = map_of (sm_sessions sm) peer_id;
         sm = (case found of
                 Some s \<Rightarrow> if ss_established s
                   then (let sm = retire_session_locked s now sm
                         in sm\<lparr>sm_session_to_peer := map_erase (ss_id s) (sm_session_to_peer sm)\<rparr>)
                   else sm
               | None \<Rightarrow> sm);
         n = (case found of Some s \<Rightarrow> s | None \<Rightarrow> fresh_SessionState)
               \<lparr>ss_peer_id := peer_id, ss_id := session_id, ss_send_seq := 0, ss_recv_last := 0,
                ss_recv_window := 0, ss_established := False\<rparr>
     in (n, sm\<lparr>sm_sessions := map_put peer_id n (sm_sessions sm),
               sm_session_to_peer := map_put session_id peer_id (sm_session_to_peer sm)\<rparr>))"

definition install_noise_keys ::
    "time \<Rightarrow> SessionState \<Rightarrow> bytes \<times> bytes \<Rightarrow> bool \<Rightarrow> SessionState" where
  "install_noise_keys now session split initiated_locally =
    session\<lparr>ss_send_key := fst split, ss_recv_key := snd split, ss_established_at := now,
            ss_established := True, ss_initiated_locally := initiated_locally\<rparr>"

text \<open>Both handshake handlers end with \<open>create_session\<close> and \<open>install_noise_keys\<close>
  on the returned reference; the result is written back into the table.\<close>

definition establish_session ::
    "time \<Rightarrow> node_id \<Rightarrow> u32 \<Rightarrow> bytes \<times> bytes \<Rightarrow> bool \<Rightarrow> 'hs SessionManager \<Rightarrow> 'hs SessionManager" where
  "establish_session now peer_id session_id split initiated_locally sm =
    (let (s, sm) = create_session now peer_id session_id sm
     in sm\<lparr>sm_sessions :=
          map_put peer_id (install_noise_keys now s split initiated_locally) (sm_sessions sm)\<rparr>)"

definition find_session_locked :: "node_id \<Rightarrow> 'hs SessionManager \<Rightarrow> SessionState option" where
  "find_session_locked peer_id sm =
    (case map_of (sm_sessions sm) peer_id of
       Some s \<Rightarrow> if ss_established s then Some s else None
     | None \<Rightarrow> None)"

text \<open>The pointer \<open>find_session_by_id_locked\<close> returns refers to an active or to a retired entry.\<close>

datatype session_ref = Active node_id | Retired u32

definition find_session_by_id_locked ::
    "u32 \<Rightarrow> 'hs SessionManager \<Rightarrow> (session_ref \<times> SessionState) option" where
  "find_session_by_id_locked session_id sm =
    (case map_of (sm_session_to_peer sm) session_id of
       Some peer \<Rightarrow> map_option (\<lambda>s. (Active peer, s)) (find_session_locked peer sm)
     | None \<Rightarrow>
        (case map_of (sm_retired sm) session_id of
           Some r \<Rightarrow> if ss_established (rs_session r) then Some (Retired session_id, rs_session r)
                     else None
         | None \<Rightarrow> None))"

fun store_session :: "session_ref \<Rightarrow> SessionState \<Rightarrow> 'hs SessionManager \<Rightarrow> 'hs SessionManager" where
  "store_session (Active peer) s sm = sm\<lparr>sm_sessions := map_put peer s (sm_sessions sm)\<rparr>"
| "store_session (Retired sid) s sm =
    (case map_of (sm_retired sm) sid of
       Some r \<Rightarrow> sm\<lparr>sm_retired := map_put sid (r\<lparr>rs_session := s\<rparr>) (sm_retired sm)\<rparr>
     | None \<Rightarrow> sm)"

definition snapshot :: "SessionState \<Rightarrow> SessionSnapshot" where
  "snapshot s = \<lparr>sn_id = ss_id s, sn_peer_id = ss_peer_id s, sn_established = ss_established s,
     sn_initiated_locally = ss_initiated_locally s, sn_established_at = ss_established_at s\<rparr>"

definition get_session :: "node_id \<Rightarrow> 'hs SessionManager \<Rightarrow> SessionSnapshot option" where
  "get_session peer_id sm =
    (case map_of (sm_sessions sm) peer_id of
       Some s \<Rightarrow> if ss_established s then Some (snapshot s) else None
     | None \<Rightarrow> None)"

definition get_session_by_id :: "u32 \<Rightarrow> 'hs SessionManager \<Rightarrow> SessionSnapshot option" where
  "get_session_by_id session_id sm =
    (let retired =
       (case map_of (sm_retired sm) session_id of
          Some r \<Rightarrow> if ss_established (rs_session r) then Some (snapshot (rs_session r)) else None
        | None \<Rightarrow> None)
     in case map_of (sm_session_to_peer sm) session_id of
          Some peer \<Rightarrow>
            (case map_of (sm_sessions sm) peer of
               Some s \<Rightarrow> if ss_established s then Some (snapshot s) else retired
             | None \<Rightarrow> retired)
        | None \<Rightarrow> retired)"

definition remove_session :: "node_id \<Rightarrow> 'hs SessionManager \<Rightarrow> 'hs SessionManager" where
  "remove_session peer_id sm =
    (let sm = (case map_of (sm_sessions sm) peer_id of
                 Some s \<Rightarrow> sm\<lparr>sm_session_to_peer := map_erase (ss_id s) (sm_session_to_peer sm),
                               sm_retired := map_erase (ss_id s) (sm_retired sm),
                               sm_sessions := map_erase peer_id (sm_sessions sm)\<rparr>
               | None \<Rightarrow> sm)
     in sm\<lparr>sm_retired :=
             map_erase_if (\<lambda>(_, r). ss_peer_id (rs_session r) = peer_id) (sm_retired sm),
           sm_pending_initiators :=
             map_erase_if (\<lambda>(_, p). pi_expected_peer_id p = peer_id) (sm_pending_initiators sm)\<rparr>)"

definition active_session_count :: "'hs SessionManager \<Rightarrow> nat" where
  "active_session_count sm = length (sm_sessions sm)"

definition retired_session_count :: "'hs SessionManager \<Rightarrow> nat" where
  "retired_session_count sm = length (sm_retired sm)"

definition pending_handshake_count :: "'hs SessionManager \<Rightarrow> nat" where
  "pending_handshake_count sm = length (sm_pending_initiators sm)"

section \<open>Handshake, initiator side\<close>

definition all_zero :: "bytes \<Rightarrow> bool" where
  "all_zero bs \<longleftrightarrow> list_all (\<lambda>b. b = 0) bs"

text \<open>The unlocked first part of \<open>create_handshake_init\<close>: checks, Noise message 1, framing.\<close>

definition prepare_handshake_init ::
    "'hs noise_api \<Rightarrow> crypto_api \<Rightarrow> bytes \<Rightarrow> u32 \<Rightarrow> node_id \<Rightarrow> public_key \<Rightarrow> 'hs SessionManager
     \<Rightarrow> (bytes \<times> 'hs) option" where
  "prepare_handshake_init noise crypto rnd session_id expected_peer_id expected_peer_static sm =
    (if session_id = 0 \<or> all_zero expected_peer_static \<or>
        expected_peer_id \<noteq> hash_public_key crypto expected_peer_static
     then None
     else do {
       prologue \<leftarrow> make_handshake_v2_prologue (sm_network_id sm) session_id;
       handshake \<leftarrow> create_initiator noise (sm_private_key sm) expected_peer_static prologue rnd;
       (msg, handshake) \<leftarrow> write_message noise handshake;
       if length msg \<noteq> HANDSHAKE_V2_INIT_NOISE_SIZE then None
       else do {
         encoded \<leftarrow> serialize_handshake_v2_init
           \<lparr>hi_session_id = session_id, hi_network_id = sm_network_id sm, hi_noise_message = msg\<rparr>;
         Some (encoded, handshake) } })"

definition create_handshake_init ::
    "'hs noise_api \<Rightarrow> crypto_api \<Rightarrow> bytes \<Rightarrow> time \<Rightarrow> u32 \<Rightarrow> node_id \<Rightarrow> public_key
     \<Rightarrow> 'hs SessionManager \<Rightarrow> bytes option \<times> 'hs SessionManager" where
  "create_handshake_init noise crypto rnd now session_id expected_peer_id expected_peer_static sm =
    (case prepare_handshake_init noise crypto rnd session_id expected_peer_id
            expected_peer_static sm of
       None \<Rightarrow> (None, sm)
     | Some (encoded, handshake) \<Rightarrow>
         let sm = purge_incomplete_handshakes_locked now sm in
         if map_contains session_id (sm_pending_initiators sm) \<or>
            map_contains session_id (sm_session_to_peer sm) \<or>
            map_contains session_id (sm_retired sm)
         then (None, sm)
         else if length (sm_pending_initiators sm) \<ge> cap_pending (sm_capacity sm)
         then (None, sm)
         else (Some encoded,
               sm\<lparr>sm_pending_initiators := map_put session_id
                    \<lparr>pi_expected_peer_id = expected_peer_id,
                     pi_expected_peer_static = expected_peer_static,
                     pi_handshake = handshake,
                     pi_expires = now + sm_handshake_timeout sm\<rparr>
                    (sm_pending_initiators sm)\<rparr>))"

definition handle_handshake_resp ::
    "'hs noise_api \<Rightarrow> crypto_api \<Rightarrow> time \<Rightarrow> bytes \<Rightarrow> u32 \<Rightarrow> 'hs SessionManager
     \<Rightarrow> bool \<times> 'hs SessionManager" where
  "handle_handshake_resp noise crypto now message session_id sm =
    (let frame = parse_handshake_v2_response message;
         sm = purge_incomplete_handshakes_locked now sm
     in case map_of (sm_pending_initiators sm) session_id of
          None \<Rightarrow> (False, sm)
        | Some state \<Rightarrow>
            let sm = sm\<lparr>sm_pending_initiators := map_erase session_id (sm_pending_initiators sm)\<rparr>
            in (case frame of
                  None \<Rightarrow> (False, sm)
                | Some f \<Rightarrow>
                    if hr_session_id f \<noteq> session_id then (False, sm)
                    else (case do {
                            handshake \<leftarrow> read_message noise (hr_noise_message f) (pi_handshake state);
                            remote \<leftarrow> remote_static_public_key noise handshake;
                            if remote \<noteq> pi_expected_peer_static state \<or>
                               hash_public_key crypto remote \<noteq> pi_expected_peer_id state
                            then None else split_keys noise handshake } of
                        None \<Rightarrow> (False, sm)
                      | Some split \<Rightarrow>
                          let peer = pi_expected_peer_id state;
                              active = map_of (sm_sessions sm) peer
                          in if (case active of
                                   Some s \<Rightarrow> ss_established s \<and> \<not> ss_initiated_locally s \<and>
                                             peer < sm_node_id sm
                                 | None \<Rightarrow> False)
                             then (False, sm)
                             else if active = None \<and>
                                     length (sm_sessions sm) \<ge> cap_active (sm_capacity sm)
                             then (False, sm)
                             else (True, establish_session now peer session_id split True sm))))"

section \<open>Handshake, responder side\<close>

record HandshakeResponse =
  resp_message :: bytes
  resp_peer_id :: node_id
  resp_peer_static_public_key :: public_key

text \<open>First locked phase: admission of a parsed INIT.\<close>

definition handshake_init_admit ::
    "crypto_api \<Rightarrow> time \<Rightarrow> bytes \<Rightarrow> u32 \<Rightarrow> 'hs SessionManager
     \<Rightarrow> (HandshakeV2InitFrame \<times> bytes) option \<times> 'hs SessionManager" where
  "handshake_init_admit crypto now message outer_session_id sm =
    (case parse_handshake_v2_init message of
       None \<Rightarrow> (None, sm)
     | Some frame \<Rightarrow>
         if hi_session_id frame \<noteq> outer_session_id \<or> hi_network_id frame \<noteq> sm_network_id sm
         then (None, sm)
         else (case transcript_hash crypto message of
                 None \<Rightarrow> (None, sm)
               | Some replay_key \<Rightarrow>
                   let sm = purge_handshake_replays_locked now
                              (purge_incomplete_handshakes_locked now sm)
                   in if map_contains replay_key (sm_handshake_replays sm) \<or>
                         map_contains (hi_session_id frame) (sm_session_to_peer sm) \<or>
                         map_contains (hi_session_id frame) (sm_retired sm) \<or>
                         map_contains (hi_session_id frame) (sm_pending_initiators sm)
                      then (None, sm)
                      else (Some (frame, replay_key), sm)))"

text \<open>Unlocked: Noise message 1 is read and the initiator's static key extracted.\<close>

definition handshake_init_read ::
    "'hs noise_api \<Rightarrow> crypto_api \<Rightarrow> bytes \<Rightarrow> HandshakeV2InitFrame \<Rightarrow> 'hs SessionManager
     \<Rightarrow> ('hs \<times> public_key \<times> node_id) option" where
  "handshake_init_read noise crypto rnd frame sm = do {
     prologue \<leftarrow> make_handshake_v2_prologue (sm_network_id sm) (hi_session_id frame);
     handshake \<leftarrow> create_responder noise (sm_private_key sm) prologue rnd;
     handshake \<leftarrow> read_message noise (hi_noise_message frame) handshake;
     peer_static \<leftarrow> remote_static_public_key noise handshake;
     if all_zero peer_static then None
     else Some (handshake, peer_static, hash_public_key crypto peer_static) }"

text \<open>Second locked phase: the replay entry is claimed and a collision of two
  simultaneous handshakes is resolved by the order of the node ids.\<close>

definition handshake_init_claim ::
    "time \<Rightarrow> bytes \<Rightarrow> node_id \<Rightarrow> 'hs SessionManager \<Rightarrow> bool \<times> 'hs SessionManager" where
  "handshake_init_claim now replay_key peer_id sm =
    (let sm = purge_handshake_replays_locked now (purge_incomplete_handshakes_locked now sm)
     in if map_contains replay_key (sm_handshake_replays sm) then (False, sm)
        else
          let sm = sm\<lparr>sm_handshake_replays := map_put replay_key
                       (now + sm_handshake_replay_ttl sm) (sm_handshake_replays sm)\<rparr>;
              local_has_priority = sm_node_id sm < peer_id;
              active = map_of (sm_sessions sm) peer_id;
              active_local_initiation =
                (case active of Some s \<Rightarrow> ss_established s \<and> ss_initiated_locally s | None \<Rightarrow> False);
              pending = find (\<lambda>(_, p). pi_expected_peer_id p = peer_id) (sm_pending_initiators sm)
          in if local_has_priority \<and> (pending \<noteq> None \<or> active_local_initiation) then (False, sm)
             else
               let sm = (case pending of
                           Some (sid, _) \<Rightarrow>
                             if \<not> local_has_priority
                             then sm\<lparr>sm_pending_initiators :=
                                      map_erase sid (sm_pending_initiators sm)\<rparr>
                             else sm
                         | None \<Rightarrow> sm)
               in if active = None \<and> length (sm_sessions sm) \<ge> cap_active (sm_capacity sm)
                  then (False, sm)
                  else (True, sm))"

text \<open>Unlocked: Noise message 2 is written, framed, and the transport keys split.\<close>

definition handshake_init_write ::
    "'hs noise_api \<Rightarrow> 'hs \<Rightarrow> HandshakeV2InitFrame \<Rightarrow> (bytes \<times> (bytes \<times> bytes)) option" where
  "handshake_init_write noise handshake frame = do {
     (msg, handshake) \<leftarrow> write_message noise handshake;
     if length msg \<noteq> HANDSHAKE_V2_RESPONSE_NOISE_SIZE then None
     else do {
       split \<leftarrow> split_keys noise handshake;
       encoded \<leftarrow> serialize_handshake_v2_response
         \<lparr>hr_session_id = hi_session_id frame, hr_noise_message = msg\<rparr>;
       Some (encoded, split) } }"

text \<open>Third locked phase: the session is created unless its id or the capacity
  was taken in the meantime.\<close>

definition handshake_init_commit ::
    "time \<Rightarrow> u32 \<Rightarrow> node_id \<Rightarrow> bytes \<times> bytes \<Rightarrow> 'hs SessionManager \<Rightarrow> bool \<times> 'hs SessionManager" where
  "handshake_init_commit now session_id peer_id split sm =
    (let sm = purge_incomplete_handshakes_locked now sm
     in if map_contains session_id (sm_session_to_peer sm) \<or>
           map_contains session_id (sm_retired sm) \<or>
           map_contains session_id (sm_pending_initiators sm)
        then (False, sm)
        else if \<not> map_contains peer_id (sm_sessions sm) \<and>
                length (sm_sessions sm) \<ge> cap_active (sm_capacity sm)
        then (False, sm)
        else (True, establish_session now peer_id session_id split False sm))"

definition handle_handshake_init ::
    "'hs noise_api \<Rightarrow> crypto_api \<Rightarrow> bytes \<Rightarrow> time \<Rightarrow> time \<Rightarrow> time \<Rightarrow> bytes \<Rightarrow> u32
     \<Rightarrow> 'hs SessionManager \<Rightarrow> HandshakeResponse option \<times> 'hs SessionManager" where
  "handle_handshake_init noise crypto rnd now1 now2 now3 message outer_session_id sm =
    (case handshake_init_admit crypto now1 message outer_session_id sm of
       (None, sm) \<Rightarrow> (None, sm)
     | (Some (frame, replay_key), sm) \<Rightarrow>
         (case handshake_init_read noise crypto rnd frame sm of
            None \<Rightarrow> (None, sm)
          | Some (handshake, peer_static, peer_id) \<Rightarrow>
              (case handshake_init_claim now2 replay_key peer_id sm of
                 (False, sm) \<Rightarrow> (None, sm)
               | (True, sm) \<Rightarrow>
                   (case handshake_init_write noise handshake frame of
                      None \<Rightarrow> (None, sm)
                    | Some (encoded, split) \<Rightarrow>
                        (case handshake_init_commit now3 (hi_session_id frame) peer_id split sm of
                           (False, sm) \<Rightarrow> (None, sm)
                         | (True, sm) \<Rightarrow>
                             (Some \<lparr>resp_message = encoded, resp_peer_id = peer_id,
                                    resp_peer_static_public_key = peer_static\<rparr>, sm))))))"

end
