(* ===== verification/Session_Frames.thy ===== *)
theory Session_Frames
  imports Session
begin

text \<open>
  \<open>SessionManager::encrypt_message\<close>, \<open>decrypt_message\<close> and \<open>decrypt_data\<close>
  (\<open>src/session/session.cpp\<close>): padding, nonce construction, authenticated
  encryption and the replay check of the data path.  The machine is
  little-endian (Windows on x86-64 and ARM64), which fixes the byte order of
  the counter halves that the source copies with \<open>memcpy\<close>.
\<close>

section \<open>Definitions\<close>

definition le32 :: "u32 \<Rightarrow> bytes" where
  "le32 x = rev (be32 x)"

definition session_nonce :: "u32 \<Rightarrow> u64 \<Rightarrow> bytes" where
  "session_nonce sid send_seq =
    (let seq_hi = ucast (drop_bit 32 send_seq) :: u32;
         seq_lo = ucast send_seq :: u32
     in be32 sid @ le32 seq_hi @ le32 seq_lo)"

text \<open>The length-prefixed payload before its padding is filled; \<open>None\<close> on the early returns.\<close>

definition protect_payload :: "nat \<Rightarrow> bytes \<Rightarrow> wire_writer option" where
  "protect_payload bucket plaintext =
    (if \<not> is_supported_session_padding_bucket bucket \<or>
        length plaintext > SESSION_MAX_LOGICAL_PAYLOAD_SIZE
     then None
     else
       let padded_size = session_padded_plaintext_size (length plaintext) bucket
       in if padded_size > SESSION_MAX_PAYLOAD_SIZE then None
          else do {
            w \<leftarrow> write_u16 (of_nat (length plaintext)) (WireWriter (replicate padded_size 0));
            w \<leftarrow> write_u16 (of_nat bucket) w;
            if 0 < length plaintext then write_bytes plaintext w else Some w })"

text \<open>The random padding: \<open>random_.fill\<close> on the free tail of the buffer, when there is one.\<close>

definition draw_padding :: "(nat \<Rightarrow> bytes option) \<Rightarrow> nat \<Rightarrow> bytes option" where
  "draw_padding random padding_size = (if padding_size > 0 then random padding_size else Some [])"

definition message_header :: "SessionState \<Rightarrow> byte \<Rightarrow> byte \<Rightarrow> u64 \<Rightarrow> nat \<Rightarrow> PacketHeader" where
  "message_header sess ptype flgs send_seq plen =
    \<lparr>ph_version = PACKET_VERSION, ph_packet_type = ptype, ph_flags = flgs, ph_reserved = 0,
     ph_session_id = ss_id sess, ph_sequence_number = ucast (send_seq AND 0xFFFFFFFF),
     ph_payload_length = of_nat plen\<rparr>"

definition encrypt_message ::
    "crypto_api \<Rightarrow> (nat \<Rightarrow> bytes option) \<Rightarrow> node_id \<Rightarrow> byte \<Rightarrow> bytes \<Rightarrow> byte
     \<Rightarrow> 'hs SessionManager \<Rightarrow> bytes option \<times> 'hs SessionManager" where
  "encrypt_message crypto random peer_id ptype plaintext flgs sm =
    (case protect_payload (sm_padding_bucket_size sm) plaintext of
       None \<Rightarrow> (None, sm)
     | Some payload_writer \<Rightarrow>
         (case find_session_locked peer_id sm of
            None \<Rightarrow> (None, sm)
          | Some sess \<Rightarrow>
              (case draw_padding random (wr_remaining payload_writer) of
                 None \<Rightarrow> (None, sm)
               | Some padding \<Rightarrow>
                   let protected_payload = wr_written payload_writer @ padding;
                       send_seq = ss_send_seq sess;
                       sm = sm\<lparr>sm_sessions := map_put peer_id
                                 (sess\<lparr>ss_send_seq := send_seq + 1\<rparr>) (sm_sessions sm)\<rparr>;
                       nonce = session_nonce (ss_id sess) send_seq;
                       hdr_bytes = serialize_packet_header
                         (message_header sess ptype flgs send_seq (length protected_payload))
                   in (case aead_encrypt crypto (ss_send_key sess) nonce hdr_bytes
                              protected_payload of
                         None \<Rightarrow> (None, sm)
                       | Some (ct, tag) \<Rightarrow> (Some (hdr_bytes @ nonce @ ct @ tag), sm)))))"

definition encrypt_data ::
    "crypto_api \<Rightarrow> (nat \<Rightarrow> bytes option) \<Rightarrow> node_id \<Rightarrow> bytes \<Rightarrow> 'hs SessionManager
     \<Rightarrow> bytes option \<times> 'hs SessionManager" where
  "encrypt_data crypto random peer_id plaintext sm =
     encrypt_message crypto random peer_id TYPE_DATA plaintext 0 sm"

record DecryptedMessage =
  dm_packet_type :: byte
  dm_payload :: bytes

text \<open>The header checks before any session state is consulted.\<close>

definition check_frame :: "bytes \<Rightarrow> PacketHeader option" where
  "check_frame data =
    (if length data < 16 + 12 + SESSION_PADDING_BUCKET_MIN + 16 then None
     else do {
       hdr \<leftarrow> parse_packet_header (take PACKET_HEADER_SIZE data);
       if ph_version hdr \<noteq> PACKET_VERSION \<or> ph_reserved hdr \<noteq> 0 \<or>
          ph_flags hdr AND NOT PACKET_KNOWN_FLAGS \<noteq> 0
       then None
       else
         let ct_len = unat (ph_payload_length hdr)
         in if ct_len < SESSION_PADDING_BUCKET_MIN \<or> ct_len > SESSION_MAX_PAYLOAD_SIZE then None
            else if 16 + 12 + ct_len + 16 \<noteq> length data then None
            else Some hdr })"

text \<open>The authenticated plaintext: length, bucket, payload, padding.\<close>

definition unprotect_payload :: "bytes \<Rightarrow> bytes option" where
  "unprotect_payload pt = do {
     (logical_length, r) \<leftarrow> read_u16 (WireReader pt);
     (bucket_size, r) \<leftarrow> read_u16 r;
     if \<not> is_supported_session_padding_bucket (unat bucket_size) \<or>
        unat logical_length > SESSION_MAX_LOGICAL_PAYLOAD_SIZE \<or>
        session_padded_plaintext_size (unat logical_length) (unat bucket_size) \<noteq> length pt
     then None
     else do {
       (logical_payload, r) \<leftarrow> read_bytes (unat logical_length) r;
       (padding, r) \<leftarrow> read_bytes (rd_remaining r) r;
       if rd_finished r then Some logical_payload else None } }"

definition decrypt_message ::
    "crypto_api \<Rightarrow> bytes \<Rightarrow> 'hs SessionManager \<Rightarrow> DecryptedMessage option \<times> 'hs SessionManager" where
  "decrypt_message crypto data sm =
    (case check_frame data of
       None \<Rightarrow> (None, sm)
     | Some hdr \<Rightarrow>
         let ct_len = unat (ph_payload_length hdr) in
         (case find_session_by_id_locked (ph_session_id hdr) sm of
            None \<Rightarrow> (None, sm)
          | Some (ref, sess) \<Rightarrow>
              let wire_seq = ucast (ph_sequence_number hdr) :: u64 in
              if \<not> check_replay sess wire_seq then (None, sm)
              else
                let nonce = take 12 (drop 16 data);
                    ct = take ct_len (drop (16 + 12) data);
                    tag = take 16 (drop (16 + 12 + ct_len) data);
                    hdr_bytes = take 16 data
                in (case aead_decrypt crypto (ss_recv_key sess) nonce hdr_bytes ct tag of
                      None \<Rightarrow> (None, sm)
                    | Some pt \<Rightarrow>
                        let sm = store_session ref (update_replay sess wire_seq) sm
                        in (map_option (\<lambda>payload. \<lparr>dm_packet_type = ph_packet_type hdr,
                                                   dm_payload = payload\<rparr>)
                              (unprotect_payload pt), sm))))"

definition decrypt_data ::
    "crypto_api \<Rightarrow> bytes \<Rightarrow> 'hs SessionManager \<Rightarrow> bytes option \<times> 'hs SessionManager" where
  "decrypt_data crypto data sm =
    (case decrypt_message crypto data sm of
       (None, sm) \<Rightarrow> (None, sm)
     | (Some msg, sm) \<Rightarrow>
         if dm_packet_type msg \<noteq> TYPE_DATA then (None, sm) else (Some (dm_payload msg), sm))"

text \<open>Documented behaviour of the AEAD and of the random source: decryption
  inverts encryption, the ciphertext has the length of the plaintext, the tag
  has 16 bytes; a successful fill returns the requested number of bytes.\<close>

definition aead_correct :: "crypto_api \<Rightarrow> bool" where
  "aead_correct crypto \<longleftrightarrow>
    (\<forall>key nonce aad pt ct tag. aead_encrypt crypto key nonce aad pt = Some (ct, tag) \<longrightarrow>
       length ct = length pt \<and> length tag = 16 \<and>
       aead_decrypt crypto key nonce aad ct tag = Some pt)"

definition random_fills :: "(nat \<Rightarrow> bytes option) \<Rightarrow> bool" where
  "random_fills random \<longleftrightarrow> (\<forall>n bs. random n = Some bs \<longrightarrow> length bs = n)"

section \<open>Padding\<close>

lemma padded_size_max:
  assumes "is_supported_session_padding_bucket b" and "n \<le> SESSION_MAX_LOGICAL_PAYLOAD_SIZE"
  shows "session_padded_plaintext_size n b \<le> SESSION_MAX_PAYLOAD_SIZE"
  using assms
  by (elim supported_bucket_cases)
    (auto simp: session_padded_plaintext_size_def is_supported_session_padding_bucket_def Let_def)

lemma padded_size_min:
  assumes "is_supported_session_padding_bucket b"
  shows "SESSION_PADDING_BUCKET_MIN \<le> session_padded_plaintext_size n b"
  using assms session_padded_plaintext_size_bounds(1,3) [OF assms, of n]
  by (elim supported_bucket_cases) (auto dest!: dvd_imp_le)

lemma protect_payload_eq:
  "protect_payload b pt =
    (if is_supported_session_padding_bucket b \<and> length pt \<le> SESSION_MAX_LOGICAL_PAYLOAD_SIZE
     then Some (writer_at (be16 (of_nat (length pt)) @ be16 (of_nat b) @ pt)
                (replicate (session_padded_plaintext_size (length pt) b - (length pt + 4)) 0))
     else None)"
proof (cases "is_supported_session_padding_bucket b \<and> length pt \<le> SESSION_MAX_LOGICAL_PAYLOAD_SIZE")
  case True
  then show ?thesis
    using session_padded_plaintext_size_bounds(1) [of b "length pt"] padded_size_max [of b "length pt"]
    by (auto simp: protect_payload_def Let_def wire_simps add.commute)
qed (auto simp: protect_payload_def)

definition protected_bytes :: "nat \<Rightarrow> bytes \<Rightarrow> bytes \<Rightarrow> bytes" where
  "protected_bytes b pt padding = be16 (of_nat (length pt)) @ be16 (of_nat b) @ pt @ padding"

lemma length_protected_bytes: "length (protected_bytes b pt padding) = 4 + length pt + length padding"
  by (simp add: protected_bytes_def)

lemma draw_padding_length:
  "random_fills random \<Longrightarrow> draw_padding random n = Some padding \<Longrightarrow> length padding = n"
  by (auto simp: random_fills_def draw_padding_def split: if_splits)

lemma unprotect_protected:
  assumes "is_supported_session_padding_bucket b" and "length pt \<le> SESSION_MAX_LOGICAL_PAYLOAD_SIZE"
    and "length pt + 4 + length padding = session_padded_plaintext_size (length pt) b"
  shows "unprotect_payload (protected_bytes b pt padding) = Some pt"
proof -
  have u: "unat (of_nat (length pt) :: u16) = length pt" "unat (of_nat b :: u16) = b"
    using assms(1,2) by (auto simp: unat_of_nat is_supported_session_padding_bucket_def)
  show ?thesis
    using assms by (simp add: unprotect_payload_def protected_bytes_def wire_simps u)
qed

section \<open>Frame layout\<close>

lemma length_le32 [simp]: "length (le32 x) = 4"
  by (simp add: le32_def)

lemma le32_inject [simp]: "le32 x = le32 y \<longleftrightarrow> x = y"
  by (simp add: le32_def)

lemma length_session_nonce [simp]: "length (session_nonce sid q) = 12"
  by (simp add: session_nonce_def Let_def)

lemma halves_inject:
  fixes x y :: u64
  assumes "(ucast (drop_bit 32 x) :: u32) = ucast (drop_bit 32 y)" "(ucast x :: u32) = ucast y"
  shows "x = y"
proof (rule bit_word_eqI)
  fix n assume n: "n < LENGTH(64)"
  have "bit (ucast (drop_bit 32 x) :: u32) (n - 32) = bit (ucast (drop_bit 32 y) :: u32) (n - 32)"
    and "bit (ucast x :: u32) n = bit (ucast y :: u32) n"
    using assms by simp_all
  then show "bit x n = bit y n"
    using n by (cases "n < 32") (auto simp: bit_simps)
qed

lemma session_nonce_inject [simp]:
  "session_nonce sid q = session_nonce sid' q' \<longleftrightarrow> sid = sid' \<and> q = q'"
  by (auto simp: session_nonce_def Let_def dest: halves_inject)

lemma wire_sequence: "(ucast (q AND 0xFFFFFFFF) :: u32) = ucast (q :: u64)"
proof -
  have m: "(0xFFFFFFFF :: u64) = mask 32" by (simp add: mask_eq_exp_minus_1)
  show ?thesis unfolding m by (intro bit_word_eqI) (auto simp: bit_simps)
qed

lemma message_header_simps [simp]:
  "ph_version (message_header s t f q n) = PACKET_VERSION"
  "ph_packet_type (message_header s t f q n) = t"
  "ph_flags (message_header s t f q n) = f"
  "ph_reserved (message_header s t f q n) = 0"
  "ph_session_id (message_header s t f q n) = ss_id s"
  "ph_sequence_number (message_header s t f q n) = ucast q"
  "ph_payload_length (message_header s t f q n) = of_nat n"
  by (simp_all add: message_header_def wire_sequence)

lemma check_frame_layout:
  assumes "length nonce = 12" "length ct = unat (ph_payload_length h)" "length tag = 16"
    and "ph_version h = PACKET_VERSION" "ph_reserved h = 0" "ph_flags h AND NOT PACKET_KNOWN_FLAGS = 0"
    and "SESSION_PADDING_BUCKET_MIN \<le> length ct" "length ct \<le> SESSION_MAX_PAYLOAD_SIZE"
  shows "check_frame (serialize_packet_header h @ nonce @ ct @ tag) = Some h"
  using assms by (simp add: check_frame_def Let_def parse_serialize_packet_header)

lemma check_frame_SomeD:
  assumes "check_frame data = Some h"
  shows "take 16 data = serialize_packet_header h" "length data = 44 + unat (ph_payload_length h)"
    and "ph_version h = PACKET_VERSION" "ph_reserved h = 0"
    and "ph_flags h AND NOT PACKET_KNOWN_FLAGS = 0"
  using assms
  by (auto simp: check_frame_def Let_def bind_eq_Some_conv split: if_splits
      dest: parse_packet_header_SomeD)

text \<open>What a frame consists of, and when encryption succeeds.\<close>

definition session_frame :: "SessionState \<Rightarrow> byte \<Rightarrow> byte \<Rightarrow> bytes \<Rightarrow> bytes \<Rightarrow> bytes \<Rightarrow> bytes" where
  "session_frame s t f protected ct tag =
     serialize_packet_header (message_header s t f (ss_send_seq s) (length protected)) @
     session_nonce (ss_id s) (ss_send_seq s) @ ct @ tag"

lemma encrypt_message_Some_iff:
  "encrypt_message crypto random peer t pt f sm = (Some frame, sm') \<longleftrightarrow>
    (let b = sm_padding_bucket_size sm; n = session_padded_plaintext_size (length pt) b in
     is_supported_session_padding_bucket b \<and> length pt \<le> SESSION_MAX_LOGICAL_PAYLOAD_SIZE \<and>
     (\<exists>s padding ct tag.
        find_session_locked peer sm = Some s \<and>
        draw_padding random (n - (length pt + 4)) = Some padding \<and>
        aead_encrypt crypto (ss_send_key s) (session_nonce (ss_id s) (ss_send_seq s))
          (serialize_packet_header
             (message_header s t f (ss_send_seq s) (length (protected_bytes b pt padding))))
          (protected_bytes b pt padding) = Some (ct, tag) \<and>
        frame = session_frame s t f (protected_bytes b pt padding) ct tag \<and>
        sm' = sm\<lparr>sm_sessions :=
               map_put peer (s\<lparr>ss_send_seq := ss_send_seq s + 1\<rparr>) (sm_sessions sm)\<rparr>))"
  unfolding encrypt_message_def protect_payload_eq Let_def
  by (auto simp: wr_at session_frame_def protected_bytes_def split: option.splits if_splits)

lemma encrypt_message_frame:
  assumes "random_fills random" and "aead_correct crypto"
    and "encrypt_message crypto random peer t pt f sm = (Some frame, sm')"
  obtains s padding ct tag where
    "find_session_locked peer sm = Some s"
    "aead_decrypt crypto (ss_send_key s) (session_nonce (ss_id s) (ss_send_seq s))
       (serialize_packet_header (message_header s t f (ss_send_seq s) (length ct))) ct tag =
       Some (protected_bytes (sm_padding_bucket_size sm) pt padding)"
    "is_supported_session_padding_bucket (sm_padding_bucket_size sm)"
    "length pt \<le> SESSION_MAX_LOGICAL_PAYLOAD_SIZE"
    "length pt + 4 + length padding =
       session_padded_plaintext_size (length pt) (sm_padding_bucket_size sm)"
    "length ct = session_padded_plaintext_size (length pt) (sm_padding_bucket_size sm)"
    "length tag = 16"
    "frame = serialize_packet_header (message_header s t f (ss_send_seq s) (length ct)) @
       session_nonce (ss_id s) (ss_send_seq s) @ ct @ tag"
    "sm' = sm\<lparr>sm_sessions :=
       map_put peer (s\<lparr>ss_send_seq := ss_send_seq s + 1\<rparr>) (sm_sessions sm)\<rparr>"
proof -
  let ?b = "sm_padding_bucket_size sm"
  from assms(3) obtain s padding ct tag where
    e: "find_session_locked peer sm = Some s" "is_supported_session_padding_bucket ?b"
       "length pt \<le> SESSION_MAX_LOGICAL_PAYLOAD_SIZE"
       "draw_padding random (session_padded_plaintext_size (length pt) ?b - (length pt + 4)) = Some padding"
       "aead_encrypt crypto (ss_send_key s) (session_nonce (ss_id s) (ss_send_seq s))
          (serialize_packet_header
             (message_header s t f (ss_send_seq s) (length (protected_bytes ?b pt padding))))
          (protected_bytes ?b pt padding) = Some (ct, tag)"
       "frame = session_frame s t f (protected_bytes ?b pt padding) ct tag"
       "sm' = sm\<lparr>sm_sessions :=
         map_put peer (s\<lparr>ss_send_seq := ss_send_seq s + 1\<rparr>) (sm_sessions sm)\<rparr>"
    by (auto simp: encrypt_message_Some_iff Let_def)
  have pad: "length pt + 4 + length padding = session_padded_plaintext_size (length pt) ?b"
    using draw_padding_length [OF assms(1) e(4)]
      session_padded_plaintext_size_bounds(1) [OF e(2), of "length pt"] by simp
  have ct: "length ct = length (protected_bytes ?b pt padding)" "length tag = 16"
    using assms(2) e(5) unfolding aead_correct_def by blast+
  have dec: "aead_decrypt crypto (ss_send_key s) (session_nonce (ss_id s) (ss_send_seq s))
       (serialize_packet_header (message_header s t f (ss_send_seq s) (length ct))) ct tag =
       Some (protected_bytes ?b pt padding)"
    using assms(2) e(5) ct unfolding aead_correct_def by metis
  show thesis
    using that [OF e(1) dec e(2,3) pad _ ct(2) _ e(7)] e(6) ct pad
    by (simp add: session_frame_def length_protected_bytes)
qed

lemma unat_of_nat_small: "n \<le> SESSION_MAX_PAYLOAD_SIZE \<Longrightarrow> unat (of_nat n :: u32) = n"
  by (simp add: unat_of_nat)

lemma decrypt_encrypted:
  assumes crypto: "random_fills random" "aead_correct crypto"
    and enc: "encrypt_message crypto random peer t pt f smA = (Some frame, smA')"
    and sender: "find_session_locked peer smA = Some a"
    and receiver: "find_session_by_id_locked (ss_id a) smB = Some (ref, b)"
    and keys: "ss_recv_key b = ss_send_key a"
    and fresh: "check_replay b (ucast (ucast (ss_send_seq a) :: u32))"
    and flags: "f AND NOT PACKET_KNOWN_FLAGS = 0"
  shows "decrypt_message crypto frame smB =
    (Some \<lparr>dm_packet_type = t, dm_payload = pt\<rparr>,
     store_session ref (update_replay b (ucast (ucast (ss_send_seq a) :: u32))) smB)"
proof -
  from encrypt_message_frame [OF crypto enc] sender obtain padding ct tag where
    e: "aead_decrypt crypto (ss_send_key a) (session_nonce (ss_id a) (ss_send_seq a))
       (serialize_packet_header (message_header a t f (ss_send_seq a) (length ct))) ct tag =
       Some (protected_bytes (sm_padding_bucket_size smA) pt padding)"
    and b: "is_supported_session_padding_bucket (sm_padding_bucket_size smA)"
    and l: "length pt \<le> SESSION_MAX_LOGICAL_PAYLOAD_SIZE"
    and p: "length pt + 4 + length padding =
       session_padded_plaintext_size (length pt) (sm_padding_bucket_size smA)"
    and ct: "length ct = session_padded_plaintext_size (length pt) (sm_padding_bucket_size smA)"
    and tag: "length tag = 16"
    and fr: "frame = serialize_packet_header (message_header a t f (ss_send_seq a) (length ct)) @
       session_nonce (ss_id a) (ss_send_seq a) @ ct @ tag"
    by (metis option.inject)
  have max: "length ct \<le> SESSION_MAX_PAYLOAD_SIZE" and min: "32 \<le> length ct"
    using padded_size_max [OF b l] padded_size_min [OF b] ct by simp_all
  have chk: "check_frame frame = Some (message_header a t f (ss_send_seq a) (length ct))"
    unfolding fr using max min tag flags
    by (intro check_frame_layout) (simp_all add: unat_of_nat_small)
  show ?thesis
    using receiver fresh keys e unprotect_protected [OF b l p]
    unfolding decrypt_message_def chk
    by (simp add: Let_def unat_of_nat_small [OF max] fr tag)
qed

end
