(* ===== verification/Session_Invariant.thy ===== *)
theory Session_Invariant
  imports Session_Frames
begin

text \<open>
  The session manager as a state machine: every locked section of
  \<open>src/session/session.cpp\<close> is a step, in any order, so the phases of
  concurrent handshakes interleave freely.  The invariant ties the tables
  together and bounds them by the configured capacities; a log of the frames
  authenticated under each session id carries the at-most-once guarantee.
\<close>

section \<open>Invariant\<close>

definition tables_ok :: "'hs SessionManager \<Rightarrow> bool" where
  "tables_ok sm \<longleftrightarrow>
     map_ok (sm_sessions sm) \<and> map_ok (sm_session_to_peer sm) \<and> map_ok (sm_retired sm) \<and>
     map_ok (sm_pending_initiators sm) \<and> map_ok (sm_handshake_replays sm)"

definition index_ok :: "'hs SessionManager \<Rightarrow> bool" where
  "index_ok sm \<longleftrightarrow>
     (\<forall>p s. map_of (sm_sessions sm) p = Some s \<longrightarrow>
        ss_peer_id s = p \<and> ss_established s \<and> map_of (sm_session_to_peer sm) (ss_id s) = Some p) \<and>
     (\<forall>i p. map_of (sm_session_to_peer sm) i = Some p \<longrightarrow>
        (\<exists>s. map_of (sm_sessions sm) p = Some s \<and> ss_id s = i)) \<and>
     (\<forall>i r. map_of (sm_retired sm) i = Some r \<longrightarrow>
        ss_id (rs_session r) = i \<and> ss_established (rs_session r) \<and>
        map_of (sm_session_to_peer sm) i = None) \<and>
     (\<forall>i. map_of (sm_pending_initiators sm) i \<noteq> None \<longrightarrow>
        map_of (sm_session_to_peer sm) i = None \<and> map_of (sm_retired sm) i = None)"

definition capacity_ok :: "'hs SessionManager \<Rightarrow> bool" where
  "capacity_ok sm \<longleftrightarrow>
     active_session_count sm \<le> cap_active (sm_capacity sm) \<and>
     retired_session_count sm \<le> cap_retired (sm_capacity sm) \<and>
     pending_handshake_count sm \<le> cap_pending (sm_capacity sm)"

definition sm_ok :: "'hs SessionManager \<Rightarrow> bool" where
  "sm_ok sm \<longleftrightarrow> tables_ok sm \<and> index_ok sm \<and> capacity_ok sm"

lemmas count_defs = active_session_count_def retired_session_count_def pending_handshake_count_def

lemma sm_okI:
  assumes "map_ok (sm_sessions sm)" "map_ok (sm_session_to_peer sm)" "map_ok (sm_retired sm)"
    "map_ok (sm_pending_initiators sm)" "map_ok (sm_handshake_replays sm)"
    and "\<And>p s. map_of (sm_sessions sm) p = Some s \<Longrightarrow>
        ss_peer_id s = p \<and> ss_established s \<and> map_of (sm_session_to_peer sm) (ss_id s) = Some p"
    and "\<And>i p. map_of (sm_session_to_peer sm) i = Some p \<Longrightarrow>
        \<exists>s. map_of (sm_sessions sm) p = Some s \<and> ss_id s = i"
    and "\<And>i r. map_of (sm_retired sm) i = Some r \<Longrightarrow>
        ss_id (rs_session r) = i \<and> ss_established (rs_session r) \<and>
        map_of (sm_session_to_peer sm) i = None"
    and "\<And>i p. map_of (sm_pending_initiators sm) i = Some p \<Longrightarrow>
        map_of (sm_session_to_peer sm) i = None \<and> map_of (sm_retired sm) i = None"
    and "length (sm_sessions sm) \<le> cap_active (sm_capacity sm)"
    "length (sm_retired sm) \<le> cap_retired (sm_capacity sm)"
    "length (sm_pending_initiators sm) \<le> cap_pending (sm_capacity sm)"
  shows "sm_ok sm"
  using assms by (simp add: sm_ok_def tables_ok_def index_ok_def capacity_ok_def count_defs) blast

lemma sm_okD:
  assumes "sm_ok sm"
  shows "map_ok (sm_sessions sm)" "map_ok (sm_session_to_peer sm)" "map_ok (sm_retired sm)"
    "map_ok (sm_pending_initiators sm)" "map_ok (sm_handshake_replays sm)"
    and "map_of (sm_sessions sm) p = Some s \<Longrightarrow>
        ss_peer_id s = p \<and> ss_established s \<and> map_of (sm_session_to_peer sm) (ss_id s) = Some p"
    and "map_of (sm_session_to_peer sm) i = Some p \<Longrightarrow>
        \<exists>s. map_of (sm_sessions sm) p = Some s \<and> ss_id s = i"
    and "map_of (sm_retired sm) i = Some r \<Longrightarrow>
        ss_id (rs_session r) = i \<and> ss_established (rs_session r) \<and>
        map_of (sm_session_to_peer sm) i = None"
    and "map_of (sm_pending_initiators sm) i = Some q \<Longrightarrow>
        map_of (sm_session_to_peer sm) i = None \<and> map_of (sm_retired sm) i = None"
    and "length (sm_sessions sm) \<le> cap_active (sm_capacity sm)"
    "length (sm_retired sm) \<le> cap_retired (sm_capacity sm)"
    "length (sm_pending_initiators sm) \<le> cap_pending (sm_capacity sm)"
  using assms by (simp_all add: sm_ok_def tables_ok_def index_ok_def capacity_ok_def count_defs)

text \<open>The session an id denotes: active first, then retired.\<close>

definition session_of_id :: "'hs SessionManager \<Rightarrow> u32 \<Rightarrow> SessionState option" where
  "session_of_id sm i =
    (case map_of (sm_session_to_peer sm) i of
       Some p \<Rightarrow> map_of (sm_sessions sm) p
     | None \<Rightarrow> map_option rs_session (map_of (sm_retired sm) i))"

lemma find_session_by_id_ok:
  assumes "sm_ok sm" "find_session_by_id_locked i sm = Some (ref, s)"
  shows "session_of_id sm i = Some s" "ss_id s = i"
    and "ref = Active (ss_peer_id s) \<and> map_of (sm_sessions sm) (ss_peer_id s) = Some s \<and>
           map_of (sm_session_to_peer sm) i = Some (ss_peer_id s) \<or>
         ref = Retired i \<and> map_of (sm_session_to_peer sm) i = None \<and>
           (\<exists>r. map_of (sm_retired sm) i = Some r \<and> rs_session r = s)"
  using assms sm_okD(6-8) [OF assms(1)]
  by (fastforce simp: find_session_by_id_locked_def find_session_locked_def session_of_id_def
      split: option.splits if_splits)+

section \<open>Removing entries\<close>

text \<open>Every purge shrinks the tables; the invariant is closed under that.\<close>

lemma sm_ok_shrink:
  assumes ok: "sm_ok sm"
    and retired: "\<And>i r. map_of (sm_retired sm') i = Some r \<Longrightarrow> map_of (sm_retired sm) i = Some r"
      "map_ok (sm_retired sm')" "length (sm_retired sm') \<le> length (sm_retired sm)"
    and pending: "\<And>i p. map_of (sm_pending_initiators sm') i = Some p \<Longrightarrow>
        map_of (sm_pending_initiators sm) i = Some p"
      "map_ok (sm_pending_initiators sm')"
      "length (sm_pending_initiators sm') \<le> length (sm_pending_initiators sm)"
    and same: "sm_sessions sm' = sm_sessions sm" "sm_session_to_peer sm' = sm_session_to_peer sm"
      "sm_capacity sm' = sm_capacity sm" "map_ok (sm_handshake_replays sm')"
  shows "sm_ok sm'"
proof (rule sm_okI)
  fix i p assume "map_of (sm_pending_initiators sm') i = Some p"
  with pending(1) have "map_of (sm_session_to_peer sm) i = None \<and> map_of (sm_retired sm) i = None"
    using sm_okD(9) [OF ok] by blast
  then show "map_of (sm_session_to_peer sm') i = None \<and> map_of (sm_retired sm') i = None"
    using retired(1) same by (metis option.exhaust)
next
  fix i r assume "map_of (sm_retired sm') i = Some r"
  then show "ss_id (rs_session r) = i \<and> ss_established (rs_session r) \<and>
        map_of (sm_session_to_peer sm') i = None"
    using sm_okD(8) [OF ok retired(1)] same by simp
qed (use sm_okD [OF ok] retired pending same in \<open>auto intro: order_trans\<close>)

lemma purge_fields [simp]:
  "sm_sessions (purge_retired_locked now sm) = sm_sessions sm"
  "sm_session_to_peer (purge_retired_locked now sm) = sm_session_to_peer sm"
  "sm_pending_initiators (purge_retired_locked now sm) = sm_pending_initiators sm"
  "sm_capacity (purge_retired_locked now sm) = sm_capacity sm"
  "sm_handshake_replays (purge_retired_locked now sm) = sm_handshake_replays sm"
  "sm_retired_grace (purge_retired_locked now sm) = sm_retired_grace sm"
  "sm_node_id (purge_retired_locked now sm) = sm_node_id sm"
  "sm_sessions (purge_incomplete_handshakes_locked now sm) = sm_sessions sm"
  "sm_session_to_peer (purge_incomplete_handshakes_locked now sm) = sm_session_to_peer sm"
  "sm_retired (purge_incomplete_handshakes_locked now sm) = sm_retired sm"
  "sm_capacity (purge_incomplete_handshakes_locked now sm) = sm_capacity sm"
  "sm_handshake_replays (purge_incomplete_handshakes_locked now sm) = sm_handshake_replays sm"
  "sm_handshake_timeout (purge_incomplete_handshakes_locked now sm) = sm_handshake_timeout sm"
  "sm_handshake_replay_ttl (purge_incomplete_handshakes_locked now sm) = sm_handshake_replay_ttl sm"
  "sm_node_id (purge_incomplete_handshakes_locked now sm) = sm_node_id sm"
  "sm_sessions (purge_handshake_replays_locked now sm) = sm_sessions sm"
  "sm_session_to_peer (purge_handshake_replays_locked now sm) = sm_session_to_peer sm"
  "sm_retired (purge_handshake_replays_locked now sm) = sm_retired sm"
  "sm_pending_initiators (purge_handshake_replays_locked now sm) = sm_pending_initiators sm"
  "sm_capacity (purge_handshake_replays_locked now sm) = sm_capacity sm"
  "sm_handshake_replay_ttl (purge_handshake_replays_locked now sm) = sm_handshake_replay_ttl sm"
  "sm_node_id (purge_handshake_replays_locked now sm) = sm_node_id sm"
  by (simp_all add: purge_retired_locked_def purge_incomplete_handshakes_locked_def
      purge_handshake_replays_locked_def)

lemma sm_ok_purge [intro]:
  assumes "sm_ok sm"
  shows "sm_ok (purge_retired_locked now sm)"
    and "sm_ok (purge_incomplete_handshakes_locked now sm)"
    and "sm_ok (purge_handshake_replays_locked now sm)"
proof -
  note maps = sm_okD(3-5) [OF assms]
  note erased = maps [THEN map_of_erase_if_SomeD, THEN conjunct1]
  show "sm_ok (purge_retired_locked now sm)"
    by (rule sm_ok_shrink [OF assms]) (use maps erased(1) in \<open>auto simp: purge_retired_locked_def\<close>)
  show "sm_ok (purge_incomplete_handshakes_locked now sm)"
    by (rule sm_ok_shrink [OF assms])
      (use maps erased(2) in \<open>auto simp: purge_incomplete_handshakes_locked_def\<close>)
  show "sm_ok (purge_handshake_replays_locked now sm)"
    by (rule sm_ok_shrink [OF assms]) (use maps in \<open>auto simp: purge_handshake_replays_locked_def\<close>)
qed

lemma sm_ok_setters [intro]:
  assumes "sm_ok sm"
  shows "sm_ok (set_retired_grace g sm)" "sm_ok (set_handshake_timeout now t sm)"
    "sm_ok (set_handshake_replay_ttl now t sm)"
proof -
  have "sm_ok (sm\<lparr>sm_retired_grace := g\<rparr>)" "sm_ok (sm\<lparr>sm_handshake_timeout := max t 0\<rparr>)"
    "sm_ok (sm\<lparr>sm_handshake_replay_ttl := max t 0\<rparr>)"
    by (rule sm_ok_shrink [OF assms]; use sm_okD(3-5) [OF assms] in simp)+
  then show "sm_ok (set_retired_grace g sm)" "sm_ok (set_handshake_timeout now t sm)"
    "sm_ok (set_handshake_replay_ttl now t sm)"
    by (auto simp: set_retired_grace_def set_handshake_timeout_def set_handshake_replay_ttl_def)
qed

lemma sm_ok_erase_pending [intro]:
  "sm_ok sm \<Longrightarrow> sm_ok (sm\<lparr>sm_pending_initiators := map_erase i (sm_pending_initiators sm)\<rparr>)"
  by (rule sm_ok_shrink) (use sm_okD(3-5) in \<open>auto split: if_splits\<close>)

lemma sm_ok_put_replay [intro]:
  "sm_ok sm \<Longrightarrow> sm_ok (sm\<lparr>sm_handshake_replays := map_put k v (sm_handshake_replays sm)\<rparr>)"
  by (rule sm_ok_shrink) (use sm_okD(3-5) in auto)

section \<open>Retiring and establishing\<close>

lemma retire_fields [simp]:
  "sm_sessions (retire_session_locked s now sm) = sm_sessions sm"
  "sm_session_to_peer (retire_session_locked s now sm) = sm_session_to_peer sm"
  "sm_pending_initiators (retire_session_locked s now sm) = sm_pending_initiators sm"
  "sm_capacity (retire_session_locked s now sm) = sm_capacity sm"
  "sm_handshake_replays (retire_session_locked s now sm) = sm_handshake_replays sm"
  by (simp_all add: retire_session_locked_def Let_def)

text \<open>Retirement keeps the buffer within its capacity; every entry was there
  before or is the retired session itself.\<close>

lemma retire_session_ok:
  assumes ok: "map_ok (sm_retired sm)" and len: "length (sm_retired sm) \<le> cap_retired (sm_capacity sm)"
  shows "map_ok (sm_retired (retire_session_locked s now sm))"
    and "length (sm_retired (retire_session_locked s now sm)) \<le> cap_retired (sm_capacity sm)"
    and "map_of (sm_retired (retire_session_locked s now sm)) i = Some r \<Longrightarrow>
      map_of (sm_retired sm) i = Some r \<or> i = ss_id s \<and> rs_session r = s"
proof -
  define m where "m = sm_retired (purge_retired_locked now sm)"
  have m: "map_ok m" and ml: "length m \<le> cap_retired (sm_capacity sm)"
    and sub: "map_of m i = Some r \<Longrightarrow> map_of (sm_retired sm) i = Some r" for i r
    using ok len map_of_erase_if_SomeD [OF ok]
    by (auto simp: m_def purge_retired_locked_def intro: order_trans [OF length_erase_if_le])
  define e where "e = \<lparr>rs_session = s, rs_expires = now + sm_retired_grace sm\<rparr>"
  let ?full = "\<not> map_contains (ss_id s) m \<and> length m \<ge> cap_retired (sm_capacity sm)"
  have eq: "sm_retired (retire_session_locked s now sm) =
      (if cap_retired (sm_capacity sm) = 0 then m
       else map_put (ss_id s) e
         (if ?full then (case min_element retired_before m of
            Some v \<Rightarrow> map_erase (fst v) m | None \<Rightarrow> m) else m))"
    unfolding retire_session_locked_def Let_def m_def e_def by simp
  have "map_ok (sm_retired (retire_session_locked s now sm)) \<and>
      length (sm_retired (retire_session_locked s now sm)) \<le> cap_retired (sm_capacity sm) \<and>
      (map_of (sm_retired (retire_session_locked s now sm)) i = Some r \<longrightarrow>
        map_of m i = Some r \<or> i = ss_id s \<and> r = e)"
  proof (cases "cap_retired (sm_capacity sm) = 0 \<or> \<not> ?full")
    case True
    then show ?thesis
      using m ml std_map.bounded_put [OF m ml, of "ss_id s" e]
      by (auto simp: eq map_contains_iff not_le)
  next
    case False
    then obtain v where v: "min_element retired_before m = Some v"
      by (cases "min_element retired_before m") auto
    then have "map_of m (fst v) \<noteq> None"
      by (metis fst_conv min_element_mem prod.collapse weak_map_of_SomeI option.distinct(1))
    then show ?thesis
      using False v std_map.evict_put [OF m ml] m by (auto simp: eq split: if_splits)
  qed
  then show "map_ok (sm_retired (retire_session_locked s now sm))"
    and "length (sm_retired (retire_session_locked s now sm)) \<le> cap_retired (sm_capacity sm)"
    and "map_of (sm_retired (retire_session_locked s now sm)) i = Some r \<Longrightarrow>
      map_of (sm_retired sm) i = Some r \<or> i = ss_id s \<and> rs_session r = s"
    using sub by (auto simp: e_def)
qed

text \<open>The tables after a session is established for \<open>peer\<close> under the fresh id \<open>sid\<close>.\<close>

definition new_session :: "time \<Rightarrow> node_id \<Rightarrow> u32 \<Rightarrow> bytes \<times> bytes \<Rightarrow> bool \<Rightarrow> SessionState \<Rightarrow> bool" where
  "new_session now peer sid split init s \<longleftrightarrow>
     ss_id s = sid \<and> ss_peer_id s = peer \<and> ss_send_key s = fst split \<and> ss_recv_key s = snd split \<and>
     ss_send_seq s = 0 \<and> ss_recv_last s = 0 \<and> ss_recv_window s = 0 \<and> ss_established s \<and>
     ss_initiated_locally s = init \<and> ss_established_at s = now"

definition established_state ::
    "time \<Rightarrow> node_id \<Rightarrow> u32 \<Rightarrow> bytes \<times> bytes \<Rightarrow> bool \<Rightarrow> 'hs SessionManager \<Rightarrow> SessionState" where
  "established_state now peer sid split init sm = install_noise_keys now
    ((case map_of (sm_sessions sm) peer of Some s \<Rightarrow> s | None \<Rightarrow> fresh_SessionState)
       \<lparr>ss_peer_id := peer, ss_id := sid, ss_send_seq := 0, ss_recv_last := 0,
        ss_recv_window := 0, ss_established := False\<rparr>) split init"

lemma established_state_new: "new_session now peer sid split init (established_state now peer sid split init sm)"
  by (simp add: new_session_def established_state_def install_noise_keys_def)

lemma map_put_put: "map_put k x (map_put k y m) = map_put k x m"
  by (induction k y m rule: map_put.induct) auto

lemma establish_session_tables:
  fixes sm :: "'hs SessionManager" and now peer sid split init
  assumes ok: "sm_ok sm"
  defines "sm' \<equiv> establish_session now peer sid split init sm"
  shows "map_of (sm_sessions sm') =
       (map_of (sm_sessions sm))(peer \<mapsto> established_state now peer sid split init sm)"
    and "map_ok (sm_sessions sm')"
    and "length (sm_sessions sm') =
       (if map_contains peer (sm_sessions sm) then length (sm_sessions sm)
        else Suc (length (sm_sessions sm)))"
    and "map_of (sm_session_to_peer sm') =
       (case map_of (sm_sessions sm) peer of
          Some old \<Rightarrow> (map_of (sm_session_to_peer sm))(ss_id old := None, sid \<mapsto> peer)
        | None \<Rightarrow> (map_of (sm_session_to_peer sm))(sid \<mapsto> peer))"
    and "map_ok (sm_session_to_peer sm')" and "map_ok (sm_retired sm')"
    and "length (sm_retired sm') \<le> cap_retired (sm_capacity sm)"
    and "map_of (sm_retired sm') i = Some r \<Longrightarrow> map_of (sm_retired sm) i = Some r \<or>
       map_of (sm_sessions sm) peer = Some (rs_session r) \<and> i = ss_id (rs_session r)"
    and "sm_pending_initiators sm' = sm_pending_initiators sm" and "sm_capacity sm' = sm_capacity sm"
    and "sm_handshake_replays sm' = sm_handshake_replays sm"
proof -
  note est = sm_okD(6) [OF ok] and maps = sm_okD(1-3) [OF ok] and cap = sm_okD(11) [OF ok]
  note defs = sm'_def establish_session_def create_session_def established_state_def Let_def
  show "map_of (sm_sessions sm') =
       (map_of (sm_sessions sm))(peer \<mapsto> established_state now peer sid split init sm)"
    by (simp add: defs split: option.splits)
  show "map_ok (sm_sessions sm')"
    using maps by (auto simp: defs split: option.splits)
  show "length (sm_sessions sm') = (if map_contains peer (sm_sessions sm)
        then length (sm_sessions sm) else Suc (length (sm_sessions sm)))"
    using maps by (auto simp: defs map_put_put length_put split: option.splits)
  show "map_of (sm_session_to_peer sm') = (case map_of (sm_sessions sm) peer of
          Some old \<Rightarrow> (map_of (sm_session_to_peer sm))(ss_id old := None, sid \<mapsto> peer)
        | None \<Rightarrow> (map_of (sm_session_to_peer sm))(sid \<mapsto> peer))"
    using est by (auto simp: defs split: option.splits)
  show "map_ok (sm_session_to_peer sm')" "map_ok (sm_retired sm')"
    using maps retire_session_ok(1) [OF maps(3) cap] by (auto simp: defs split: option.splits)
  show "length (sm_retired sm') \<le> cap_retired (sm_capacity sm)"
    using cap retire_session_ok(2) [OF maps(3) cap] by (auto simp: defs split: option.splits)
  show "map_of (sm_retired sm) i = Some r \<or>
        map_of (sm_sessions sm) peer = Some (rs_session r) \<and> i = ss_id (rs_session r)"
    if "map_of (sm_retired sm') i = Some r"
    using that retire_session_ok(3) [OF maps(3) cap, of _ now i r]
    by (auto simp: defs split: option.splits if_splits)
qed (auto simp: sm'_def establish_session_def create_session_def Let_def split: option.splits)

lemma sm_ok_establish:
  assumes ok: "sm_ok sm"
    and fresh: "map_of (sm_session_to_peer sm) sid = None" "map_of (sm_retired sm) sid = None"
      "map_of (sm_pending_initiators sm) sid = None"
    and room: "map_contains peer (sm_sessions sm) \<or> length (sm_sessions sm) < cap_active (sm_capacity sm)"
  shows "sm_ok (establish_session now peer sid split init sm)" (is "sm_ok ?sm'")
proof -
  note t = established_state_new [of now peer sid split init sm]
    establish_session_tables [OF ok, of now peer sid split init]
  note r = t(9) and same = t(10-12)
  note s = t(1) [unfolded new_session_def]
  show ?thesis
  proof (rule sm_okI)
    fix p s' assume a: "map_of (sm_sessions ?sm') p = Some s'"
    show "ss_peer_id s' = p \<and> ss_established s' \<and> map_of (sm_session_to_peer ?sm') (ss_id s') = Some p"
    proof (cases "p = peer")
      case True
      then show ?thesis using a s t(2,5) by (auto split: option.splits)
    next
      case False
      then have old: "map_of (sm_sessions sm) p = Some s'" using a t(2) by simp
      have "map_of (sm_sessions sm) peer = Some o' \<Longrightarrow> ss_id o' \<noteq> ss_id s'" for o'
        using False sm_okD(6) [OF ok old] sm_okD(6) [OF ok, of peer o'] by auto
      then show ?thesis
        using sm_okD(6) [OF ok old] fresh(1) t(5) by (auto split: option.splits)
    qed
  next
    fix i p assume a: "map_of (sm_session_to_peer ?sm') i = Some p"
    show "\<exists>s'. map_of (sm_sessions ?sm') p = Some s' \<and> ss_id s' = i"
    proof (cases "i = sid")
      case True
      then show ?thesis using a s t(2,5) by (auto split: option.splits if_splits)
    next
      case False
      then have "map_of (sm_session_to_peer sm) i = Some p"
        and ne: "map_of (sm_sessions sm) peer = Some o' \<Longrightarrow> ss_id o' \<noteq> i" for o'
        using a t(5) by (auto split: option.splits if_splits)
      then show ?thesis using sm_okD(7) [OF ok] t(2) by fastforce
    qed
  next
    fix i x assume a: "map_of (sm_retired ?sm') i = Some x"
    from r [OF a] show "ss_id (rs_session x) = i \<and> ss_established (rs_session x) \<and>
        map_of (sm_session_to_peer ?sm') i = None"
    proof
      assume o: "map_of (sm_retired sm) i = Some x"
      then have "i \<noteq> sid" using fresh by auto
      then show ?thesis using sm_okD(8) [OF ok o] t(5) by (auto split: option.splits)
    next
      assume o: "map_of (sm_sessions sm) peer = Some (rs_session x) \<and> i = ss_id (rs_session x)"
      then have "i \<noteq> sid" using sm_okD(6) [OF ok] fresh by fastforce
      then show ?thesis using o sm_okD(6) [OF ok, of peer "rs_session x"] t(5) by auto
    qed
  next
    fix i q assume "map_of (sm_pending_initiators ?sm') i = Some q"
    then have q: "map_of (sm_pending_initiators sm) i = Some q" using same by simp
    then have "i \<noteq> sid" using fresh by auto
    have "map_of (sm_retired ?sm') i \<noteq> Some x" for x
      using r [of i x] sm_okD(9) [OF ok q] sm_okD(6) [OF ok, of peer "rs_session x"] by auto
    then show "map_of (sm_session_to_peer ?sm') i = None \<and> map_of (sm_retired ?sm') i = None"
      using sm_okD(9) [OF ok q] \<open>i \<noteq> sid\<close> t(5) by (auto split: option.splits)
  qed (use t same room sm_okD [OF ok] in auto)
qed

section \<open>Every locked section keeps the invariant\<close>

lemma sm_ok_remove_session [intro]:
  assumes ok: "sm_ok sm"
  shows "sm_ok (remove_session peer sm)"
proof -
  define sm1 where "sm1 = (case map_of (sm_sessions sm) peer of
      Some s \<Rightarrow> sm\<lparr>sm_session_to_peer := map_erase (ss_id s) (sm_session_to_peer sm),
                   sm_retired := map_erase (ss_id s) (sm_retired sm),
                   sm_sessions := map_erase peer (sm_sessions sm)\<rparr>
    | None \<Rightarrow> sm)"
  note D = sm_okD [OF ok]
  have "sm_ok sm1"
  proof (cases "map_of (sm_sessions sm) peer")
    case (Some s)
    have uniq: "p = peer" if "map_of (sm_sessions sm) p = Some s'" "ss_id s' = ss_id s" for p s'
      using D(6) [OF that(1)] D(6) [OF Some] that(2) by simp
    show ?thesis unfolding sm1_def Some option.case
    proof (rule sm_okI, goal_cases)
      case (6 p s')
      then have o: "map_of (sm_sessions sm) p = Some s'" and "p \<noteq> peer" by (auto split: if_splits)
      then have "ss_id s' \<noteq> ss_id s" using uniq by blast
      then show ?case using D(6) [OF o] by simp
    next
      case (7 i p)
      then have o: "map_of (sm_session_to_peer sm) i = Some p" and "i \<noteq> ss_id s"
        by (auto split: if_splits)
      then have "p \<noteq> peer" using D(7) [OF o] Some by auto
      then show ?case using D(7) [OF o] by simp
    next
      case (8 i r)
      then show ?case using D(8) [of i r] by (simp split: if_splits)
    next
      case (9 i q)
      then show ?case using D(9) [of i q] by simp
    qed (use D in \<open>auto intro: order_trans [OF length_erase_le]\<close>)
  qed (simp add: sm1_def ok)
  moreover have "remove_session peer sm = sm1\<lparr>sm_retired :=
             map_erase_if (\<lambda>(_, r). ss_peer_id (rs_session r) = peer) (sm_retired sm1),
           sm_pending_initiators :=
             map_erase_if (\<lambda>(_, p). pi_expected_peer_id p = peer) (sm_pending_initiators sm1)\<rparr>"
    by (simp add: remove_session_def Let_def flip: sm1_def)
  ultimately show ?thesis
    using sm_okD(3-5) [of sm1] map_of_erase_if_SomeD [of "sm_retired sm1"]
      map_of_erase_if_SomeD [of "sm_pending_initiators sm1"]
    by (auto intro!: sm_ok_shrink [of sm1])
qed

text \<open>Replacing an active session by one with the same id, peer and status.\<close>

lemma sm_ok_update_active:
  assumes ok: "sm_ok sm" and s: "map_of (sm_sessions sm) p = Some s"
    and s': "ss_id s' = ss_id s" "ss_peer_id s' = ss_peer_id s" "ss_established s'"
  shows "sm_ok (sm\<lparr>sm_sessions := map_put p s' (sm_sessions sm)\<rparr>)"
proof (rule sm_okI, goal_cases)
  case (6 p' x)
  then show ?case using sm_okD(6) [OF ok, of p' x] sm_okD(6) [OF ok s] s' by (auto split: if_splits)
next
  case (7 i p')
  then show ?case using sm_okD(7) [OF ok, of i p'] s s' by (auto split: if_splits)
next
  case 10
  then show ?case using sm_okD(1,10) [OF ok] s by (simp add: length_put map_contains_iff)
qed (use sm_okD(1-5,8,9,11,12) [OF ok] in auto)

lemma sm_ok_update_retired:
  assumes ok: "sm_ok sm" and r: "map_of (sm_retired sm) i = Some r"
    and s': "ss_id (rs_session r') = ss_id (rs_session r)" "ss_established (rs_session r')"
  shows "sm_ok (sm\<lparr>sm_retired := map_put i r' (sm_retired sm)\<rparr>)"
proof (rule sm_okI, goal_cases)
  case (8 j x)
  then show ?case using sm_okD(8) [OF ok, of j x] sm_okD(8) [OF ok r] s' by (auto split: if_splits)
next
  case (9 j q)
  then show ?case using sm_okD(9) [OF ok, of j q] r by (auto split: if_splits)
next
  case 11
  then show ?case using sm_okD(3,11) [OF ok] r by (simp add: length_put map_contains_iff)
qed (use sm_okD(1-7,10,12) [OF ok] in auto)

lemma encrypt_message_state:
  "snd (encrypt_message crypto random peer t pt f sm) = sm \<or>
   (\<exists>s. find_session_locked peer sm = Some s \<and>
      snd (encrypt_message crypto random peer t pt f sm) =
        sm\<lparr>sm_sessions := map_put peer (s\<lparr>ss_send_seq := ss_send_seq s + 1\<rparr>) (sm_sessions sm)\<rparr>)"
  by (auto simp: encrypt_message_def Let_def split: option.splits)

lemma sm_ok_encrypt [intro]:
  assumes "sm_ok sm"
  shows "sm_ok (snd (encrypt_message crypto random peer t pt f sm))"
  using encrypt_message_state [of crypto random peer t pt f sm] assms
    sm_ok_update_active [OF assms, of peer]
  by (auto simp: find_session_locked_def split: option.splits if_splits)

text \<open>A decryption either leaves the manager alone or marks the frame's sequence
  number in the window of the session that authenticated it.\<close>

definition frame_seq :: "PacketHeader \<Rightarrow> u64" where
  "frame_seq hdr = ucast (ph_sequence_number hdr)"

definition authenticates :: "crypto_api \<Rightarrow> bytes \<Rightarrow> 'hs SessionManager \<Rightarrow> PacketHeader \<Rightarrow> session_ref \<Rightarrow> SessionState \<Rightarrow> bool" where
  "authenticates crypto data sm hdr ref s \<longleftrightarrow>
     check_frame data = Some hdr \<and> find_session_by_id_locked (ph_session_id hdr) sm = Some (ref, s) \<and>
     check_replay s (frame_seq hdr) \<and>
     aead_decrypt crypto (ss_recv_key s) (take 12 (drop 16 data)) (take 16 data)
       (take (unat (ph_payload_length hdr)) (drop (16 + 12) data))
       (take 16 (drop (16 + 12 + unat (ph_payload_length hdr)) data)) \<noteq> None"

lemma decrypt_message_rejected:
  assumes "\<And>hdr ref s. \<not> authenticates crypto data sm hdr ref s"
  shows "decrypt_message crypto data sm = (None, sm)"
  using assms
  by (auto simp: decrypt_message_def authenticates_def frame_seq_def Let_def split: option.splits)

lemma decrypt_message_authentic:
  "authenticates crypto data sm hdr ref s \<Longrightarrow>
    snd (decrypt_message crypto data sm) = store_session ref (update_replay s (frame_seq hdr)) sm"
  by (auto simp: decrypt_message_def authenticates_def frame_seq_def Let_def)

lemma decrypt_message_cases:
  obtains (rejected) "decrypt_message crypto data sm = (None, sm)"
      "\<And>hdr ref s. \<not> authenticates crypto data sm hdr ref s"
  | (authentic) hdr ref s where "authenticates crypto data sm hdr ref s"
      "snd (decrypt_message crypto data sm) = store_session ref (update_replay s (frame_seq hdr)) sm"
  using decrypt_message_rejected decrypt_message_authentic by blast

lemma sm_ok_store:
  assumes ok: "sm_ok sm" and f: "find_session_by_id_locked i sm = Some (ref, s)"
  shows "sm_ok (store_session ref (update_replay s q) sm)"
  using find_session_by_id_ok(3) [OF ok f]
proof
  assume "ref = Active (ss_peer_id s) \<and> map_of (sm_sessions sm) (ss_peer_id s) = Some s \<and>
           map_of (sm_session_to_peer sm) i = Some (ss_peer_id s)"
  then show ?thesis
    using sm_ok_update_active [OF ok, of "ss_peer_id s" s "update_replay s q"]
      sm_okD(6) [OF ok, of "ss_peer_id s" s] by simp
next
  assume "ref = Retired i \<and> map_of (sm_session_to_peer sm) i = None \<and>
           (\<exists>r. map_of (sm_retired sm) i = Some r \<and> rs_session r = s)"
  then obtain r where r: "ref = Retired i" "map_of (sm_retired sm) i = Some r" "rs_session r = s" by blast
  then show ?thesis
    using sm_ok_update_retired [OF ok r(2), of "r\<lparr>rs_session := update_replay s q\<rparr>"]
      sm_okD(8) [OF ok r(2)] by simp
qed

lemma sm_ok_decrypt [intro]:
  "sm_ok sm \<Longrightarrow> sm_ok (snd (decrypt_message crypto data sm))"
  by (cases rule: decrypt_message_cases [of crypto data sm])
    (auto simp: authenticates_def intro: sm_ok_store)

lemma sm_ok_create_init [intro]:
  assumes "sm_ok sm"
  shows "sm_ok (snd (create_handshake_init noise crypto rnd now sid peer static sm))"
proof -
  have put: "sm_ok (m\<lparr>sm_pending_initiators := map_put sid q (sm_pending_initiators m)\<rparr>)"
    if m: "sm_ok m" and free: "\<not> map_contains sid (sm_pending_initiators m)"
      "\<not> map_contains sid (sm_session_to_peer m)" "\<not> map_contains sid (sm_retired m)"
      "length (sm_pending_initiators m) < cap_pending (sm_capacity m)" for m :: "'a SessionManager" and q
  proof (rule sm_okI, goal_cases)
    case (9 i p)
    then show ?case using sm_okD(9) [OF m, of i p] free by (auto simp: map_contains_iff split: if_splits)
  next
    case 12
    then show ?case using sm_okD(4) [OF m] free by (simp add: length_put)
  qed (use sm_okD(1-8,10,11) [OF m] sm_okD(4) [OF m] in auto)
  show ?thesis
    using assms put [OF sm_ok_purge(2) [OF assms, of now]]
    by (auto simp: create_handshake_init_def Let_def not_le split: option.splits)
qed

lemma sm_ok_admit [intro]:
  "sm_ok sm \<Longrightarrow> sm_ok (snd (handshake_init_admit crypto now msg sid sm))"
  by (auto simp: handshake_init_admit_def Let_def split: option.splits)

lemma sm_ok_claim [intro]:
  assumes "sm_ok sm"
  shows "sm_ok (snd (handshake_init_claim now key peer sm))"
proof -
  let ?m = "purge_handshake_replays_locked now (purge_incomplete_handshakes_locked now sm)"
  have m: "sm_ok ?m" using assms by blast
  have "sm_ok (?m\<lparr>sm_handshake_replays := map_put k v (sm_handshake_replays ?m),
       sm_pending_initiators := map_erase i (sm_pending_initiators ?m)\<rparr>)" for k v i
    using sm_ok_erase_pending [OF sm_ok_put_replay [OF m]] by simp
  then show ?thesis
    using m sm_ok_put_replay [OF m] unfolding handshake_init_claim_def Let_def
    by (auto split: option.splits)
qed

lemma sm_ok_commit [intro]:
  assumes "sm_ok sm"
  shows "sm_ok (snd (handshake_init_commit now sid peer split sm))"
  using assms sm_ok_establish [OF sm_ok_purge(2) [OF assms, of now], of sid peer now split False]
  by (auto simp: handshake_init_commit_def Let_def map_contains_iff not_le)

lemma handle_resp_cases:
  obtains (failed) "fst (handle_handshake_resp noise crypto now msg sid sm) = False"
      "snd (handle_handshake_resp noise crypto now msg sid sm) = purge_incomplete_handshakes_locked now sm \<or>
       snd (handle_handshake_resp noise crypto now msg sid sm) =
         (purge_incomplete_handshakes_locked now sm)\<lparr>sm_pending_initiators :=
            map_erase sid (sm_pending_initiators (purge_incomplete_handshakes_locked now sm))\<rparr>"
  | (established) q split sm1 where
      "sm1 = (purge_incomplete_handshakes_locked now sm)\<lparr>sm_pending_initiators :=
            map_erase sid (sm_pending_initiators (purge_incomplete_handshakes_locked now sm))\<rparr>"
      "map_of (sm_pending_initiators (purge_incomplete_handshakes_locked now sm)) sid = Some q"
      "map_contains (pi_expected_peer_id q) (sm_sessions sm1) \<or>
       length (sm_sessions sm1) < cap_active (sm_capacity sm1)"
      "handle_handshake_resp noise crypto now msg sid sm =
         (True, establish_session now (pi_expected_peer_id q) sid split True sm1)"
proof (cases "fst (handle_handshake_resp noise crypto now msg sid sm)")
  case True
  then show thesis
    by (auto simp: handle_handshake_resp_def Let_def map_contains_iff not_le
        split: option.splits if_splits intro!: established)
next
  case False
  then show thesis
    by (auto simp: handle_handshake_resp_def Let_def split: option.splits if_splits intro!: failed)
qed

lemma sm_ok_resp_tables:
  assumes ok: "sm_ok sm"
    and q: "map_of (sm_pending_initiators (purge_incomplete_handshakes_locked now sm)) sid = Some q"
    and sm1: "sm1 = (purge_incomplete_handshakes_locked now sm)\<lparr>sm_pending_initiators :=
            map_erase sid (sm_pending_initiators (purge_incomplete_handshakes_locked now sm))\<rparr>"
  shows "sm_ok sm1" "map_of (sm_session_to_peer sm1) sid = None" "map_of (sm_retired sm1) sid = None"
    "map_of (sm_pending_initiators sm1) sid = None"
  using sm_ok_purge(2) [OF ok] sm_okD(9) [OF sm_ok_purge(2) [OF ok] q] by (auto simp: sm1)

lemma sm_ok_resp [intro]:
  assumes "sm_ok sm"
  shows "sm_ok (snd (handle_handshake_resp noise crypto now msg sid sm))"
proof (cases rule: handle_resp_cases [of noise crypto now msg sid sm])
  case failed
  then show ?thesis using assms by (metis sm_ok_purge(2) sm_ok_erase_pending)
next
  case (established q split sm1)
  then show ?thesis
    using sm_ok_establish [OF sm_ok_resp_tables [OF assms established(2,1)] established(3)] by simp
qed

section \<open>The manager as a state machine\<close>

datatype sm_event = Quiet | Created u32 | Delivered u32 nat

inductive sm_step ::
    "'hs noise_api \<Rightarrow> crypto_api \<Rightarrow> 'hs SessionManager \<Rightarrow> sm_event \<Rightarrow> 'hs SessionManager \<Rightarrow> bool"
  for noise crypto
where
  create_init: "sm_step noise crypto sm Quiet
     (snd (create_handshake_init noise crypto rnd now sid peer static sm))"
| resp_established: "handle_handshake_resp noise crypto now msg sid sm = (True, sm') \<Longrightarrow>
     sm_step noise crypto sm (Created sid) sm'"
| resp_failed: "handle_handshake_resp noise crypto now msg sid sm = (False, sm') \<Longrightarrow>
     sm_step noise crypto sm Quiet sm'"
| init_admit: "sm_step noise crypto sm Quiet (snd (handshake_init_admit crypto now msg sid sm))"
| init_claim: "sm_step noise crypto sm Quiet (snd (handshake_init_claim now key peer sm))"
| init_committed: "handshake_init_commit now sid peer split sm = (True, sm') \<Longrightarrow>
     sm_step noise crypto sm (Created sid) sm'"
| init_not_committed: "handshake_init_commit now sid peer split sm = (False, sm') \<Longrightarrow>
     sm_step noise crypto sm Quiet sm'"
| encrypt: "sm_step noise crypto sm Quiet (snd (encrypt_message crypto random peer t pt f sm))"
| decrypt_authentic: "authenticates crypto data sm hdr ref s \<Longrightarrow>
     sm_step noise crypto sm (Delivered (ph_session_id hdr) (unat (ph_sequence_number hdr)))
       (snd (decrypt_message crypto data sm))"
| decrypt_rejected: "(\<And>hdr ref s. \<not> authenticates crypto data sm hdr ref s) \<Longrightarrow>
     sm_step noise crypto sm Quiet (snd (decrypt_message crypto data sm))"
| remove: "sm_step noise crypto sm Quiet (remove_session peer sm)"
| purge_retired: "sm_step noise crypto sm Quiet (purge_retired_locked now sm)"
| purge_incomplete: "sm_step noise crypto sm Quiet (purge_incomplete_handshakes_locked now sm)"
| purge_replays: "sm_step noise crypto sm Quiet (purge_handshake_replays_locked now sm)"
| retired_grace: "sm_step noise crypto sm Quiet (set_retired_grace g sm)"
| handshake_timeout: "sm_step noise crypto sm Quiet (set_handshake_timeout now g sm)"
| replay_ttl: "sm_step noise crypto sm Quiet (set_handshake_replay_ttl now g sm)"

lemma sm_step_ok:
  assumes "sm_step noise crypto sm ev sm'" and "sm_ok sm"
  shows "sm_ok sm'"
  using assms
proof cases
  case (resp_established now msg sid)
  then show ?thesis using sm_ok_resp [OF assms(2), of noise crypto now msg sid] by simp
next
  case (resp_failed now msg sid)
  then show ?thesis using sm_ok_resp [OF assms(2), of noise crypto now msg sid] by simp
next
  case (init_committed now sid peer split)
  then show ?thesis using sm_ok_commit [OF assms(2), of now sid peer split] by simp
next
  case (init_not_committed now sid peer split)
  then show ?thesis using sm_ok_commit [OF assms(2), of now sid peer split] by simp
qed (use assms(2) in auto)

text \<open>The log: which sequence numbers were authenticated under each session id since
  the session was created.\<close>

fun log_event :: "sm_event \<Rightarrow> (u32 \<Rightarrow> nat set) \<Rightarrow> u32 \<Rightarrow> nat set" where
  "log_event Quiet log = log"
| "log_event (Created sid) log = log(sid := {})"
| "log_event (Delivered sid n) log = log(sid := insert n (log sid))"

inductive sm_reach ::
    "'hs noise_api \<Rightarrow> crypto_api \<Rightarrow> 'hs SessionManager \<Rightarrow> (u32 \<Rightarrow> nat set) \<Rightarrow> bool"
  for noise crypto
where
  start: "sm_reach noise crypto (new_SessionManager nid net priv cap bucket) (\<lambda>_. {})"
| step: "sm_reach noise crypto sm log \<Longrightarrow> sm_step noise crypto sm ev sm' \<Longrightarrow>
     sm_reach noise crypto sm' (log_event ev log)"

lemma sm_ok_new: "sm_ok (new_SessionManager nid net priv cap bucket)"
  by (rule sm_okI) (simp_all add: new_SessionManager_def)

lemma sm_reach_ok: "sm_reach noise crypto sm log \<Longrightarrow> sm_ok sm"
  by (induction rule: sm_reach.induct) (auto simp: sm_ok_new intro: sm_step_ok)

section \<open>Windows along a step\<close>

definition same_window :: "SessionState \<Rightarrow> SessionState \<Rightarrow> bool" where
  "same_window s s' \<longleftrightarrow> ss_recv_last s' = ss_recv_last s \<and> ss_recv_window s' = ss_recv_window s"

definition windows_kept :: "u32 set \<Rightarrow> 'hs SessionManager \<Rightarrow> 'hs SessionManager \<Rightarrow> bool" where
  "windows_kept touched sm sm' \<longleftrightarrow>
    (\<forall>i s'. i \<notin> touched \<longrightarrow> session_of_id sm' i = Some s' \<longrightarrow>
       (\<exists>s. session_of_id sm i = Some s \<and> same_window s s'))"

lemma windows_kept_refl [simp]: "windows_kept t sm sm"
  by (simp add: windows_kept_def same_window_def)

lemma windows_kept_trans:
  "windows_kept t sm sm1 \<Longrightarrow> windows_kept t sm1 sm2 \<Longrightarrow> windows_kept t sm sm2"
  by (fastforce simp: windows_kept_def same_window_def)

lemma windows_keptI:
  assumes "\<And>i p x. i \<notin> t \<Longrightarrow> map_of (sm_session_to_peer sm') i = Some p \<Longrightarrow>
      map_of (sm_sessions sm') p = Some x \<Longrightarrow> \<exists>s. session_of_id sm i = Some s \<and> same_window s x"
    and "\<And>i r. i \<notin> t \<Longrightarrow> map_of (sm_session_to_peer sm') i = None \<Longrightarrow>
      map_of (sm_retired sm') i = Some r \<Longrightarrow>
      \<exists>s. session_of_id sm i = Some s \<and> same_window s (rs_session r)"
  shows "windows_kept t sm sm'"
  using assms unfolding windows_kept_def session_of_id_def [of sm']
  by (auto split: option.splits)

lemma same_window_refl [simp]: "same_window s s"
  by (simp add: same_window_def)

lemma session_of_id_active:
  "map_of (sm_session_to_peer sm) i = Some p \<Longrightarrow> session_of_id sm i = map_of (sm_sessions sm) p"
  by (simp add: session_of_id_def)

lemma session_of_id_retired:
  "sm_ok sm \<Longrightarrow> map_of (sm_retired sm) i = Some r \<Longrightarrow> session_of_id sm i = Some (rs_session r)"
  using sm_okD(8) by (fastforce simp: session_of_id_def)

lemma windows_kept_shrink:
  assumes "sm_sessions sm' = sm_sessions sm" "sm_session_to_peer sm' = sm_session_to_peer sm"
    and "\<And>i r. map_of (sm_retired sm') i = Some r \<Longrightarrow> map_of (sm_retired sm) i = Some r"
  shows "windows_kept {} sm sm'"
  using assms by (fastforce simp: windows_kept_def session_of_id_def same_window_def split: option.splits)

lemma windows_kept_purge:
  assumes "sm_ok sm"
  shows "windows_kept {} sm (purge_retired_locked now sm)"
    and "windows_kept {} sm (purge_incomplete_handshakes_locked now sm)"
    and "windows_kept {} sm (purge_handshake_replays_locked now sm)"
  using map_of_erase_if_SomeD [OF sm_okD(3) [OF assms]]
  by (auto intro!: windows_kept_shrink simp: purge_retired_locked_def)

definition same_tables :: "'hs SessionManager \<Rightarrow> 'hs SessionManager \<Rightarrow> bool" where
  "same_tables sm sm' \<longleftrightarrow> sm_sessions sm' = sm_sessions sm \<and>
     sm_session_to_peer sm' = sm_session_to_peer sm \<and> sm_retired sm' = sm_retired sm"

lemma same_tables_kept: "same_tables sm sm' \<Longrightarrow> windows_kept {} sm sm'"
  by (rule windows_kept_shrink) (simp_all add: same_tables_def)

lemma same_tables_ops:
  "same_tables sm (set_retired_grace g sm)"
  "same_tables sm (set_handshake_timeout now g sm)"
  "same_tables sm (set_handshake_replay_ttl now g sm)"
  "same_tables sm (snd (create_handshake_init noise crypto rnd now sid peer static sm))"
  "same_tables sm (snd (handshake_init_admit crypto now msg sid sm))"
  "same_tables sm (snd (handshake_init_claim now key peer sm))"
  by (auto simp: same_tables_def set_retired_grace_def set_handshake_timeout_def
      set_handshake_replay_ttl_def create_handshake_init_def handshake_init_admit_def
      handshake_init_claim_def Let_def split: option.splits prod.splits)

lemmas windows_kept_quiet = same_tables_ops [THEN same_tables_kept]

lemma windows_kept_remove:
  assumes ok: "sm_ok sm"
  shows "windows_kept {} sm (remove_session peer sm)"
proof -
  note D = sm_okD [OF ok]
  have gone: "map_of (map_erase_if P (sm_retired sm)) i = Some r \<Longrightarrow> map_of (sm_retired sm) i = Some r"
    for P i r using map_of_erase_if_SomeD [OF D(3)] by blast
  have gone': "map_of (map_erase_if P (map_erase j (sm_retired sm))) i = Some r \<Longrightarrow>
      i \<noteq> j \<and> map_of (sm_retired sm) i = Some r" for P i j r
    using map_of_erase_if_SomeD [OF map_ok_erase [OF D(3)]] by (fastforce split: if_splits)
  show ?thesis
  proof (cases "map_of (sm_sessions sm) peer")
    case None
    then show ?thesis
      using gone by (intro windows_kept_shrink) (auto simp: remove_session_def Let_def)
  next
    case (Some s)
    let ?sm' = "remove_session peer sm"
    have sess: "map_of (sm_sessions ?sm') = (map_of (sm_sessions sm))(peer := None)"
      and idx: "map_of (sm_session_to_peer ?sm') = (map_of (sm_session_to_peer sm))(ss_id s := None)"
      and ret: "sm_retired ?sm' = map_erase_if (\<lambda>(_, r). ss_peer_id (rs_session r) = peer)
          (map_erase (ss_id s) (sm_retired sm))"
      by (simp_all add: remove_session_def Let_def Some)
    show ?thesis
    proof (rule windows_keptI)
      fix i p x assume "map_of (sm_session_to_peer ?sm') i = Some p" "map_of (sm_sessions ?sm') p = Some x"
      then have "map_of (sm_session_to_peer sm) i = Some p" "map_of (sm_sessions sm) p = Some x"
        by (auto simp: sess idx split: if_splits)
      then show "\<exists>s. session_of_id sm i = Some s \<and> same_window s x"
        by (auto simp: session_of_id_active)
    next
      fix i r assume "map_of (sm_retired ?sm') i = Some r"
      then have "map_of (sm_retired sm) i = Some r" using gone' unfolding ret by blast
      then show "\<exists>s. session_of_id sm i = Some s \<and> same_window s (rs_session r)"
        by (simp add: session_of_id_retired [OF ok])
    qed
  qed
qed

lemma windows_kept_encrypt:
  assumes ok: "sm_ok sm"
  shows "windows_kept {} sm (snd (encrypt_message crypto random peer t pt f sm))"
  using encrypt_message_state [of crypto random peer t pt f sm]
proof
  assume "\<exists>s. find_session_locked peer sm = Some s \<and>
      snd (encrypt_message crypto random peer t pt f sm) =
        sm\<lparr>sm_sessions := map_put peer (s\<lparr>ss_send_seq := ss_send_seq s + 1\<rparr>) (sm_sessions sm)\<rparr>"
  then show ?thesis
    by (auto simp: windows_kept_def session_of_id_def same_window_def find_session_locked_def
        split: option.splits if_splits)
qed simp

text \<open>A new session starts with an empty window; the one it supersedes keeps its
  window in the retired buffer.\<close>

lemma windows_establish:
  assumes ok: "sm_ok sm" and fresh: "map_of (sm_session_to_peer sm) sid = None"
  shows "windows_kept {sid} sm (establish_session now peer sid split init sm)" (is "windows_kept _ _ ?sm'")
    and "session_of_id (establish_session now peer sid split init sm) sid = Some s' \<Longrightarrow>
      ss_recv_last s' = 0 \<and> ss_recv_window s' = 0"
proof -
  note new = established_state_new [of now peer sid split init sm]
    and sess = establish_session_tables(1) [OF ok, of now peer sid split init]
    and idx = establish_session_tables(4) [OF ok, of now peer sid split init]
    and ret = establish_session_tables(8) [OF ok, of now peer sid split init]
  note D = sm_okD [OF ok]
  show "windows_kept {sid} sm ?sm'"
  proof (rule windows_keptI)
    fix i p x assume i: "i \<notin> {sid}" and p: "map_of (sm_session_to_peer ?sm') i = Some p"
      and x: "map_of (sm_sessions ?sm') p = Some x"
    have p': "map_of (sm_session_to_peer sm) i = Some p"
      and ne: "map_of (sm_sessions sm) peer = Some old \<Longrightarrow> ss_id old \<noteq> i" for old
      using i p unfolding idx by (auto split: option.splits if_splits)
    have "p \<noteq> peer" using D(7) [OF p'] ne by blast
    then show "\<exists>s. session_of_id sm i = Some s \<and> same_window s x"
      using x p' unfolding sess by (simp add: session_of_id_active)
  next
    fix i r assume "map_of (sm_retired ?sm') i = Some r"
    from ret [OF this] show "\<exists>s. session_of_id sm i = Some s \<and> same_window s (rs_session r)"
    proof
      assume "map_of (sm_retired sm) i = Some r"
      then show ?thesis by (simp add: session_of_id_retired [OF ok])
    next
      assume a: "map_of (sm_sessions sm) peer = Some (rs_session r) \<and> i = ss_id (rs_session r)"
      then have "map_of (sm_session_to_peer sm) i = Some peer" using D(6) by blast
      then show ?thesis using a by (simp add: session_of_id_active)
    qed
  qed
  show "ss_recv_last s' = 0 \<and> ss_recv_window s' = 0" if "session_of_id ?sm' sid = Some s'"
  proof -
    have "map_of (sm_session_to_peer ?sm') sid = Some peer" unfolding idx by (simp split: option.split)
    then have "s' = established_state now peer sid split init sm"
      using that sess by (simp add: session_of_id_active)
    then show ?thesis using new by (simp add: new_session_def)
  qed
qed

lemma windows_delivered:
  assumes ok: "sm_ok sm" and f: "find_session_by_id_locked i sm = Some (ref, s)"
  shows "windows_kept {i} sm (store_session ref (update_replay s q) sm)"
    and "session_of_id (store_session ref (update_replay s q) sm) i = Some s' \<Longrightarrow> s' = update_replay s q"
proof -
  note D = sm_okD [OF ok]
  have id: "ss_id s = i" using find_session_by_id_ok(2) [OF ok f] .
  have other: "p \<noteq> ss_peer_id s" if "map_of (sm_session_to_peer sm) j = Some p" "j \<noteq> i"
    "map_of (sm_sessions sm) (ss_peer_id s) = Some s" for j p
    using D(7) [OF that(1)] that(2,3) id by auto
  show "windows_kept {i} sm (store_session ref (update_replay s q) sm)"
    using find_session_by_id_ok(3) [OF ok f] other
    by (auto simp: windows_kept_def session_of_id_def same_window_def split: option.splits if_splits)
  show "s' = update_replay s q" if "session_of_id (store_session ref (update_replay s q) sm) i = Some s'"
    using that find_session_by_id_ok(3) [OF ok f]
    by (auto simp: session_of_id_def split: option.splits if_splits)
qed

section \<open>At-most-once delivery\<close>

definition log_ok :: "'hs SessionManager \<Rightarrow> (u32 \<Rightarrow> nat set) \<Rightarrow> bool" where
  "log_ok sm log \<longleftrightarrow> (\<forall>i s. session_of_id sm i = Some s \<longrightarrow> replay_rel s (log i))"

lemma log_ok_kept:
  assumes "log_ok sm log" "windows_kept t sm sm'"
    and "\<And>i s. i \<in> t \<Longrightarrow> session_of_id sm' i = Some s \<Longrightarrow> replay_rel s (log' i)"
    and "\<And>i. i \<notin> t \<Longrightarrow> log' i = log i"
  shows "log_ok sm' log'"
  unfolding log_ok_def
proof (intro allI impI)
  fix i s assume s: "session_of_id sm' i = Some s"
  show "replay_rel s (log' i)"
  proof (cases "i \<in> t")
    case False
    then obtain s0 where "session_of_id sm i = Some s0" "same_window s0 s"
      using assms(2) s by (auto simp: windows_kept_def)
    then show ?thesis
      using assms(1,4) False by (auto simp: log_ok_def same_window_def intro: replay_rel_cong)
  qed (use s assms(3) in blast)
qed

lemma unat_frame_seq: "unat (frame_seq hdr) = unat (ph_sequence_number hdr)"
proof -
  have "unat (ph_sequence_number hdr) < 2 ^ LENGTH(32)" by (rule unsigned_less)
  then show ?thesis by (simp add: frame_seq_def unsigned_ucast_eq take_bit_nat_eq_self)
qed

lemma frame_seq_small: "unat (frame_seq hdr) + REPLAY_BITS < 2 ^ 64"
proof -
  have "unat (ph_sequence_number hdr) < 2 ^ LENGTH(32)" by (rule unsigned_less)
  then show ?thesis by (simp add: unat_frame_seq)
qed

lemma authenticates_fresh:
  assumes "sm_ok sm" "log_ok sm log" "authenticates crypto data sm hdr ref s"
  shows "replay_spec (log (ph_session_id hdr)) (unat (ph_sequence_number hdr))"
proof -
  have "session_of_id sm (ph_session_id hdr) = Some s"
    using assms(1,3) find_session_by_id_ok(1) by (auto simp: authenticates_def)
  then have "replay_rel s (log (ph_session_id hdr))"
    using assms(2) by (simp add: log_ok_def)
  from check_replay_spec [OF this frame_seq_small] show ?thesis
    using assms(3) by (simp add: authenticates_def unat_frame_seq)
qed

lemma log_ok_delivered:
  assumes ok: "sm_ok sm" and log: "log_ok sm log" and auth: "authenticates crypto data sm hdr ref s"
  shows "log_ok (snd (decrypt_message crypto data sm))
    (log_event (Delivered (ph_session_id hdr) (unat (ph_sequence_number hdr))) log)"
proof -
  have f: "find_session_by_id_locked (ph_session_id hdr) sm = Some (ref, s)"
    using auth by (simp add: authenticates_def)
  have "replay_rel s (log (ph_session_id hdr))"
    using log find_session_by_id_ok(1) [OF ok f] by (simp add: log_ok_def)
  then have "replay_rel (update_replay s (frame_seq hdr))
      (insert (unat (ph_sequence_number hdr)) (log (ph_session_id hdr)))"
    using update_replay_rel authenticates_fresh [OF ok log auth] by (metis unat_frame_seq)
  then show ?thesis
    unfolding decrypt_message_authentic [OF auth]
    using windows_delivered(2) [OF ok f]
    by (intro log_ok_kept [OF log windows_delivered(1) [OF ok f]]) auto
qed

lemma log_ok_created:
  assumes ok: "sm_ok sm" and log: "log_ok sm log" and fresh: "map_of (sm_session_to_peer sm) sid = None"
  shows "log_ok (establish_session now peer sid split init sm) (log_event (Created sid) log)"
  using windows_establish(2) [OF ok fresh, of now peer split init]
  by (intro log_ok_kept [OF log windows_establish(1) [OF ok fresh]]) (auto intro: replay_rel_initial)

lemma log_ok_quiet: "log_ok sm log \<Longrightarrow> windows_kept {} sm sm' \<Longrightarrow> log_ok sm' log"
  using log_ok_kept [of sm log "{}" sm' log] by simp

lemma sm_step_log:
  assumes step: "sm_step noise crypto sm ev sm'" and ok: "sm_ok sm" and log: "log_ok sm log"
  shows "log_ok sm' (log_event ev log)"
proof -
  let ?p = "purge_incomplete_handshakes_locked"
  note kept = windows_kept_quiet windows_kept_purge [OF ok] windows_kept_remove [OF ok]
    windows_kept_encrypt [OF ok]
  have log1: "log_ok (?p now sm) log" for now
    using log_ok_quiet [OF log kept(8)] by simp
  have erase: "windows_kept {} sm ((?p now sm)\<lparr>sm_pending_initiators := x\<rparr>)" for now x
    by (rule windows_kept_shrink) simp_all
  from step show ?thesis
  proof cases
    case (resp_established now msg sid)
    then show ?thesis
    proof (cases rule: handle_resp_cases [of noise crypto now msg sid sm])
      case (established q split sm1)
      note t = sm_ok_resp_tables [OF ok established(2,1)]
      have "log_ok sm1 log" using log_ok_quiet [OF log erase] established(1) by simp
      then show ?thesis using log_ok_created [OF t(1) _ t(2)] established(4) resp_established by simp
    qed simp
  next
    case (resp_failed now msg sid)
    then show ?thesis
      using log_ok_quiet [OF log erase] log1
      by (cases rule: handle_resp_cases [of noise crypto now msg sid sm]) auto
  next
    case (init_committed now sid peer split)
    then have "sm' = establish_session now peer sid split False (?p now sm)"
      and "map_of (sm_session_to_peer (?p now sm)) sid = None"
      by (auto simp: handshake_init_commit_def Let_def map_contains_iff split: if_splits)
    then show ?thesis using log_ok_created [OF sm_ok_purge(2) [OF ok] log1] init_committed(1) by simp
  next
    case (init_not_committed now sid peer split)
    then have "sm' = ?p now sm"
      by (auto simp: handshake_init_commit_def Let_def split: if_splits)
    then show ?thesis using log1 init_not_committed by simp
  next
    case (decrypt_authentic data hdr ref s)
    then show ?thesis using log_ok_delivered [OF ok log] by simp
  next
    case (decrypt_rejected data)
    then show ?thesis using log decrypt_message_rejected [of crypto data sm] by simp
  qed (auto intro: log_ok_quiet [OF log] kept)
qed

lemma sm_reach_log: "sm_reach noise crypto sm log \<Longrightarrow> log_ok sm log"
proof (induction rule: sm_reach.induct)
  case (start nid net priv cap bucket)
  then show ?case by (simp add: log_ok_def session_of_id_def new_SessionManager_def)
next
  case (step sm log ev sm')
  then show ?case using sm_step_log sm_reach_ok by blast
qed

end
