(* ===== verification/Instances.thy ===== *)
theory Instances
  imports Session_Invariant
begin

text \<open>
  Concrete parameters for the witnesses: a cipher that returns the plaintext
  with a key-derived tag, hashes that return their input, and a Noise engine
  whose messages carry the static key.  They satisfy the hypotheses the
  properties place on the real libraries and evaluate by simplification.
\<close>

definition demo_crypto :: crypto_api where
  "demo_crypto =
    \<lparr>hash_public_key = (\<lambda>k. k),
     transcript_hash = (\<lambda>m. Some m),
     aead_encrypt = (\<lambda>key nonce aad pt. Some (pt, take 16 (key @ replicate 16 0))),
     aead_decrypt = (\<lambda>key nonce aad ct tag.
        if tag = take 16 (key @ replicate 16 0) then Some ct else None)\<rparr>"

definition demo_random :: "nat \<Rightarrow> bytes option" where
  "demo_random n = Some (replicate n 0xAA)"

text \<open>A handshake state holds the own private key, the remote static key and a
  flag telling the initiator from the responder; the public key of a private
  key is the key itself.\<close>

type_synonym demo_hs = "bytes \<times> public_key \<times> bool"

definition demo_noise :: "demo_hs noise_api" where
  "demo_noise =
    \<lparr>create_initiator = (\<lambda>priv remote prologue rnd. Some (priv, remote, True)),
     create_responder = (\<lambda>priv prologue rnd. Some (priv, [], False)),
     write_message = (\<lambda>(priv, remote, initiator).
        Some (take (if initiator then 96 else 48) (priv @ replicate 96 0), (priv, remote, initiator))),
     read_message = (\<lambda>m (priv, remote, initiator).
        Some (priv, (if initiator then remote else take 32 m), initiator)),
     remote_static_public_key = (\<lambda>(priv, remote, initiator). Some remote),
     split_keys = (\<lambda>(priv, remote, initiator).
        Some (if initiator then (replicate 32 3, replicate 32 4)
              else (replicate 32 4, replicate 32 3)))\<rparr>"

definition demo_key :: "byte \<Rightarrow> bytes" where
  "demo_key b = replicate 32 b"

definition demo_caps :: SessionCapacityLimits where
  "demo_caps = \<lparr>cap_active = 2, cap_retired = 1, cap_pending = 2\<rparr>"

definition demo_manager :: "byte \<Rightarrow> demo_hs SessionManager" where
  "demo_manager b = new_SessionManager (demo_key b) (demo_key 9) (demo_key b) demo_caps 32"

text \<open>A manager of node 1 with an established session 7 with node 2.\<close>

definition demo_session :: "demo_hs SessionManager" where
  "demo_session = snd (handshake_init_commit 100 7 (demo_key 2) (demo_key 3, demo_key 3)
     (demo_manager 1))"

definition demo_frame :: bytes where
  "demo_frame = the (fst (encrypt_message demo_crypto demo_random (demo_key 2) TYPE_DATA [1, 2, 3] 0
     demo_session))"

lemma demo_aead_correct: "aead_correct demo_crypto"
  by (simp add: aead_correct_def demo_crypto_def min_def)

lemma demo_random_fills: "random_fills demo_random"
  by (simp add: random_fills_def demo_random_def)

lemma demo_session_committed:
  "handshake_init_commit 100 7 (demo_key 2) (demo_key 3, demo_key 3) (demo_manager 1) =
     (True, demo_session)"
  by code_simp

lemma demo_session_reach: "sm_reach demo_noise demo_crypto demo_session (\<lambda>_. {})"
proof -
  have "sm_reach demo_noise demo_crypto (demo_manager 1) (\<lambda>_. {})"
    unfolding demo_manager_def by (rule sm_reach.start)
  from sm_reach.step [OF this sm_step.init_committed [OF demo_session_committed]]
  show ?thesis by (simp add: fun_upd_idem)
qed

end
