(* ===== verification/Session_Properties.thy ===== *)
theory Session_Properties
  imports Instances
begin

text \<open>
  Properties of the session layer: at-most-once delivery under every
  interleaving of the manager's operations, consistency and capacity of its
  tables, the encrypt/decrypt round trip, nonce uniqueness, the resolution of
  simultaneous handshakes, the INIT replay cache, and the key agreement of the
  two ends after a handshake.
\<close>

section \<open>Tables and replay protection\<close>

text \<open>C2: in every state the session manager can reach, under any interleaving
  of its locked sections, an active session belongs to exactly one id and
  peer, a retired or pending id is never active, and the three tables stay
  within their configured capacities.\<close>

theorem session_tables_consistent:
  assumes "sm_reach noise crypto sm log"
  shows "index_ok sm \<and> capacity_ok sm"
  using sm_reach_ok [OF assms] by (simp add: sm_ok_def)

theorem session_tables_consistent_witness:
  "active_session_count demo_session = 1 \<and> index_ok demo_session \<and> capacity_ok demo_session"
proof -
  have "active_session_count demo_session = 1" by code_simp
  then show ?thesis using session_tables_consistent [OF demo_session_reach] by simp
qed

text \<open>C1: a frame is delivered at most once.  Whenever the manager returns the
  payload of a frame, the frame's sequence number was not authenticated before
  under the same session (and is no more than 2047 below the highest one), and
  delivering it adds the number to the log, so it can never be delivered again
  until the id is given to a new session.\<close>

theorem session_at_most_once:
  assumes "sm_reach noise crypto sm log" and "decrypt_message crypto data sm = (Some m, sm')"
  shows "\<exists>hdr. check_frame data = Some hdr \<and>
    unat (ph_sequence_number hdr) \<notin> log (ph_session_id hdr) \<and>
    (\<forall>n \<in> log (ph_session_id hdr). n < unat (ph_sequence_number hdr) + REPLAY_BITS) \<and>
    sm_reach noise crypto sm' (log(ph_session_id hdr :=
      insert (unat (ph_sequence_number hdr)) (log (ph_session_id hdr))))"
proof (cases rule: decrypt_message_cases [of crypto data sm])
  case rejected
  then show ?thesis using assms(2) by simp
next
  case (authentic hdr ref s)
  have "replay_spec (log (ph_session_id hdr)) (unat (ph_sequence_number hdr))"
    using authenticates_fresh [OF sm_reach_ok [OF assms(1)] sm_reach_log [OF assms(1)] authentic(1)] .
  moreover have "sm_reach noise crypto sm' (log(ph_session_id hdr :=
      insert (unat (ph_sequence_number hdr)) (log (ph_session_id hdr))))"
    using sm_reach.step [OF assms(1) sm_step.decrypt_authentic [OF authentic(1)]] assms(2) by simp
  ultimately show ?thesis
    using authentic(1) by (auto simp: authenticates_def replay_spec_def)
qed

theorem session_at_most_once_witness:
  "\<exists>m sm'. decrypt_message demo_crypto demo_frame demo_session = (Some m, sm') \<and>
     (\<exists>hdr. check_frame demo_frame = Some hdr \<and>
        sm_reach demo_noise demo_crypto sm'
          ((\<lambda>_. {})(ph_session_id hdr := {unat (ph_sequence_number hdr)})))"
proof -
  have "fst (decrypt_message demo_crypto demo_frame demo_session) \<noteq> None" by code_simp
  then obtain m sm' where d: "decrypt_message demo_crypto demo_frame demo_session = (Some m, sm')"
    by (cases "decrypt_message demo_crypto demo_frame demo_session") auto
  show ?thesis using d session_at_most_once [OF demo_session_reach d] by auto
qed

section \<open>Data path\<close>

text \<open>C4: what one end encrypts, the other end decrypts: if the receiver knows
  the sender's session id, its receive key is the sender's send key and the
  sequence number passes its window, decryption returns exactly the packet
  type and the payload that were encrypted.\<close>

theorem session_roundtrip:
  assumes "random_fills random" and "aead_correct crypto"
    and "encrypt_message crypto random peer t pt f smA = (Some frame, smA')"
    and "find_session_locked peer smA = Some a"
    and "find_session_by_id_locked (ss_id a) smB = Some (ref, b)"
    and "ss_recv_key b = ss_send_key a"
    and "check_replay b (ucast (ucast (ss_send_seq a) :: u32))"
    and "f AND NOT PACKET_KNOWN_FLAGS = 0"
  shows "fst (decrypt_message crypto frame smB) = Some \<lparr>dm_packet_type = t, dm_payload = pt\<rparr>"
  using decrypt_encrypted [OF assms] by simp

theorem session_roundtrip_witness:
  "fst (decrypt_message demo_crypto demo_frame demo_session) =
     Some \<lparr>dm_packet_type = TYPE_DATA, dm_payload = [1, 2, 3]\<rparr>"
proof -
  let ?enc = "encrypt_message demo_crypto demo_random (demo_key 2) TYPE_DATA [1, 2, 3] 0 demo_session"
  have "fst ?enc = Some demo_frame" by code_simp
  then have e: "?enc = (Some demo_frame, snd ?enc)" by (metis prod.collapse)
  define a where "a = the (find_session_locked (demo_key 2) demo_session)"
  have a: "find_session_locked (demo_key 2) demo_session = Some a"
    unfolding a_def by code_simp
  have b: "find_session_by_id_locked (ss_id a) demo_session = Some (Active (demo_key 2), a)"
    unfolding a_def by code_simp
  have k: "ss_recv_key a = ss_send_key a" unfolding a_def by code_simp
  have r: "check_replay a (ucast (ucast (ss_send_seq a) :: u32))" unfolding a_def by code_simp
  show ?thesis
    using session_roundtrip [OF demo_random_fills demo_aead_correct e a b k r] by simp
qed

fun encrypt_run ::
    "crypto_api \<Rightarrow> (nat \<Rightarrow> bytes option) \<Rightarrow> node_id \<Rightarrow> (byte \<times> bytes \<times> byte) list
     \<Rightarrow> 'hs SessionManager \<Rightarrow> bytes list" where
  "encrypt_run crypto random peer [] sm = []"
| "encrypt_run crypto random peer ((t, pt, f) # ms) sm =
    (case encrypt_message crypto random peer t pt f sm of
       (None, sm) \<Rightarrow> encrypt_run crypto random peer ms sm
     | (Some frame, sm) \<Rightarrow> frame # encrypt_run crypto random peer ms sm)"

definition frame_nonce :: "bytes \<Rightarrow> bytes" where
  "frame_nonce frame = take 12 (drop PACKET_HEADER_SIZE frame)"

lemma frame_nonce_session_frame:
  "frame_nonce (session_frame s t f p ct tag) = session_nonce (ss_id s) (ss_send_seq s)"
  by (simp add: frame_nonce_def session_frame_def)

lemma find_session_after_encrypt:
  assumes "find_session_locked peer sm = Some s"
  shows "find_session_locked peer (sm\<lparr>sm_sessions := map_put peer
      (s\<lparr>ss_send_seq := ss_send_seq s + 1\<rparr>) (sm_sessions sm)\<rparr>) =
    Some (s\<lparr>ss_send_seq := ss_send_seq s + 1\<rparr>)"
  using assms by (auto simp: find_session_locked_def split: option.splits if_splits)

lemma encrypt_message_step:
  assumes "find_session_locked peer sm = Some s"
    and "encrypt_message crypto random peer t pt f sm = (r, sm')"
  shows "\<exists>s'. find_session_locked peer sm' = Some s' \<and> ss_id s' = ss_id s \<and>
      (ss_send_seq s' = ss_send_seq s \<and> r = None \<or>
       ss_send_seq s' = ss_send_seq s + 1 \<and>
       (\<forall>frame. r = Some frame \<longrightarrow> frame_nonce frame = session_nonce (ss_id s) (ss_send_seq s)))"
proof (cases r)
  case None
  have "sm' = sm \<or> sm' = sm\<lparr>sm_sessions := map_put peer
      (s\<lparr>ss_send_seq := ss_send_seq s + 1\<rparr>) (sm_sessions sm)\<rparr>"
    using encrypt_message_state [of crypto random peer t pt f sm] assms by simp
  then show ?thesis
  proof
    assume "sm' = sm"
    then show ?thesis using assms(1) None by simp
  next
    assume "sm' = sm\<lparr>sm_sessions := map_put peer
      (s\<lparr>ss_send_seq := ss_send_seq s + 1\<rparr>) (sm_sessions sm)\<rparr>"
    then show ?thesis using find_session_after_encrypt [OF assms(1)] None by simp
  qed
next
  case (Some frame)
  then show ?thesis
    using assms find_session_after_encrypt [OF assms(1)]
    by (auto simp: encrypt_message_Some_iff Let_def frame_nonce_session_frame)
qed

lemma encrypt_run_nonces:
  assumes "find_session_locked peer sm = Some s" and "unat (ss_send_seq s) + length ms \<le> 2 ^ 64"
  shows "distinct (map frame_nonce (encrypt_run crypto random peer ms sm)) \<and>
    set (map frame_nonce (encrypt_run crypto random peer ms sm)) \<subseteq>
      session_nonce (ss_id s) ` {q. unat (ss_send_seq s) \<le> unat q}"
  using assms
proof (induction ms arbitrary: sm s)
  case (Cons m ms)
  obtain t pt f where m: "m = (t, pt, f)" by (metis prod.exhaust)
  obtain r sm' where e: "encrypt_message crypto random peer t pt f sm = (r, sm')" by fastforce
  from encrypt_message_step [OF Cons.prems(1) e] obtain s' where
    s': "find_session_locked peer sm' = Some s'" "ss_id s' = ss_id s"
    and c: "ss_send_seq s' = ss_send_seq s \<and> r = None \<or> ss_send_seq s' = ss_send_seq s + 1 \<and>
       (\<forall>frame. r = Some frame \<longrightarrow> frame_nonce frame = session_nonce (ss_id s) (ss_send_seq s))" by blast
  show ?case
  proof (cases "ms = []")
    case True
    then show ?thesis using c by (auto simp: m e split: option.splits)
  next
    case False
    then have "0 < length ms" by simp
    then have "Suc (unat (ss_send_seq s)) < 2 ^ 64" using Cons.prems(2) by (cases ms) auto
    then have inc: "unat (ss_send_seq s + 1) = Suc (unat (ss_send_seq s))"
      by (simp add: unat_word_ariths)
    have "unat (ss_send_seq s') + length ms \<le> 2 ^ 64" using c inc Cons.prems(2) by auto
    from Cons.IH [OF s'(1) this] c inc s'(2) show ?thesis
      by (auto simp: m e split: option.splits)
  qed
qed simp

text \<open>C5: no nonce is used twice under a session key: over any sequence of
  encryptions to a peer (successful or not, fewer than the 64-bit counter has
  left), the nonces of the frames produced are pairwise distinct.\<close>

theorem session_nonces_distinct:
  assumes "find_session_locked peer sm = Some s"
    and "unat (ss_send_seq s) + length ms \<le> 2 ^ 64"
  shows "distinct (map frame_nonce (encrypt_run crypto random peer ms sm))"
  using encrypt_run_nonces [OF assms] by blast

theorem session_nonces_distinct_witness:
  "let frames = encrypt_run demo_crypto demo_random (demo_key 2)
      [(TYPE_DATA, [1], 0), (TYPE_DATA, [1], 0)] demo_session
   in length frames = 2 \<and> distinct (map frame_nonce frames)"
proof -
  define s where "s = the (find_session_locked (demo_key 2) demo_session)"
  have s: "find_session_locked (demo_key 2) demo_session = Some s" unfolding s_def by code_simp
  have "ss_send_seq s = 0" unfolding s_def by code_simp
  then have b: "unat (ss_send_seq s) +
      length [(TYPE_DATA, [1::byte], 0::byte), (TYPE_DATA, [1], 0)] \<le> 2 ^ 64" by simp
  have "length (encrypt_run demo_crypto demo_random (demo_key 2)
      [(TYPE_DATA, [1], 0), (TYPE_DATA, [1], 0)] demo_session) = 2" by code_simp
  then show ?thesis using session_nonces_distinct [OF s b] by (simp add: Let_def)
qed


section \<open>Handshakes\<close>

definition pending_with :: "time \<Rightarrow> node_id \<Rightarrow> 'hs SessionManager \<Rightarrow> bool" where
  "pending_with now peer sm \<longleftrightarrow>
    (\<exists>(i, p) \<in> set (sm_pending_initiators sm). pi_expected_peer_id p = peer \<and> now < pi_expires p)"

lemma find_pending:
  "find (\<lambda>(_, p). pi_expected_peer_id p = peer)
      (sm_pending_initiators (purge_handshake_replays_locked now (purge_incomplete_handshakes_locked now sm)))
    = None \<longleftrightarrow> \<not> pending_with now peer sm"
  by (auto simp: find_None_iff pending_with_def purge_incomplete_handshakes_locked_def
      map_erase_if_def not_le)

lemma claim_result:
  assumes "map_of (sm_sessions sm) peer = None"
    and "\<not> map_contains key (sm_handshake_replays (purge_handshake_replays_locked now sm))"
    and "length (sm_sessions sm) < cap_active (sm_capacity sm)"
  shows "fst (handshake_init_claim now key peer sm) \<longleftrightarrow>
    \<not> (sm_node_id sm < peer \<and> pending_with now peer sm)"
proof -
  have "\<not> map_contains key (sm_handshake_replays
      (purge_handshake_replays_locked now (purge_incomplete_handshakes_locked now sm)))"
    using assms(2) by (simp add: purge_handshake_replays_locked_def)
  then show ?thesis
    using assms find_pending [of peer now sm]
    by (auto simp: handshake_init_claim_def Let_def split: option.split)
qed


definition demo_initiated :: "byte \<Rightarrow> byte \<Rightarrow> u32 \<Rightarrow> demo_hs SessionManager" where
  "demo_initiated own peer sid = snd (create_handshake_init demo_noise demo_crypto [] 100 sid
     (demo_key peer) (demo_key peer) (demo_manager own))"

lemma demo_initiated_eq:
  "demo_initiated 1 2 7 = (demo_manager 1)\<lparr>sm_pending_initiators :=
     [(7, \<lparr>pi_expected_peer_id = demo_key 2, pi_expected_peer_static = demo_key 2,
           pi_handshake = (demo_key 1, demo_key 2, True), pi_expires = 15100\<rparr>)]\<rparr>"
  "demo_initiated 2 1 8 = (demo_manager 2)\<lparr>sm_pending_initiators :=
     [(8, \<lparr>pi_expected_peer_id = demo_key 1, pi_expected_peer_static = demo_key 1,
           pi_handshake = (demo_key 2, demo_key 1, True), pi_expires = 15100\<rparr>)]\<rparr>"
  by code_simp+


text \<open>An INIT that authenticated cannot be replayed: after the claim phase
  ran for its transcript hash, the same message is refused by the admission
  phase for as long as the replay entry lives.\<close>

theorem init_replay_refused:
  assumes "transcript_hash crypto message = Some key"
    and "\<not> map_contains key (sm_handshake_replays (purge_handshake_replays_locked now sm))"
    and "sm_ok sm" and "now' < now + sm_handshake_replay_ttl sm"
  shows "fst (handshake_init_admit crypto now' message sid
    (snd (handshake_init_claim now key peer sm))) = None"
proof -
  let ?sm' = "snd (handshake_init_claim now key peer sm)"
  have fresh: "\<not> map_contains key (sm_handshake_replays
      (purge_handshake_replays_locked now (purge_incomplete_handshakes_locked now sm)))"
    using assms(2) by (simp add: purge_handshake_replays_locked_def)
  then have "map_of (sm_handshake_replays ?sm') key = Some (now + sm_handshake_replay_ttl sm)"
    by (simp add: handshake_init_claim_def Let_def split: option.split)
  then have "map_contains key (sm_handshake_replays (purge_handshake_replays_locked now'
      (purge_incomplete_handshakes_locked now' ?sm')))"
    using assms(4) map_of_erase_if [OF sm_okD(5) [OF sm_ok_claim [OF assms(3)]]]
    by (simp add: map_contains_iff purge_handshake_replays_locked_def)
  then show ?thesis
    using assms(1) by (simp add: handshake_init_admit_def Let_def split: option.split)
qed

theorem init_replay_refused_witness:
  "\<exists>msg. fst (handshake_init_admit demo_crypto 150 msg 7 (demo_manager 2)) \<noteq> None \<and>
     fst (handshake_init_admit demo_crypto 150 msg 7
       (snd (handshake_init_claim 100 msg (demo_key 1) (demo_manager 2)))) = None"
proof -
  define msg where "msg = the (fst (create_handshake_init demo_noise demo_crypto [] 100 7
     (demo_key 2) (demo_key 2) (demo_manager 1)))"
  have "fst (handshake_init_admit demo_crypto 150 msg 7 (demo_manager 2)) \<noteq> None"
    unfolding msg_def by code_simp
  moreover have "fst (handshake_init_admit demo_crypto 150 msg 7
       (snd (handshake_init_claim 100 msg (demo_key 1) (demo_manager 2)))) = None"
    by (rule init_replay_refused)
      (simp_all add: demo_crypto_def demo_manager_def sm_ok_new,
       simp_all add: new_SessionManager_def purge_handshake_replays_locked_def map_erase_if_def)
  ultimately show ?thesis by blast
qed



text \<open>What Noise IK promises two honest parties that use the same prologue: each
  side reads the other's message, learns the other's static key, and the two
  splits are the same pair of keys in opposite order.  \<open>pub\<close> maps a private key
  to its public key.\<close>

definition noise_ik_correct :: "'hs noise_api \<Rightarrow> (bytes \<Rightarrow> public_key) \<Rightarrow> bool" where
  "noise_ik_correct noise pub \<longleftrightarrow>
    (\<forall>privI privR prologue r1 r2 i0 m1 i1 r0.
       create_initiator noise privI (pub privR) prologue r1 = Some i0 \<longrightarrow>
       write_message noise i0 = Some (m1, i1) \<longrightarrow>
       create_responder noise privR prologue r2 = Some r0 \<longrightarrow>
       (\<exists>r1'. read_message noise m1 r0 = Some r1' \<and>
          remote_static_public_key noise r1' = Some (pub privI) \<and>
          (\<forall>m2 r2'. write_message noise r1' = Some (m2, r2') \<longrightarrow>
             (\<exists>i2 k1 k2. read_message noise m2 i1 = Some i2 \<and>
                remote_static_public_key noise i2 = Some (pub privR) \<and>
                split_keys noise i2 = Some (k1, k2) \<and> split_keys noise r2' = Some (k2, k1)))))"

lemma create_init_SomeD:
  assumes "create_handshake_init noise crypto rnd now sid peer static a = (Some msg, a')"
  obtains prologue i0 m1 i1 where
    "sid \<noteq> 0" "peer = hash_public_key crypto static"
    "make_handshake_v2_prologue (sm_network_id a) sid = Some prologue"
    "create_initiator noise (sm_private_key a) static prologue rnd = Some i0"
    "write_message noise i0 = Some (m1, i1)" "length m1 = HANDSHAKE_V2_INIT_NOISE_SIZE"
    "serialize_handshake_v2_init
       \<lparr>hi_session_id = sid, hi_network_id = sm_network_id a, hi_noise_message = m1\<rparr> = Some msg"
    "a' = (purge_incomplete_handshakes_locked now a)\<lparr>sm_pending_initiators := map_put sid
       \<lparr>pi_expected_peer_id = peer, pi_expected_peer_static = static, pi_handshake = i1,
        pi_expires = now + sm_handshake_timeout a\<rparr>
       (sm_pending_initiators (purge_incomplete_handshakes_locked now a))\<rparr>"
  using assms
  by (auto simp: create_handshake_init_def prepare_handshake_init_def Let_def bind_eq_Some_conv
      split: option.splits if_splits)

lemma handle_init_SomeD:
  assumes "handle_handshake_init noise crypto rnd t1 t2 t3 msg sid b = (Some resp, b')"
  obtains frame key r1 b1 b2 m2 r2 split where
    "parse_handshake_v2_init msg = Some frame" "hi_session_id frame = sid"
    "hi_network_id frame = sm_network_id b"
    "handshake_init_read noise crypto rnd frame b1 =
       Some (r1, resp_peer_static_public_key resp, resp_peer_id resp)"
    "sm_network_id b1 = sm_network_id b" "sm_private_key b1 = sm_private_key b"
    "write_message noise r1 = Some (m2, r2)" "length m2 = HANDSHAKE_V2_RESPONSE_NOISE_SIZE"
    "split_keys noise r2 = Some split"
    "serialize_handshake_v2_response \<lparr>hr_session_id = sid, hr_noise_message = m2\<rparr> =
       Some (resp_message resp)"
    "handshake_init_commit t3 sid (resp_peer_id resp) split b2 = (True, b')"
  using assms
  by (auto simp: handle_handshake_init_def handshake_init_admit_def handshake_init_write_def
      Let_def bind_eq_Some_conv purge_incomplete_handshakes_locked_def
      purge_handshake_replays_locked_def split: option.splits if_splits prod.splits bool.splits)

lemma find_session_established:
  "\<exists>s. find_session_locked peer (establish_session now peer sid split init sm) = Some s \<and>
     new_session now peer sid split init s"
  by (simp add: find_session_locked_def establish_session_def create_session_def
      install_noise_keys_def new_session_def Let_def split: option.split)

lemma find_by_id_established:
  "find_session_by_id_locked sid (establish_session now peer sid split init sm) =
     map_option (\<lambda>s. (Active peer, s))
       (find_session_locked peer (establish_session now peer sid split init sm))"
  by (simp add: find_session_by_id_locked_def establish_session_def create_session_def Let_def
      split: option.split)

text \<open>The run of a handshake between an initiator \<open>a\<close> and a responder \<open>b\<close> whose
  INIT and response are delivered in time, the peer having room for the session.\<close>

definition handshake_run ::
    "'hs noise_api \<Rightarrow> crypto_api \<Rightarrow> (bytes \<Rightarrow> public_key) \<Rightarrow> u32 \<Rightarrow> 'hs SessionManager \<Rightarrow>
     'hs SessionManager \<Rightarrow> bool \<Rightarrow> 'hs SessionManager \<Rightarrow> 'hs SessionManager \<Rightarrow> bool" where
  "handshake_run noise crypto pub sid a b ok a2 b1 \<longleftrightarrow>
    sm_node_id a = hash_public_key crypto (pub (sm_private_key a)) \<and>
    sm_node_id b = hash_public_key crypto (pub (sm_private_key b)) \<and>
    sm_network_id a = sm_network_id b \<and> length (sm_network_id a) = NETWORK_ID_SIZE \<and>
    map_of (sm_sessions a) (sm_node_id b) = None \<and>
    length (sm_sessions a) < cap_active (sm_capacity a) \<and>
    (\<exists>rnd1 rnd2 t0 t1 t2 t3 t4 msg a1 resp.
       t4 < t0 + sm_handshake_timeout a \<and>
       create_handshake_init noise crypto rnd1 t0 sid (sm_node_id b) (pub (sm_private_key b)) a =
         (Some msg, a1) \<and>
       handle_handshake_init noise crypto rnd2 t1 t2 t3 msg sid b = (Some resp, b1) \<and>
       handle_handshake_resp noise crypto t4 (resp_message resp) sid a1 = (ok, a2))"

lemma handshake_run_agrees:
  assumes noise: "noise_ik_correct noise pub" and ok: "sm_ok a"
    and run: "handshake_run noise crypto pub sid a b success a2 b1"
  shows "success \<and> (\<exists>sa sb. find_session_locked (sm_node_id b) a2 = Some sa \<and>
      find_session_by_id_locked sid b1 = Some (Active (sm_node_id a), sb) \<and>
      ss_id sa = sid \<and> ss_id sb = sid \<and>
      ss_recv_key sb = ss_send_key sa \<and> ss_recv_key sa = ss_send_key sb \<and>
      ss_send_seq sa = 0 \<and> ss_recv_last sb = 0 \<and> ss_recv_window sb = 0)"
proof -
  from run obtain rnd1 rnd2 t0 t1 t2 t3 t4 msg a1 resp where
    ids: "sm_node_id a = hash_public_key crypto (pub (sm_private_key a))"
      "sm_node_id b = hash_public_key crypto (pub (sm_private_key b))"
    and net: "sm_network_id a = sm_network_id b" "length (sm_network_id a) = NETWORK_ID_SIZE"
    and free: "map_of (sm_sessions a) (sm_node_id b) = None"
      "length (sm_sessions a) < cap_active (sm_capacity a)"
    and time: "t4 < t0 + sm_handshake_timeout a"
    and init: "create_handshake_init noise crypto rnd1 t0 sid (sm_node_id b)
        (pub (sm_private_key b)) a = (Some msg, a1)"
    and resp: "handle_handshake_init noise crypto rnd2 t1 t2 t3 msg sid b = (Some resp, b1)"
    and fin: "handle_handshake_resp noise crypto t4 (resp_message resp) sid a1 = (success, a2)"
    unfolding handshake_run_def by blast
  from create_init_SomeD [OF init] obtain prologue i0 m1 i1 where
    i: "sid \<noteq> 0" "sm_node_id b = hash_public_key crypto (pub (sm_private_key b))"
      "make_handshake_v2_prologue (sm_network_id a) sid = Some prologue"
      "create_initiator noise (sm_private_key a) (pub (sm_private_key b)) prologue rnd1 = Some i0"
      "write_message noise i0 = Some (m1, i1)" "length m1 = HANDSHAKE_V2_INIT_NOISE_SIZE"
      "serialize_handshake_v2_init
         \<lparr>hi_session_id = sid, hi_network_id = sm_network_id a, hi_noise_message = m1\<rparr> = Some msg"
    and a1: "a1 = (purge_incomplete_handshakes_locked t0 a)\<lparr>sm_pending_initiators := map_put sid
       \<lparr>pi_expected_peer_id = sm_node_id b, pi_expected_peer_static = pub (sm_private_key b),
        pi_handshake = i1, pi_expires = t0 + sm_handshake_timeout a\<rparr>
       (sm_pending_initiators (purge_incomplete_handshakes_locked t0 a))\<rparr>"
    by (rule create_init_SomeD [OF init])
  have parsed: "parse_handshake_v2_init msg =
      Some \<lparr>hi_session_id = sid, hi_network_id = sm_network_id a, hi_noise_message = m1\<rparr>"
    using init_codec.dec_enc [OF _ i(7)] i(1,6) net by (simp add: wf_init_frame_def)
  from handle_init_SomeD [OF resp] obtain frame key r1 b0 b2 m2 r2 split where
    frame: "parse_handshake_v2_init msg = Some frame" "hi_session_id frame = sid"
      "hi_network_id frame = sm_network_id b"
    and r: "handshake_init_read noise crypto rnd2 frame b0 =
         Some (r1, resp_peer_static_public_key resp, resp_peer_id resp)"
      "sm_network_id b0 = sm_network_id b" "sm_private_key b0 = sm_private_key b"
      "write_message noise r1 = Some (m2, r2)" "length m2 = HANDSHAKE_V2_RESPONSE_NOISE_SIZE"
      "split_keys noise r2 = Some split"
      "serialize_handshake_v2_response \<lparr>hr_session_id = sid, hr_noise_message = m2\<rparr> =
         Some (resp_message resp)"
    and commit: "handshake_init_commit t3 sid (resp_peer_id resp) split b2 = (True, b1)"
    by (rule handle_init_SomeD [OF resp])
  have m1: "hi_noise_message frame = m1" using parsed frame(1) by simp
  from r(1-3) i(3) net m1 frame(2) obtain r0 where
    r0: "create_responder noise (sm_private_key b) prologue rnd2 = Some r0"
      "read_message noise m1 r0 = Some r1" "remote_static_public_key noise r1 = Some (resp_peer_static_public_key resp)"
    and peer: "resp_peer_id resp = hash_public_key crypto (resp_peer_static_public_key resp)"
    by (auto simp: handshake_init_read_def bind_eq_Some_conv split: if_splits)
  from noise [unfolded noise_ik_correct_def, rule_format, OF i(4,5) r0(1)]
  have static: "remote_static_public_key noise r1 = Some (pub (sm_private_key a))"
    and ex: "\<exists>i2 k1 k2. read_message noise m2 i1 = Some i2 \<and>
        remote_static_public_key noise i2 = Some (pub (sm_private_key b)) \<and>
        split_keys noise i2 = Some (k1, k2) \<and> split_keys noise r2 = Some (k2, k1)"
    using r0(2) r(4) by auto
  from ex obtain i2 k1 k2 where n: "resp_peer_static_public_key resp = pub (sm_private_key a)"
      "read_message noise m2 i1 = Some i2" "remote_static_public_key noise i2 = Some (pub (sm_private_key b))"
      "split_keys noise i2 = Some (k1, k2)" "split = (k2, k1)"
    using static r0(3) r(6) by auto
  have pend: "map_of (sm_pending_initiators (purge_incomplete_handshakes_locked t4 a1)) sid =
      Some \<lparr>pi_expected_peer_id = sm_node_id b, pi_expected_peer_static = pub (sm_private_key b),
        pi_handshake = i1, pi_expires = t0 + sm_handshake_timeout a\<rparr>"
  proof -
    have "map_ok (sm_pending_initiators a1)"
      using sm_okD(4) [OF sm_ok_purge(2) [OF ok]] by (auto simp: a1)
    then show ?thesis
      using time by (simp add: purge_incomplete_handshakes_locked_def [of t4] map_of_erase_if a1)
  qed
  have rp: "parse_handshake_v2_response (resp_message resp) =
      Some \<lparr>hr_session_id = sid, hr_noise_message = m2\<rparr>"
    using response_codec.dec_enc [OF _ r(7)] i(1) r(5) by (simp add: wf_response_frame_def)
  have A: "success" "\<exists>x. a2 = establish_session t4 (sm_node_id b) sid (k1, k2) True x"
    using fin pend rp n(2-4) free ids(2)
    by (auto simp: handle_handshake_resp_def Let_def a1 split: option.splits if_splits)
  have B: "\<exists>x. b1 = establish_session t3 (sm_node_id a) sid (k2, k1) False x"
    using commit n(1,5) peer ids(1)
    by (auto simp: handshake_init_commit_def Let_def split: if_splits)
  obtain sa where sa: "find_session_locked (sm_node_id b) a2 = Some sa"
      "new_session t4 (sm_node_id b) sid (k1, k2) True sa"
    using A(2) find_session_established [of "sm_node_id b" t4 sid "(k1, k2)" True] by blast
  obtain sb where sb: "find_session_by_id_locked sid b1 = Some (Active (sm_node_id a), sb)"
      "new_session t3 (sm_node_id a) sid (k2, k1) False sb"
  proof -
    from B obtain x where x: "b1 = establish_session t3 (sm_node_id a) sid (k2, k1) False x" by blast
    show thesis
      using find_session_established [of "sm_node_id a" t3 sid "(k2, k1)" False x] that
      by (auto simp: x find_by_id_established)
  qed
  show ?thesis using A(1) sa sb by (simp add: new_session_def)
qed


definition demo_pub :: "bytes \<Rightarrow> public_key" where
  "demo_pub priv = take 32 (priv @ replicate 96 0)"

lemma demo_noise_correct: "noise_ik_correct demo_noise demo_pub"
  by (auto simp: noise_ik_correct_def demo_noise_def demo_pub_def min_def)

definition demo_init :: "bytes option \<times> demo_hs SessionManager" where
  "demo_init = create_handshake_init demo_noise demo_crypto [] 100 7 (demo_key 2) (demo_key 2)
     (demo_manager 1)"

definition demo_resp :: "HandshakeResponse option \<times> demo_hs SessionManager" where
  "demo_resp = handle_handshake_init demo_noise demo_crypto [] 110 120 130 (the (fst demo_init)) 7
     (demo_manager 2)"

definition demo_done :: "bool \<times> demo_hs SessionManager" where
  "demo_done = handle_handshake_resp demo_noise demo_crypto 140
     (resp_message (the (fst demo_resp))) 7 (snd demo_init)"

lemma demo_run:
  "handshake_run demo_noise demo_crypto demo_pub 7 (demo_manager 1) (demo_manager 2)
     (fst demo_done) (snd demo_done) (snd demo_resp)"
proof -
  let ?a = "demo_manager 1" and ?b = "demo_manager 2"
  have s: "fst demo_init \<noteq> None" "fst demo_resp \<noteq> None" by code_simp+
  have "create_handshake_init demo_noise demo_crypto [] 100 7 (demo_key 2) (demo_key 2) ?a =
      (Some (the (fst demo_init)), snd demo_init)"
    using s by (simp flip: demo_init_def)
  moreover have "handle_handshake_init demo_noise demo_crypto [] 110 120 130 (the (fst demo_init)) 7 ?b =
      (Some (the (fst demo_resp)), snd demo_resp)"
    using s by (simp flip: demo_resp_def)
  moreover have "handle_handshake_resp demo_noise demo_crypto 140
      (resp_message (the (fst demo_resp))) 7 (snd demo_init) = (fst demo_done, snd demo_done)"
    by (simp add: demo_done_def)
  moreover have "sm_node_id ?a = demo_key 1" "sm_node_id ?b = demo_key 2"
    "demo_pub (sm_private_key ?a) = demo_key 1" "demo_pub (sm_private_key ?b) = demo_key 2"
    "hash_public_key demo_crypto k = k" for k
    by (simp_all add: demo_manager_def new_SessionManager_def demo_pub_def demo_key_def demo_crypto_def)
  moreover have "map_of (sm_sessions ?a) (demo_key 2) = None" "length (sm_sessions ?a) < cap_active (sm_capacity ?a)"
    "sm_network_id ?a = sm_network_id ?b" "length (sm_network_id ?a) = NETWORK_ID_SIZE"
    "(140::int) < 100 + sm_handshake_timeout ?a"
    by (simp_all add: demo_manager_def new_SessionManager_def demo_key_def demo_caps_def)
  ultimately show ?thesis unfolding handshake_run_def by metis
qed


end
