(* ===== verification/Onion.thy ===== *)
theory Onion
  imports Session_Frames
begin

text \<open>
  \<open>src/packet/relay.cpp\<close>: building and peeling of onion-routed packets.  The
  process-wide nonce counter is threaded through \<open>build_onion\<close>.  X25519 and
  SHA-256 are parameters (\<open>onion_api\<close>); the AEAD is the one of the session layer,
  without associated data.
\<close>

section \<open>Definitions\<close>

record onion_api =
  x25519_derive_shared_secret :: "bytes \<Rightarrow> public_key \<Rightarrow> bytes option"
  sha256 :: "bytes \<Rightarrow> bytes option"

abbreviation ONION_NEXT_HOP_SIZE :: nat where "ONION_NEXT_HOP_SIZE \<equiv> NODE_ID_SIZE"
abbreviation ONION_NONCE_SIZE :: nat where "ONION_NONCE_SIZE \<equiv> 12"
abbreviation ONION_TAG_SIZE :: nat where "ONION_TAG_SIZE \<equiv> 16"
abbreviation RELAY_CONTENT_IP_PACKET :: byte where "RELAY_CONTENT_IP_PACKET \<equiv> 1"
abbreviation RELAY_CONTENT_PATH_PROBE :: byte where "RELAY_CONTENT_PATH_PROBE \<equiv> 2"

definition layer_key :: "onion_api \<Rightarrow> bytes \<Rightarrow> public_key \<Rightarrow> bytes option" where
  "layer_key api my_priv hop_pub = do {
     shared \<leftarrow> x25519_derive_shared_secret api my_priv hop_pub;
     sha256 api (ascii ''aegis-onion-v1'' @ shared) }"

definition make_nonce :: "u32 \<Rightarrow> u64 \<Rightarrow> bytes \<times> u64" where
  "make_nonce layer counter =
    (map (\<lambda>i. ucast (drop_bit (i * 8) counter)) [0..<8] @
     [ucast (drop_bit 24 layer), ucast (drop_bit 16 layer), ucast (drop_bit 8 layer), ucast layer],
     counter + 1)"

definition next_hop_of :: "node_id list \<Rightarrow> nat \<Rightarrow> node_id" where
  "next_hop_of path i = (if i + 1 < length path then path ! (i + 1) else replicate NODE_ID_SIZE 0)"

text \<open>The body of the loop over the hops, for hop \<open>i\<close>.\<close>

definition wrap_layer ::
    "crypto_api \<Rightarrow> onion_api \<Rightarrow> bytes \<Rightarrow> node_id list \<Rightarrow> public_key list \<Rightarrow> nat \<Rightarrow> bytes \<Rightarrow> u64
     \<Rightarrow> bytes option \<times> u64" where
  "wrap_layer crypto api priv path path_pubkeys i inner counter =
    (let next_hop = next_hop_of path i
     in case do {
          w \<leftarrow> write_bytes next_hop (WireWriter (replicate (ONION_NEXT_HOP_SIZE + length inner) 0));
          w \<leftarrow> write_bytes inner w;
          if wr_finished w then Some (wr_bytes w) else None } of
        None \<Rightarrow> (None, counter)
      | Some plaintext \<Rightarrow>
          (case layer_key api priv (path_pubkeys ! i) of
             None \<Rightarrow> (None, counter)
           | Some key \<Rightarrow>
               let (nonce, counter) = make_nonce (of_nat i) counter
               in case aead_encrypt crypto key nonce [] plaintext of
                    None \<Rightarrow> (None, counter)
                  | Some (ct, tag) \<Rightarrow>
                      (do {
                         w \<leftarrow> write_bytes nonce
                               (WireWriter (replicate (ONION_NONCE_SIZE + length ct + ONION_TAG_SIZE) 0));
                         w \<leftarrow> write_bytes ct w;
                         w \<leftarrow> write_bytes tag w;
                         if wr_finished w then Some (wr_bytes w) else None }, counter)))"

text \<open>\<open>for (i = path.size(); i-- > 0;)\<close>\<close>

fun wrap_layers ::
    "crypto_api \<Rightarrow> onion_api \<Rightarrow> bytes \<Rightarrow> node_id list \<Rightarrow> public_key list \<Rightarrow> nat \<Rightarrow> bytes \<Rightarrow> u64
     \<Rightarrow> bytes option \<times> u64" where
  "wrap_layers crypto api priv path path_pubkeys 0 inner counter = (Some inner, counter)"
| "wrap_layers crypto api priv path path_pubkeys (Suc i) inner counter =
    (case wrap_layer crypto api priv path path_pubkeys i inner counter of
       (None, counter) \<Rightarrow> (None, counter)
     | (Some blob, counter) \<Rightarrow> wrap_layers crypto api priv path path_pubkeys i blob counter)"

definition build_onion ::
    "crypto_api \<Rightarrow> onion_api \<Rightarrow> bytes \<Rightarrow> node_id list \<Rightarrow> public_key list \<Rightarrow> bytes \<Rightarrow> u64
     \<Rightarrow> bytes option \<times> u64" where
  "build_onion crypto api priv path path_pubkeys packet counter =
    (if path = [] \<or> length path \<noteq> length path_pubkeys \<or> length path > ONION_MAX_HOPS
     then (None, counter)
     else if packet = [] then (None, counter)
     else wrap_layers crypto api priv path path_pubkeys (length path) packet counter)"

record PeeledOnion =
  po_next_hop :: node_id
  po_inner :: bytes

definition peel_onion ::
    "crypto_api \<Rightarrow> onion_api \<Rightarrow> bytes \<Rightarrow> public_key \<Rightarrow> bytes \<Rightarrow> PeeledOnion option" where
  "peel_onion crypto api priv source_public_key blob =
    (if length blob < ONION_OVERHEAD then None
     else do {
       let ct_len = length blob - ONION_NONCE_SIZE - ONION_TAG_SIZE;
       (nonce, r) \<leftarrow> read_bytes ONION_NONCE_SIZE (WireReader blob);
       (ciphertext, r) \<leftarrow> read_bytes ct_len r;
       (tag, r) \<leftarrow> read_bytes ONION_TAG_SIZE r;
       if \<not> rd_finished r then None
       else do {
         key \<leftarrow> layer_key api priv source_public_key;
         pt \<leftarrow> aead_decrypt crypto key nonce [] ciphertext tag;
         (next_hop, r) \<leftarrow> read_bytes ONION_NEXT_HOP_SIZE (WireReader pt);
         (inner, r) \<leftarrow> read_bytes (rd_remaining r) r;
         if rd_finished r
         then Some \<lparr>po_next_hop = next_hop, po_inner = drop ONION_NEXT_HOP_SIZE pt\<rparr>
         else None } })"

section \<open>One layer\<close>

text \<open>Diffie-Hellman is symmetric in the two parties; \<open>pub\<close> maps private to public keys.\<close>

definition dh_symmetric :: "onion_api \<Rightarrow> (bytes \<Rightarrow> public_key) \<Rightarrow> bool" where
  "dh_symmetric api pub \<longleftrightarrow>
    (\<forall>a b. x25519_derive_shared_secret api a (pub b) = x25519_derive_shared_secret api b (pub a))"

lemma length_make_nonce [simp]: "length (fst (make_nonce l c)) = 12"
  by (simp add: make_nonce_def)

lemma make_nonce_counter: "snd (make_nonce l c) = c + 1"
  by (simp add: make_nonce_def)

lemma wrap_layer_Some:
  assumes "wrap_layer crypto api priv path keys i inner c = (Some blob, c')"
    and "length (next_hop_of path i) = NODE_ID_SIZE"
  obtains key ct tag where
    "layer_key api priv (keys ! i) = Some key"
    "aead_encrypt crypto key (fst (make_nonce (of_nat i) c)) [] (next_hop_of path i @ inner) = Some (ct, tag)"
    "length tag = ONION_TAG_SIZE"
    "blob = fst (make_nonce (of_nat i) c) @ ct @ tag" "c' = c + 1"
  using assms
  by (auto simp: wrap_layer_def Let_def wire_simps make_nonce_counter case_prod_beta split: option.splits if_splits)

lemma peel_wrapped:
  assumes crypto: "aead_correct crypto" "dh_symmetric api pub"
    and wrap: "wrap_layer crypto api priv path keys i inner c = (Some blob, c')"
    and hop: "keys ! i = pub hop_priv" "length (next_hop_of path i) = NODE_ID_SIZE"
  shows "peel_onion crypto api hop_priv (pub priv) blob =
      Some \<lparr>po_next_hop = next_hop_of path i, po_inner = inner\<rparr>"
    and "length blob = length inner + ONION_OVERHEAD"
proof -
  from wrap_layer_Some [OF wrap hop(2)] obtain key ct tag where
    e: "layer_key api priv (keys ! i) = Some key"
      "aead_encrypt crypto key (fst (make_nonce (of_nat i) c)) [] (next_hop_of path i @ inner) = Some (ct, tag)"
      "length tag = ONION_TAG_SIZE" "blob = fst (make_nonce (of_nat i) c) @ ct @ tag"
    by metis
  have key: "layer_key api hop_priv (pub priv) = Some key"
    using e(1) crypto(2) unfolding hop(1) by (simp add: layer_key_def dh_symmetric_def)
  have ct: "length ct = 32 + length inner"
    "aead_decrypt crypto key (fst (make_nonce (of_nat i) c)) [] ct tag = Some (next_hop_of path i @ inner)"
    using crypto(1) e(2) hop(2) unfolding aead_correct_def by fastforce+
  show "length blob = length inner + ONION_OVERHEAD"
    using e(3,4) ct(1) by simp
  show "peel_onion crypto api hop_priv (pub priv) blob =
      Some \<lparr>po_next_hop = next_hop_of path i, po_inner = inner\<rparr>"
    using ct key e(3) hop(2)
    by (simp add: peel_onion_def e(4) Let_def wire_simps)
qed

section \<open>The whole path\<close>

text \<open>Every hop in turn peels its layer; the result is the packet the last hop
  sees and the next hops read on the way.\<close>

fun peel_path ::
    "crypto_api \<Rightarrow> onion_api \<Rightarrow> public_key \<Rightarrow> bytes list \<Rightarrow> bytes \<Rightarrow> (node_id list \<times> bytes) option" where
  "peel_path crypto api src [] blob = Some ([], blob)"
| "peel_path crypto api src (priv # privs) blob = do {
     peeled \<leftarrow> peel_onion crypto api priv src blob;
     (hops, packet) \<leftarrow> peel_path crypto api src privs (po_inner peeled);
     Some (po_next_hop peeled # hops, packet) }"

lemma peel_path_append:
  "peel_path crypto api src (xs @ ys) blob = do {
     (h1, b) \<leftarrow> peel_path crypto api src xs blob;
     (h2, p) \<leftarrow> peel_path crypto api src ys b;
     Some (h1 @ h2, p) }"
  by (induction xs arbitrary: blob) (auto simp: bind_eq_Some_conv split: Option.bind_splits)

lemma next_hop_of_length:
  "\<forall>h \<in> set path. length h = NODE_ID_SIZE \<Longrightarrow> length (next_hop_of path i) = NODE_ID_SIZE"
  by (simp add: next_hop_of_def)

lemma wrap_layers_peel:
  assumes "aead_correct crypto" "dh_symmetric api pub" "\<forall>h \<in> set path. length h = NODE_ID_SIZE"
    and "wrap_layers crypto api priv path keys n inner c = (Some blob, c')"
    and "n \<le> length privs" "\<forall>i < n. keys ! i = pub (privs ! i)"
  shows "peel_path crypto api (pub priv) (take n privs) blob = Some (map (next_hop_of path) [0..<n], inner)
    \<and> length blob = length inner + n * ONION_OVERHEAD"
  using assms(4-6)
proof (induction n arbitrary: inner c)
  case (Suc i)
  from Suc.prems(1) obtain b c1 where
    w: "wrap_layer crypto api priv path keys i inner c = (Some b, c1)"
      "wrap_layers crypto api priv path keys i b c1 = (Some blob, c')"
    by (auto split: prod.splits option.splits)
  have k: "keys ! i = pub (privs ! i)" using Suc.prems(3) by simp
  note p = peel_wrapped [OF assms(1,2) w(1) k next_hop_of_length [OF assms(3)]]
  have ih: "peel_path crypto api (pub priv) (take i privs) blob = Some (map (next_hop_of path) [0..<i], b)"
    "length blob = length b + i * ONION_OVERHEAD"
    using Suc.IH [OF w(2)] Suc.prems(2,3) by simp_all
  show ?case
    using Suc.prems(2) ih p by (simp add: take_Suc_conv_app_nth peel_path_append)
qed simp

end
