(* ===== verification/Ip_Packet.thy ===== *)
theory Ip_Packet
  imports Aegis_Prelude
begin

text \<open>
  \<open>src/packet/packet.cpp\<close>: the Internet checksum, the IPv4 header parser and the
  check a decrypted packet passes before it is injected into the adapter.  The
  checksum reads 16-bit words in host order, which is little-endian on every
  platform the program targets.
\<close>

section \<open>Definitions\<close>

fun sum_words :: "u32 \<Rightarrow> bytes \<Rightarrow> u32" where
  "sum_words s (lo # hi # rest) = sum_words (s + (ucast lo OR push_bit 8 (ucast hi))) rest"
| "sum_words s [b] = s + ucast b"
| "sum_words s [] = s"

lemma fold_step_less:
  fixes s :: u32
  assumes "drop_bit 16 s \<noteq> 0"
  shows "unat ((s AND 0xFFFF) + drop_bit 16 s) < unat s"
    and "unat ((s AND 0xFFFF) + drop_bit 16 s) = unat s mod 65536 + unat s div 65536"
proof -
  have bound: "unat s < 4294967296" using unsigned_less [of s] by simp
  have lo: "unat (s AND 0xFFFF) = unat s mod 65536"
  proof -
    have "s AND 0xFFFF = take_bit 16 s" by (simp add: take_bit_eq_mask mask_eq_exp_minus_1)
    then show ?thesis by (simp only: unsigned_take_bit_eq) (simp add: take_bit_eq_mod)
  qed
  have hi: "unat (drop_bit 16 s) = unat s div 65536"
    unfolding unat_drop_bit_eq by (simp add: drop_bit_eq_div)
  have pos: "0 < unat s div 65536"
    using assms hi by (metis gr0I unsigned_eq_0_iff)
  have sum: "unat ((s AND 0xFFFF) + drop_bit 16 s) = (unat s mod 65536 + unat s div 65536) mod 4294967296"
    by (simp add: unat_word_ariths lo hi)
  show eq: "unat ((s AND 0xFFFF) + drop_bit 16 s) = unat s mod 65536 + unat s div 65536"
    unfolding sum using bound by simp
  show "unat ((s AND 0xFFFF) + drop_bit 16 s) < unat s"
    unfolding eq using pos div_mult_mod_eq [of "unat s" 65536] by linarith
qed

function fold_sum :: "u32 \<Rightarrow> u32" where
  "fold_sum s = (if drop_bit 16 s = 0 then s else fold_sum ((s AND 0xFFFF) + drop_bit 16 s))"
  by pat_completeness auto
termination
  by (relation "measure unat") (simp_all add: fold_step_less(1) del: unat_plus_simple)

declare fold_sum.simps [simp del]

definition ip_checksum :: "bytes \<Rightarrow> u16" where
  "ip_checksum data = ucast (fold_sum (sum_words 0 data))"

record IPPacket =
  ip_version_ihl :: byte
  ip_dscp_ecn :: byte
  ip_total_length :: u16
  ip_identification :: u16
  ip_flags_fragment_offset :: u16
  ip_ttl :: byte
  ip_protocol :: byte
  ip_header_checksum :: u16
  ip_source_ip :: u32
  ip_dest_ip :: u32
  ip_payload :: bytes

definition be16_at :: "bytes \<Rightarrow> nat \<Rightarrow> u16" where
  "be16_at data i = push_bit 8 (ucast (data ! i)) OR ucast (data ! (i + 1))"

definition be32_at :: "bytes \<Rightarrow> nat \<Rightarrow> u32" where
  "be32_at data i = push_bit 24 (ucast (data ! i)) OR push_bit 16 (ucast (data ! (i + 1))) OR
     push_bit 8 (ucast (data ! (i + 2))) OR ucast (data ! (i + 3))"

definition parse_ip_packet :: "bytes \<Rightarrow> IPPacket option" where
  "parse_ip_packet data =
    (if length data < 20 then None
     else if drop_bit 4 (data ! 0) \<noteq> 4 then None
     else let ihl = data ! 0 AND 0x0F in
       if ihl < 5 then None
       else let header_len = unat ihl * 4 in
         if header_len > length data then None
         else let total_len = be16_at data 2 in
           if unat total_len < header_len \<or> unat total_len > length data then None
           else if ip_checksum (take header_len data) \<noteq> 0xFFFF then None
           else Some \<lparr>ip_version_ihl = data ! 0, ip_dscp_ecn = data ! 1,
                  ip_total_length = total_len, ip_identification = be16_at data 4,
                  ip_flags_fragment_offset = be16_at data 6, ip_ttl = data ! 8,
                  ip_protocol = data ! 9, ip_header_checksum = be16_at data 10,
                  ip_source_ip = be32_at data 12, ip_dest_ip = be32_at data 16,
                  ip_payload = take (unat total_len - header_len) (drop header_len data)\<rparr>)"

datatype InnerPacketStatus = Valid | Invalid | Oversize

text \<open>The source's null pointer is \<open>None\<close>, which comes with a length of its own.\<close>

definition validate_inner_ipv4_packet :: "bytes option \<Rightarrow> nat \<Rightarrow> nat \<Rightarrow> InnerPacketStatus" where
  "validate_inner_ipv4_packet data len mtu =
    (if len > mtu then Oversize
     else case data of
       None \<Rightarrow> Invalid
     | Some bytes \<Rightarrow>
         (case parse_ip_packet bytes of
            None \<Rightarrow> Invalid
          | Some packet \<Rightarrow> if unat (ip_total_length packet) \<noteq> len then Invalid else Valid))"

section \<open>The checksum is the one's complement sum\<close>

text \<open>The sum of the 16-bit words of a header in network byte order, as RFC 1071
  and RFC 791 define it.\<close>

fun be_sum :: "bytes \<Rightarrow> nat" where
  "be_sum (a # b # rest) = 256 * unat a + unat b + be_sum rest"
| "be_sum [a] = 256 * unat a"
| "be_sum [] = 0"

fun le_sum :: "bytes \<Rightarrow> nat" where
  "le_sum (a # b # rest) = unat a + 256 * unat b + le_sum rest"
| "le_sum [a] = unat a"
| "le_sum [] = 0"

lemma le_sum_bound: "le_sum h \<le> 65535 * ((length h + 1) div 2)"
proof (induction h rule: le_sum.induct)
  case (1 a b rest)
  then show ?case using unat_byte_less [of a] unat_byte_less [of b] by simp
next
  case (2 a)
  then show ?case using unat_byte_less [of a] by simp
qed simp

lemma byte_or_add: "(ucast (a :: byte) OR push_bit 8 (ucast (b :: byte)) :: u32) = ucast a + push_bit 8 (ucast b)"
proof -
  have "(ucast a AND push_bit 8 (ucast b) :: u32) = 0"
    by (rule bit_word_eqI) (auto simp: bit_simps dest: bit_imp_le_length)
  then show ?thesis
    using word_plus_and_or [of "ucast a" "push_bit 8 (ucast b) :: u32"] by simp
qed

lemma unat_le_word:
  "unat (ucast (a :: byte) OR push_bit 8 (ucast (b :: byte)) :: u32) = unat a + 256 * unat b"
proof -
  have "(ucast a OR push_bit 8 (ucast b) :: u32) = ucast a + push_bit 8 (ucast b)"
    by (rule byte_or_add)
  then show ?thesis
    using unat_byte_less [of a] unat_byte_less [of b]
    by (simp add: unat_word_ariths push_bit_eq_mult unsigned_ucast_eq take_bit_nat_eq_self)
qed

lemma unat_sum_words:
  "unat s + le_sum h < 4294967296 \<Longrightarrow> unat (sum_words s h) = unat s + le_sum h"
proof (induction s h rule: sum_words.induct)
  case (1 s lo hi rest)
  have "unat (s + (ucast lo OR push_bit 8 (ucast hi))) = unat s + (unat lo + 256 * unat hi)"
    using 1(2) by (simp add: unat_word_ariths unat_le_word)
  then show ?case using 1 by simp
next
  case (2 s b)
  then show ?case
    by (simp add: unat_word_ariths unsigned_ucast_eq take_bit_nat_eq_self unat_byte_less)
qed simp

lemma fold_mod:
  fixes n m :: nat
  assumes "m = n mod 65536 + n div 65536" "0 < n"
  shows "0 < m" "(n - 1) mod 65535 = (m - 1) mod 65535"
proof -
  have n: "n = m + 65535 * (n div 65536)"
    using div_mult_mod_eq [of n 65536] unfolding assms(1) by linarith
  show m: "0 < m"
  proof (rule ccontr)
    assume "\<not> 0 < m"
    then have "n mod 65536 = 0" "n div 65536 = 0" using assms(1) by auto
    then show False using div_mult_mod_eq [of n 65536] assms(2) by simp
  qed
  have "n - 1 = (m - 1) + 65535 * (n div 65536)" using n m by linarith
  then show "(n - 1) mod 65535 = (m - 1) mod 65535" by (metis mod_mult_self2)
qed

lemma unat_fold_sum:
  "unat (fold_sum s) = (if unat s = 0 then 0 else (unat s - 1) mod 65535 + 1)"
proof (induction s rule: fold_sum.induct)
  case (1 s)
  show ?case
  proof (cases "drop_bit 16 s = 0")
    case True
    then have "drop_bit 16 (unat s) = 0" by (metis unat_drop_bit_eq unsigned_0)
    then have "unat s < 65536" by (simp add: drop_bit_eq_div div_eq_0_iff)
    then show ?thesis using True by (simp add: fold_sum.simps [of s])
  next
    case False
    let ?t = "(s AND 0xFFFF) + drop_bit 16 s"
    have pos: "0 < unat s" using fold_step_less(1) [OF False] by linarith
    note m = fold_mod [OF fold_step_less(2) [OF False] pos]
    have "unat (fold_sum s) = unat (fold_sum ?t)" using False by (simp add: fold_sum.simps [of s])
    also have "\<dots> = (unat ?t - 1) mod 65535 + 1" using 1 [OF False] m(1) by simp
    finally show ?thesis using pos m(2) by simp
  qed
qed

lemma le_sum_be_sum:
  "even (length h) \<Longrightarrow> \<exists>k. 256 * be_sum h = le_sum h + 65535 * k"
proof (induction h rule: be_sum.induct)
  case (1 a b rest)
  then obtain k where "256 * be_sum rest = le_sum rest + 65535 * k" by auto
  then have "256 * be_sum (a # b # rest) = le_sum (a # b # rest) + 65535 * (unat a + k)"
    by (simp add: algebra_simps)
  then show ?case ..
qed simp_all

lemma le_be_dvd:
  assumes "even (length h)"
  shows "65535 dvd le_sum h \<longleftrightarrow> 65535 dvd be_sum h"
proof -
  obtain k where "256 * be_sum h = le_sum h + 65535 * k" using le_sum_be_sum [OF assms] by blast
  then have "65535 dvd le_sum h \<longleftrightarrow> 65535 dvd 256 * be_sum h" by (simp add: dvd_add_left_iff)
  also have "\<dots> \<longleftrightarrow> 65535 dvd be_sum h"
  proof -
    have "coprime (65535 :: nat) 256" by (simp add: coprime_iff_gcd_eq_1 gcd_nat.simps [of 65535] gcd_nat.simps [of 256] gcd_nat.simps [of 255])
    then show ?thesis by (simp add: coprime_dvd_mult_right_iff)
  qed
  finally show ?thesis .
qed

lemma le_be_zero: "even (length h) \<Longrightarrow> le_sum h = 0 \<longleftrightarrow> be_sum h = 0"
  by (induction h rule: be_sum.induct) auto

lemma ip_checksum_valid_iff:
  assumes "even (length h)" "length h \<le> 131072"
  shows "ip_checksum h = 0xFFFF \<longleftrightarrow> be_sum h \<noteq> 0 \<and> 65535 dvd be_sum h"
proof -
  have le: "le_sum h < 4294967296" using le_sum_bound [of h] assms by simp
  have s: "unat (sum_words 0 h) = le_sum h" using unat_sum_words [of 0 h] le by simp
  have f: "unat (fold_sum (sum_words 0 h)) = (if le_sum h = 0 then 0 else (le_sum h - 1) mod 65535 + 1)"
    using unat_fold_sum [of "sum_words 0 h"] unfolding s .
  then have "unat (ip_checksum h) = (if le_sum h = 0 then 0 else (le_sum h - 1) mod 65535 + 1)"
    by (simp add: ip_checksum_def unsigned_ucast_eq take_bit_nat_eq_self)
  moreover have "ip_checksum h = 0xFFFF \<longleftrightarrow> unat (ip_checksum h) = 65535"
    by (simp add: word_unat_eq_iff)
  moreover have "le_sum h \<noteq> 0 \<Longrightarrow> (le_sum h - 1) mod 65535 + 1 = 65535 \<longleftrightarrow> 65535 dvd le_sum h"
    using mod_Suc [of "le_sum h - 1" 65535] by (auto simp: dvd_eq_mod_eq_0 split: if_splits)
  ultimately show ?thesis
    using le_be_zero [OF assms(1)] le_be_dvd [OF assms(1)] by (auto split: if_splits)
qed

section \<open>What the validation accepts\<close>

text \<open>A complete IPv4 packet in the sense of RFC 791: version 4, a header length
  within the packet, a header whose 16-bit words sum to a multiple of 65535, and
  a total length that is the length of the buffer.\<close>

definition well_formed_ipv4 :: "bytes \<Rightarrow> bool" where
  "well_formed_ipv4 p \<longleftrightarrow>
    20 \<le> length p \<and> unat (p ! 0) div 16 = 4 \<and> 5 \<le> unat (p ! 0) mod 16 \<and>
    unat (p ! 0) mod 16 * 4 \<le> length p \<and>
    256 * unat (p ! 2) + unat (p ! 3) = length p \<and>
    65535 dvd be_sum (take (unat (p ! 0) mod 16 * 4) p)"

lemma unat_be16_at: "unat (be16_at p i) = 256 * unat (p ! i) + unat (p ! (i + 1))"
proof -
  have "(push_bit 8 (ucast (p ! i)) AND ucast (p ! (i + 1)) :: u16) = 0"
    by (rule bit_word_eqI) (auto simp: bit_simps dest: bit_imp_le_length)
  then have "be16_at p i = push_bit 8 (ucast (p ! i)) + ucast (p ! (i + 1))"
    unfolding be16_at_def
    using word_plus_and_or [of "push_bit 8 (ucast (p ! i)) :: u16" "ucast (p ! (i + 1))"] by simp
  then show ?thesis
    using unat_byte_less [of "p ! i"] unat_byte_less [of "p ! (i + 1)"]
    by (simp add: unat_word_ariths push_bit_eq_mult unsigned_ucast_eq take_bit_nat_eq_self)
qed

lemma nibbles:
  fixes b :: byte
  shows "drop_bit 4 b = 4 \<longleftrightarrow> unat b div 16 = 4"
    and "unat (b AND 0x0F) = unat b mod 16"
    and "b AND 0x0F < 5 \<longleftrightarrow> unat b mod 16 < 5"
proof -
  have "b AND 0x0F = take_bit 4 b" by (simp add: take_bit_eq_mask mask_eq_exp_minus_1)
  then show m: "unat (b AND 0x0F) = unat b mod 16"
    by (simp only: unsigned_take_bit_eq) (simp add: take_bit_eq_mod)
  show "b AND 0x0F < 5 \<longleftrightarrow> unat b mod 16 < 5"
    unfolding word_less_nat_alt m by simp
  show "drop_bit 4 b = 4 \<longleftrightarrow> unat b div 16 = 4"
    unfolding word_unat_eq_iff unat_drop_bit_eq by (simp add: drop_bit_eq_div)
qed

lemma be_sum_pos: "0 < unat (hd h) \<Longrightarrow> h \<noteq> [] \<Longrightarrow> be_sum h \<noteq> 0"
  by (cases h rule: be_sum.cases) auto

lemma header_checksum_iff:
  assumes "20 \<le> length p" "unat (p ! 0) div 16 = 4" "5 \<le> unat (p ! 0) mod 16"
    "unat (p ! 0) mod 16 * 4 \<le> length p"
  shows "ip_checksum (take (unat (p ! 0) mod 16 * 4) p) = 0xFFFF \<longleftrightarrow>
    65535 dvd be_sum (take (unat (p ! 0) mod 16 * 4) p)"
proof -
  let ?h = "take (unat (p ! 0) mod 16 * 4) p"
  have len: "length ?h = unat (p ! 0) mod 16 * 4" using assms(4) by simp
  have "?h \<noteq> []" using assms(1,3) by (cases p) auto
  moreover have "hd ?h = p ! 0" using calculation assms(3) by (simp add: hd_conv_nth)
  moreover have "0 < unat (p ! 0)" using assms(2) by (cases "unat (p ! 0)") auto
  ultimately have "be_sum ?h \<noteq> 0" using be_sum_pos [of ?h] by simp
  moreover have "unat (p ! 0) mod 16 * 4 \<le> 131072" using mod_less_divisor [of 16 "unat (p ! 0)"] by linarith
  moreover have "even (unat (p ! 0) mod 16 * 4)" by simp
  ultimately show ?thesis using ip_checksum_valid_iff [of ?h] unfolding len by simp
qed

lemma parse_ip_packet_SomeD:
  assumes "parse_ip_packet p = Some pkt"
  shows "20 \<le> length p" "unat (p ! 0) div 16 = 4" "5 \<le> unat (p ! 0) mod 16"
    "unat (p ! 0) mod 16 * 4 \<le> length p" "ip_total_length pkt = be16_at p 2"
    "unat (be16_at p 2) \<le> length p"
    "65535 dvd be_sum (take (unat (p ! 0) mod 16 * 4) p)"
    "ip_payload pkt = take (unat (be16_at p 2) - unat (p ! 0) mod 16 * 4) (drop (unat (p ! 0) mod 16 * 4) p)"
proof -
  from assms show c: "20 \<le> length p" "unat (p ! 0) div 16 = 4" "5 \<le> unat (p ! 0) mod 16"
    "unat (p ! 0) mod 16 * 4 \<le> length p"
    by (auto simp: parse_ip_packet_def Let_def nibbles split: if_splits)
  from assms show "ip_total_length pkt = be16_at p 2" "unat (be16_at p 2) \<le> length p"
    "ip_payload pkt = take (unat (be16_at p 2) - unat (p ! 0) mod 16 * 4) (drop (unat (p ! 0) mod 16 * 4) p)"
    by (auto simp: parse_ip_packet_def Let_def nibbles split: if_splits)
  from assms have "ip_checksum (take (unat (p ! 0) mod 16 * 4) p) = 0xFFFF"
    by (auto simp: parse_ip_packet_def Let_def nibbles split: if_splits)
  then show "65535 dvd be_sum (take (unat (p ! 0) mod 16 * 4) p)"
    using header_checksum_iff [OF c] by blast
qed

lemma parse_ip_packet_complete:
  assumes "20 \<le> length p" "unat (p ! 0) div 16 = 4" "5 \<le> unat (p ! 0) mod 16"
    "unat (p ! 0) mod 16 * 4 \<le> length p" "unat (be16_at p 2) = length p"
    "65535 dvd be_sum (take (unat (p ! 0) mod 16 * 4) p)"
  shows "\<exists>pkt. parse_ip_packet p = Some pkt"
  using assms header_checksum_iff [OF assms(1-4)]
  by (simp add: parse_ip_packet_def Let_def nibbles not_less)

lemma validate_inner_iff:
  "validate_inner_ipv4_packet (Some p) (length p) mtu = Valid \<longleftrightarrow> length p \<le> mtu \<and> well_formed_ipv4 p"
proof (cases "parse_ip_packet p")
  case None
  then have "\<not> well_formed_ipv4 p"
    using parse_ip_packet_complete [of p] unat_be16_at [of p 2] by (auto simp: well_formed_ipv4_def)
  with None show ?thesis by (simp add: validate_inner_ipv4_packet_def)
next
  case (Some pkt)
  note D = parse_ip_packet_SomeD [OF Some]
  show ?thesis
    using D(1-4,7) unat_be16_at [of p 2]
    by (auto simp: validate_inner_ipv4_packet_def Some D(5) well_formed_ipv4_def)
qed

end
