(* ===== verification/Relay_Properties.thy ===== *)
theory Relay_Properties
  imports Onion Ip_Packet Instances
begin

text \<open>
  Properties of the relay layer and of the packet validation: delivery of an
  onion along its path, the nonces of onion layers, and what the inner-packet
  check accepts.
\<close>

definition demo_onion :: onion_api where
  "demo_onion =
    \<lparr>x25519_derive_shared_secret = (\<lambda>a b. Some (map2 (XOR) a b)),
     sha256 = (\<lambda>m. Some (take 32 (m @ replicate 32 0)))\<rparr>"

lemma demo_dh_symmetric: "dh_symmetric demo_onion (\<lambda>k. k)"
proof -
  have "map2 (XOR) (a :: bytes) b = map2 (XOR) b a" for a b
    by (subst zip_commute) (simp add: case_prod_beta comp_def xor.commute)
  then show ?thesis by (simp add: dh_symmetric_def demo_onion_def)
qed

section \<open>Delivery\<close>

lemma build_onion_Some_iff:
  "build_onion crypto api priv path keys packet c = (Some blob, c') \<longleftrightarrow>
    path \<noteq> [] \<and> length path = length keys \<and> length path \<le> ONION_MAX_HOPS \<and> packet \<noteq> [] \<and>
    wrap_layers crypto api priv path keys (length path) packet c = (Some blob, c')"
  by (auto simp: build_onion_def)

text \<open>C9: an onion reaches its destination: when every hop of the path peels its
  layer in turn, each hop learns the NodeID of the hop after it, the last hop
  reads the all-zero NodeID and recovers the packet byte for byte, and each
  layer costs exactly 60 bytes on the wire.\<close>

theorem onion_delivery:
  assumes "aead_correct crypto" "dh_symmetric api pub"
    and "\<forall>h \<in> set path. length h = NODE_ID_SIZE" and "keys = map pub privs"
    and "build_onion crypto api priv path keys packet c = (Some blob, c')"
  shows "peel_path crypto api (pub priv) privs blob =
      Some (tl path @ [replicate NODE_ID_SIZE 0], packet) \<and>
    length blob = length packet + length path * ONION_OVERHEAD"
proof -
  have b: "path \<noteq> []" "length path = length privs"
    "wrap_layers crypto api priv path keys (length path) packet c = (Some blob, c')"
    using assms(4,5) by (auto simp: build_onion_Some_iff)
  have hops: "map (next_hop_of path) [0..<length path] = tl path @ [replicate NODE_ID_SIZE 0]"
    using b(1) by (intro nth_equalityI) (auto simp: next_hop_of_def nth_append nth_tl)
  show ?thesis
    using wrap_layers_peel [OF assms(1-3) b(3), of privs] b(2) assms(4) hops by simp
qed

theorem onion_delivery_witness:
  "\<exists>blob c'. build_onion demo_crypto demo_onion (demo_key 1) [demo_key 2, demo_key 3]
      [demo_key 2, demo_key 3] [7, 8, 9] 0 = (Some blob, c') \<and>
    peel_path demo_crypto demo_onion (demo_key 1) [demo_key 2, demo_key 3] blob =
      Some ([demo_key 3, replicate NODE_ID_SIZE 0], [7, 8, 9])"
proof -
  have "fst (build_onion demo_crypto demo_onion (demo_key 1) [demo_key 2, demo_key 3]
      [demo_key 2, demo_key 3] [7, 8, 9] 0) \<noteq> None" by code_simp
  then obtain blob c' where b: "build_onion demo_crypto demo_onion (demo_key 1)
      [demo_key 2, demo_key 3] [demo_key 2, demo_key 3] [7, 8, 9] 0 = (Some blob, c')"
    by (metis option.collapse prod.collapse)
  have k: "\<forall>h \<in> set [demo_key 2, demo_key 3]. length h = NODE_ID_SIZE"
    by (simp add: demo_key_def)
  show ?thesis
    using b onion_delivery [OF demo_aead_correct demo_dh_symmetric k _ b, of "[demo_key 2, demo_key 3]"]
    by simp
qed

section \<open>Nonces\<close>

lemma wrap_layers_SucD:
  assumes "wrap_layers crypto api priv path keys (Suc n) inner c = (Some blob, c')"
    and "\<forall>h \<in> set path. length h = NODE_ID_SIZE"
  obtains b where "wrap_layer crypto api priv path keys n inner c = (Some b, c + 1)"
    "wrap_layers crypto api priv path keys n b (c + 1) = (Some blob, c')"
    "take 12 b = fst (make_nonce (of_nat n) c)"
proof -
  from assms(1) obtain b c1 where w: "wrap_layer crypto api priv path keys n inner c = (Some b, c1)"
    "wrap_layers crypto api priv path keys n b c1 = (Some blob, c')"
    by (auto split: prod.splits option.splits)
  from wrap_layer_Some [OF w(1) next_hop_of_length [OF assms(2)]] w that show thesis by fastforce
qed

lemma wrap_layers_outer_nonce:
  assumes "wrap_layers crypto api priv path keys (Suc n) inner c = (Some blob, c')"
    and "\<forall>h \<in> set path. length h = NODE_ID_SIZE"
  shows "take 12 blob = fst (make_nonce 0 (c + of_nat n)) \<and> c' = c + of_nat (Suc n)"
  using assms(1)
proof (induction n arbitrary: inner c)
  case 0
  from wrap_layers_SucD [OF 0 assms(2)] show ?case by auto
next
  case (Suc n)
  from wrap_layers_SucD [OF Suc.prems assms(2)] obtain b
    where "wrap_layers crypto api priv path keys (Suc n) b (c + 1) = (Some blob, c')" by metis
  from Suc.IH [OF this] show ?case by (simp add: add.assoc)
qed



lemma make_nonce_inj: "fst (make_nonce l c) = fst (make_nonce l d) \<longleftrightarrow> c = d"
proof
  assume "fst (make_nonce l c) = fst (make_nonce l d)"
  then have e: "\<And>i. i < 8 \<Longrightarrow> (ucast (drop_bit (i * 8) c) :: byte) = ucast (drop_bit (i * 8) d)"
    by (auto simp: make_nonce_def map_eq_conv append_eq_append_conv)
  show "c = d"
  proof (rule bit_word_eqI)
    fix n assume "n < LENGTH(64)"
    then have "n div 8 < 8" by simp
    from arg_cong [OF e [OF this], of "\<lambda>w. bit w (n mod 8)"]
    show "bit c n = bit d n" by (simp add: bit_simps)
  qed
qed simp

text \<open>Within one process the counter works: the outermost layers of two
  onions built one after the other never carry the same nonce, whatever their
  paths, as long as fewer than 2 to the 64 layers lie between them.\<close>

theorem onion_nonces_advance:
  assumes "\<forall>h \<in> set path1 \<union> set path2. length h = NODE_ID_SIZE"
    and "build_onion crypto api priv path1 keys1 p c = (Some x, c1)"
    and "c2 = c1 + of_nat k" "k + ONION_MAX_HOPS < 2 ^ 64"
    and "build_onion crypto api priv path2 keys2 q c2 = (Some y, c3)"
  shows "take 12 x \<noteq> take 12 y"
proof -
  obtain n m where n: "length path1 = Suc n" "length path2 = Suc m"
    using assms(2,5) by (metis build_onion_Some_iff length_0_conv not0_implies_Suc)
  have b: "Suc m \<le> ONION_MAX_HOPS"
    "wrap_layers crypto api priv path1 keys1 (Suc n) p c = (Some x, c1)"
    "wrap_layers crypto api priv path2 keys2 (Suc m) q c2 = (Some y, c3)"
    using assms(2,5) unfolding build_onion_Some_iff n by blast+
  have x: "take 12 x = fst (make_nonce 0 (c + of_nat n))" "c1 = c + of_nat (Suc n)"
    using wrap_layers_outer_nonce [OF b(2)] assms(1) by blast+
  have y: "take 12 y = fst (make_nonce 0 (c2 + of_nat m))"
    using wrap_layers_outer_nonce [OF b(3)] assms(1) by blast
  have "c2 + of_nat m = c + of_nat n + of_nat (1 + k + m)" by (simp add: assms(3) x(2))
  moreover have "(of_nat (1 + k + m) :: u64) \<noteq> 0"
  proof
    assume "(of_nat (1 + k + m) :: u64) = 0"
    then have "2 ^ 64 dvd 1 + k + m" by (simp only: word_of_nat_eq_0_iff) simp
    then show False using assms(4) b(1) by (auto dest: dvd_imp_le)
  qed
  ultimately show ?thesis unfolding x(1) y make_nonce_inj by simp
qed

theorem onion_nonces_advance_witness:
  "\<exists>x y c1 c3. build_onion demo_crypto demo_onion (demo_key 1) [demo_key 2] [demo_key 2] [7] 0 = (Some x, c1) \<and>
    build_onion demo_crypto demo_onion (demo_key 1) [demo_key 2] [demo_key 2] [7] (c1 + of_nat 0) = (Some y, c3) \<and>
    take 12 x \<noteq> take 12 y"
proof -
  define c1 :: u64 where "c1 = snd (build_onion demo_crypto demo_onion (demo_key 1) [demo_key 2] [demo_key 2] [7] 0)"
  have "fst (build_onion demo_crypto demo_onion (demo_key 1) [demo_key 2] [demo_key 2] [7] 0) \<noteq> None"
    "fst (build_onion demo_crypto demo_onion (demo_key 1) [demo_key 2] [demo_key 2] [7] (c1 + of_nat 0)) \<noteq> None"
    unfolding c1_def by code_simp+
  then obtain x y c3 where b:
    "build_onion demo_crypto demo_onion (demo_key 1) [demo_key 2] [demo_key 2] [7] 0 = (Some x, c1)"
    "build_onion demo_crypto demo_onion (demo_key 1) [demo_key 2] [demo_key 2] [7] (c1 + of_nat 0) = (Some y, c3)"
    unfolding c1_def by (metis option.collapse prod.collapse)
  have "\<forall>h \<in> set [demo_key 2] \<union> set [demo_key 2]. length h = NODE_ID_SIZE"
    by (simp add: demo_key_def)
  then have "take 12 x \<noteq> take 12 y" using onion_nonces_advance [OF _ b(1) refl _ b(2)] by simp
  with b show ?thesis by blast
qed

section \<open>Inner packets\<close>

text \<open>C11: the inner-packet check accepts exactly the complete IPv4 packets that
  fit the MTU: the sum over little-endian words that the code computes accepts
  the same headers as the big-endian one's complement sum of RFC 1071, an
  oversize buffer is reported as such, and everything else is invalid.\<close>

theorem validate_inner_characterised:
  "validate_inner_ipv4_packet (Some p) (length p) mtu =
    (if mtu < length p then Oversize else if well_formed_ipv4 p then Valid else Invalid)"
proof (cases "mtu < length p")
  case False
  then have "validate_inner_ipv4_packet (Some p) (length p) mtu \<noteq> Oversize"
    by (auto simp: validate_inner_ipv4_packet_def split: option.splits)
  then show ?thesis
    using False validate_inner_iff [of p mtu]
    by (cases "validate_inner_ipv4_packet (Some p) (length p) mtu") auto
qed (simp add: validate_inner_ipv4_packet_def)

end
