(* ===== verification/Net_Address.thy ===== *)
theory Net_Address
  imports Aegis_Prelude
begin

text \<open>
  \<open>include/aegis/net/ip_address.hpp\<close> and \<open>endpoint.hpp\<close>: family-tagged addresses,
  prefixes, interface addresses and UDP endpoints, with their parsers and
  printers.  The family is the enumeration's underlying byte, because decoders
  cast wire bytes to it before they check it.
\<close>

section \<open>Addresses\<close>

abbreviation IPv4 :: byte where "IPv4 \<equiv> 4"
abbreviation IPv6 :: byte where "IPv6 \<equiv> 6"

record IPAddress =
  addr_family :: byte
  addr_bytes :: bytes

definition default_address :: IPAddress where
  "default_address = \<lparr>addr_family = IPv4, addr_bytes = replicate 16 0\<rparr>"

definition from_ipv4 :: "u32 \<Rightarrow> IPAddress" where
  "from_ipv4 v = \<lparr>addr_family = IPv4, addr_bytes =
     [ucast (drop_bit 24 v), ucast (drop_bit 16 v), ucast (drop_bit 8 v), ucast v] @ replicate 12 0\<rparr>"

definition from_ipv6 :: "bytes \<Rightarrow> IPAddress" where
  "from_ipv6 bs = \<lparr>addr_family = IPv6, addr_bytes = bs\<rparr>"

definition valid_family :: "IPAddress \<Rightarrow> bool" where
  "valid_family a \<longleftrightarrow> addr_family a = IPv4 \<or> addr_family a = IPv6"

definition bit_width :: "IPAddress \<Rightarrow> nat" where
  "bit_width a = (if addr_family a = IPv4 then 32 else if addr_family a = IPv6 then 128 else 0)"

definition ipv4_value :: "IPAddress \<Rightarrow> u32" where
  "ipv4_value a =
    (if addr_family a \<noteq> IPv4 then 0
     else push_bit 24 (ucast (addr_bytes a ! 0)) OR push_bit 16 (ucast (addr_bytes a ! 1)) OR
          push_bit 8 (ucast (addr_bytes a ! 2)) OR ucast (addr_bytes a ! 3))"

subsection \<open>Text form\<close>

lemma tl_dropWhile_less: "xs \<noteq> [] \<Longrightarrow> length (dropWhile P xs) - Suc 0 < length xs"
  using length_dropWhile_le [of P xs] by (cases xs) auto

text \<open>The scanning loop shared by the dotted and the colon form: fields between
  separators, none empty, none longer than \<open>maxlen\<close>, at most \<open>maxcount\<close> of them.\<close>

function scan_fields ::
    "char \<Rightarrow> nat \<Rightarrow> nat \<Rightarrow> (string \<Rightarrow> 'a option) \<Rightarrow> nat \<Rightarrow> string \<Rightarrow> 'a list option" where
  "scan_fields sep maxlen maxcount conv count text =
    (if text = [] then Some []
     else let field = takeWhile (\<lambda>c. c \<noteq> sep) text; rest = dropWhile (\<lambda>c. c \<noteq> sep) text in
       if field = [] \<or> length field > maxlen \<or> count = maxcount then None
       else do {
         v \<leftarrow> conv field;
         if rest = [] then Some [v]
         else do {
           vs \<leftarrow> scan_fields sep maxlen maxcount conv (count + 1) (tl rest);
           Some (v # vs) } })"
  by pat_completeness auto
termination
  by (relation "measure (\<lambda>(sep, maxlen, maxcount, conv, count, text). length text)")
    (simp_all add: tl_dropWhile_less)

declare scan_fields.simps [simp del]

definition dec_digit :: "char \<Rightarrow> nat option" where
  "dec_digit c = (let n = of_char c in if n < 48 \<or> n > 57 then None else Some (n - 48))"

fun dec_value :: "nat \<Rightarrow> string \<Rightarrow> nat option" where
  "dec_value v [] = Some v"
| "dec_value v (c # cs) = do { d \<leftarrow> dec_digit c; dec_value (v * 10 + d) cs }"

definition parse_octet :: "string \<Rightarrow> byte option" where
  "parse_octet s = do { v \<leftarrow> dec_value 0 s; if v > 255 then None else Some (of_nat v) }"

definition hex_digit :: "char \<Rightarrow> byte option" where
  "hex_digit c = (let n = of_char c :: nat in
     if 48 \<le> n \<and> n \<le> 57 then Some (of_nat (n - 48))
     else if 97 \<le> n \<and> n \<le> 102 then Some (of_nat (n - 97 + 10))
     else if 65 \<le> n \<and> n \<le> 70 then Some (of_nat (n - 65 + 10))
     else None)"

fun hex_value :: "u16 \<Rightarrow> string \<Rightarrow> u16 option" where
  "hex_value v [] = Some v"
| "hex_value v (c # cs) = do { d \<leftarrow> hex_digit c; hex_value (push_bit 4 v OR ucast d) cs }"

definition parse_side :: "string \<Rightarrow> u16 list option" where
  "parse_side side = scan_fields CHR '':'' 4 8 (hex_value 0) 0 side"

text \<open>\<open>text.find("::")\<close>, returning what is before and after the match.\<close>

fun find_compression :: "string \<Rightarrow> (string \<times> string) option" where
  "find_compression (a # b # rest) =
    (if a = CHR '':'' \<and> b = CHR '':'' then Some ([], rest)
     else map_option (\<lambda>(l, r). (a # l, r)) (find_compression (b # rest)))"
| "find_compression _ = None"

definition group_bytes :: "u16 \<Rightarrow> bytes" where
  "group_bytes g = [ucast (drop_bit 8 g), ucast g]"

definition parse_ipv6 :: "string \<Rightarrow> IPAddress option" where
  "parse_ipv6 text =
    (let compression = find_compression text in
     if last text = CHR '':'' \<and>
        (compression = None \<or> drop (length text - 2) text \<noteq> ''::'') then None
     else do {
       groups \<leftarrow> (case compression of
          None \<Rightarrow> do {
            groups \<leftarrow> parse_side text;
            if length groups \<noteq> 8 then None else Some groups }
        | Some (before, after) \<Rightarrow>
            if find_compression after \<noteq> None then None
            else do {
              left \<leftarrow> parse_side before;
              right \<leftarrow> parse_side after;
              if length left + length right \<ge> 8 then None
              else Some (left @ replicate (8 - length left - length right) 0 @ right) });
       Some (from_ipv6 (concat (map group_bytes groups))) })"

definition parse_ipv4 :: "string \<Rightarrow> IPAddress option" where
  "parse_ipv4 text =
    (if last text = CHR ''.'' then None
     else do {
       octets \<leftarrow> scan_fields CHR ''.'' 3 4 parse_octet 0 text;
       if length octets \<noteq> 4 then None
       else Some \<lparr>addr_family = IPv4, addr_bytes = octets @ replicate 12 0\<rparr> })"

definition parse_address :: "string \<Rightarrow> IPAddress option" where
  "parse_address text =
    (if text = [] then None
     else if CHR '':'' \<notin> set text then parse_ipv4 text
     else parse_ipv6 text)"

section \<open>Prefixes\<close>

record IPPrefix =
  pfx_address :: IPAddress
  pfx_length :: byte

definition valid_prefix :: "IPPrefix \<Rightarrow> bool" where
  "valid_prefix p \<longleftrightarrow>
     valid_family (pfx_address p) \<and> unat (pfx_length p) \<le> bit_width (pfx_address p)"

definition prefix_mask :: "nat \<Rightarrow> byte" where
  "prefix_mask remaining_bits = ucast (push_bit (8 - remaining_bits) (0xff :: u32))"

definition zero_range :: "nat \<Rightarrow> nat \<Rightarrow> bytes \<Rightarrow> bytes" where
  "zero_range i j bs = fold (\<lambda>k bs. bs[k := 0]) [i..<j] bs"

definition canonicalize :: "IPPrefix \<Rightarrow> IPPrefix" where
  "canonicalize p =
    (let width = bit_width (pfx_address p); len = unat (pfx_length p) in
     if len > width then p
     else
       let full_bytes = len div 8; remaining_bits = len mod 8;
         bs = addr_bytes (pfx_address p);
         bs = (if remaining_bits \<noteq> 0
               then bs[full_bytes := bs ! full_bytes AND prefix_mask remaining_bits] else bs);
         zero_from = full_bytes + (if remaining_bits \<noteq> 0 then 1 else 0);
         bs = zero_range zero_from (width div 8) bs;
         bs = zero_range (width div 8) (length bs) bs
       in p\<lparr>pfx_address := (pfx_address p)\<lparr>addr_bytes := bs\<rparr>\<rparr>)"

definition make_prefix :: "IPAddress \<Rightarrow> byte \<Rightarrow> IPPrefix" where
  "make_prefix network prefix_length =
     canonicalize \<lparr>pfx_address = network, pfx_length = prefix_length\<rparr>"

definition prefix_contains :: "IPPrefix \<Rightarrow> IPAddress \<Rightarrow> bool" where
  "prefix_contains p candidate =
    (if \<not> valid_prefix p \<or> addr_family candidate \<noteq> addr_family (pfx_address p) then False
     else
       let full_bytes = unat (pfx_length p) div 8; remaining_bits = unat (pfx_length p) mod 8;
         a = addr_bytes (pfx_address p); c = addr_bytes candidate
       in if \<exists>i < full_bytes. a ! i \<noteq> c ! i then False
          else if remaining_bits \<noteq> 0 \<and>
            a ! full_bytes AND prefix_mask remaining_bits \<noteq> c ! full_bytes AND prefix_mask remaining_bits
          then False
          else True)"

text \<open>The digits after the slash, with the bound the loop checks at every digit.\<close>

fun prefix_digits :: "nat \<Rightarrow> nat \<Rightarrow> string \<Rightarrow> nat option" where
  "prefix_digits bound v [] = Some v"
| "prefix_digits bound v (c # cs) = do {
     d \<leftarrow> dec_digit c;
     if v * 10 + d > bound then None else prefix_digits bound (v * 10 + d) cs }"

definition split_slash :: "string \<Rightarrow> (string \<times> string) option" where
  "split_slash text =
    (let before = takeWhile (\<lambda>c. c \<noteq> CHR ''/'') text; rest = dropWhile (\<lambda>c. c \<noteq> CHR ''/'') text in
     if rest = [] \<or> before = [] \<or> tl rest = [] \<or> CHR ''/'' \<in> set (tl rest) then None
     else Some (before, tl rest))"

definition parse_prefix :: "string \<Rightarrow> IPPrefix option" where
  "parse_prefix text = do {
     (before, digits) \<leftarrow> split_slash text;
     address \<leftarrow> parse_address before;
     len \<leftarrow> prefix_digits 128 0 digits;
     if len > bit_width address then None else Some (make_prefix address (of_nat len)) }"

record IPInterfaceAddress =
  if_address :: IPAddress
  if_prefix_length :: byte

definition valid_interface :: "IPInterfaceAddress \<Rightarrow> bool" where
  "valid_interface i \<longleftrightarrow>
     valid_family (if_address i) \<and> unat (if_prefix_length i) \<le> bit_width (if_address i)"

definition parse_interface :: "string \<Rightarrow> IPInterfaceAddress option" where
  "parse_interface text = do {
     (before, digits) \<leftarrow> split_slash text;
     address \<leftarrow> parse_address before;
     len \<leftarrow> prefix_digits (bit_width address) 0 digits;
     Some \<lparr>if_address = address, if_prefix_length = of_nat len\<rparr> }"

section \<open>Endpoints\<close>

text \<open>The port is kept in network byte order, as the sources keep it; on the
  little-endian targets \<open>htons\<close> and \<open>ntohs\<close> swap the two bytes.\<close>

record Endpoint =
  ep_address :: IPAddress
  ep_port :: u16

definition htons :: "u16 \<Rightarrow> u16" where
  "htons p = push_bit 8 p OR drop_bit 8 p"

abbreviation ntohs :: "u16 \<Rightarrow> u16" where "ntohs \<equiv> htons"

definition is_ipv4 :: "Endpoint \<Rightarrow> bool" where
  "is_ipv4 e \<longleftrightarrow> addr_family (ep_address e) = IPv4"

definition is_ipv6 :: "Endpoint \<Rightarrow> bool" where
  "is_ipv6 e \<longleftrightarrow> addr_family (ep_address e) = IPv6"

definition unspecified :: "Endpoint \<Rightarrow> bool" where
  "unspecified e \<longleftrightarrow> (\<forall>i < bit_width (ep_address e) div 8. addr_bytes (ep_address e) ! i = 0)"

section \<open>Laws\<close>

text \<open>Bit \<open>i\<close> of an address, counted from the most significant bit of its first byte.\<close>

definition addr_bit :: "IPAddress \<Rightarrow> nat \<Rightarrow> bool" where
  "addr_bit a i = bit (addr_bytes a ! (i div 8)) (7 - i mod 8)"

definition wf_address :: "IPAddress \<Rightarrow> bool" where
  "wf_address a \<longleftrightarrow> valid_family a \<and> length (addr_bytes a) = 16"

lemma bit_prefix_mask:
  "r < 8 \<Longrightarrow> bit (prefix_mask r) n \<longleftrightarrow> 8 - r \<le> n \<and> n < 8"
proof -
  assume "r < 8"
  have m: "(0xff :: u32) = mask 8" by (simp add: mask_eq_exp_minus_1)
  show ?thesis
    using \<open>r < 8\<close> unfolding prefix_mask_def m by (auto simp: bit_simps)
qed

lemma length_zero_range [simp]: "length (zero_range i j bs) = length bs"
proof -
  have "length (fold (\<lambda>k bs. bs[k := 0]) ks bs) = length bs" for ks
    by (induction ks arbitrary: bs) simp_all
  then show ?thesis by (simp add: zero_range_def)
qed

lemma nth_zero_range:
  "n < length bs \<Longrightarrow> zero_range i j bs ! n = (if i \<le> n \<and> n < j then 0 else bs ! n)"
proof -
  have "n < length bs \<Longrightarrow>
      fold (\<lambda>k bs. bs[k := 0]) ks bs ! n = (if n \<in> set ks then 0 else bs ! n)" for ks and bs :: bytes
    by (induction ks arbitrary: bs) (auto simp: nth_list_update)
  then show "n < length bs \<Longrightarrow> ?thesis" by (auto simp: zero_range_def)
qed

lemma valid_bit_width:
  "valid_family a \<Longrightarrow> bit_width a \<le> 128 \<and> bit_width a mod 8 = 0"
  by (auto simp: valid_family_def bit_width_def)

lemma addr_bit_canonicalize:
  assumes "valid_prefix p" "length (addr_bytes (pfx_address p)) = 16" "i < 128"
  shows "addr_bit (pfx_address (canonicalize p)) i \<longleftrightarrow>
    i < unat (pfx_length p) \<and> addr_bit (pfx_address p) i"
proof -
  let ?n = "unat (pfx_length p)" and ?b = "addr_bytes (pfx_address p)"
  have le: "?n \<le> bit_width (pfx_address p)" "bit_width (pfx_address p) \<le> 128"
    using assms(1) valid_bit_width by (auto simp: valid_prefix_def)
  have i16: "i div 8 < 16" using assms(3) by simp
  consider "i div 8 < ?n div 8" | "i div 8 = ?n div 8" | "?n div 8 < i div 8" by linarith
  then show ?thesis
  proof cases
    case 1
    then have "i < ?n" by (metis div_le_mono leD linorder_not_le)
    then show ?thesis
      using 1 le i16 assms(2)
      by (auto simp: addr_bit_def canonicalize_def Let_def nth_zero_range)
  next
    case 2
    have i: "i = 8 * (i div 8) + i mod 8" and n: "?n = 8 * (?n div 8) + ?n mod 8" by simp_all
    have lt: "i < ?n \<longleftrightarrow> i mod 8 < ?n mod 8" using 2 i n by linarith
    have m: "?n mod 8 < 8" "i mod 8 < 8" by simp_all
    have mask: "8 - ?n mod 8 \<le> 7 - i mod 8 \<longleftrightarrow> i mod 8 < ?n mod 8" if "?n mod 8 \<noteq> 0"
      using that m by linarith
    moreover have "?n div 8 < bit_width (pfx_address p) div 8" if "?n mod 8 \<noteq> 0"
      using that le(1) assms(1) valid_bit_width [of "pfx_address p"] unfolding valid_prefix_def
      by (metis div_le_mono le_neq_implies_less mod_div_mult_eq nle_le add_0 dvd_imp_mod_0
          mod_0_imp_dvd div_mult_mod_eq le_add2 le_antisym)
    moreover have "7 - i mod 8 < 8" by linarith
    ultimately show ?thesis
      using 2 le i16 assms(2) lt m mask
      by (auto simp: addr_bit_def canonicalize_def Let_def nth_zero_range bit_and_iff
          bit_prefix_mask nth_list_update)
  next
    case 3
    then have "\<not> i < ?n" by (metis div_le_mono leD less_imp_le_nat)
    then show ?thesis
      using 3 le i16 assms(2)
      by (auto simp: addr_bit_def canonicalize_def Let_def nth_zero_range nth_list_update)
  qed
qed

lemma masked_eq_iff:
  fixes x y :: byte
  assumes "r < 8"
  shows "x AND prefix_mask r = y AND prefix_mask r \<longleftrightarrow> (\<forall>j < r. bit x (7 - j) = bit y (7 - j))"
proof
  assume e: "x AND prefix_mask r = y AND prefix_mask r"
  show "\<forall>j < r. bit x (7 - j) = bit y (7 - j)"
  proof (intro allI impI)
    fix j assume "j < r"
    then have "8 - r \<le> 7 - j \<and> 7 - j < 8" using assms by linarith
    then have "bit (prefix_mask r) (7 - j)" using bit_prefix_mask [OF assms] by blast
    then show "bit x (7 - j) = bit y (7 - j)" using arg_cong [OF e, of "\<lambda>w. bit w (7 - j)"] by (simp add: bit_and_iff)
  qed
next
  assume a: "\<forall>j < r. bit x (7 - j) = bit y (7 - j)"
  show "x AND prefix_mask r = y AND prefix_mask r"
  proof (rule bit_word_eqI)
    fix n assume "n < LENGTH(8)"
    then have "n = 7 - (7 - n)" "n < 8" by simp_all
    moreover have "8 - r \<le> n \<Longrightarrow> 7 - n < r" using calculation(2) by linarith
    ultimately show "bit (x AND prefix_mask r) n = bit (y AND prefix_mask r) n"
      using a assms by (metis bit_and_iff bit_prefix_mask)
  qed
qed

lemma byte_eq_bits: "(x :: byte) = y \<longleftrightarrow> (\<forall>j < 8. bit x (7 - j) = bit y (7 - j))"
proof
  assume a: "\<forall>j < 8. bit x (7 - j) = bit y (7 - j)"
  show "x = y"
  proof (rule bit_word_eqI)
    fix n assume "n < LENGTH(8)"
    then have "n = 7 - (7 - n)" "7 - n < 8" by simp_all
    then show "bit x n = bit y n" using a by metis
  qed
qed simp

lemma all_less_div_mod:
  fixes n :: nat
  shows "(\<forall>i < n. P (i div 8) (i mod 8)) \<longleftrightarrow>
    (\<forall>i < n div 8. \<forall>j < 8. P i j) \<and> (\<forall>j < n mod 8. P (n div 8) j)"
  (is "?L \<longleftrightarrow> ?R1 \<and> ?R2")
proof (intro iffI conjI)
  have n: "n = 8 * (n div 8) + n mod 8" by simp
  assume l: ?L
  show ?R1
  proof (intro allI impI)
    fix i j :: nat assume "i < n div 8" "j < 8"
    then have "8 * i + j < n" "(8 * i + j) div 8 = i" "(8 * i + j) mod 8 = j" using n by auto
    then show "P i j" using l by metis
  qed
  show ?R2
  proof (intro allI impI)
    fix j assume j: "j < n mod 8"
    then have "j < 8" by (meson less_trans mod_less_divisor zero_less_numeral)
    then have "8 * (n div 8) + j < n" "(8 * (n div 8) + j) div 8 = n div 8" "(8 * (n div 8) + j) mod 8 = j"
      using n j by (linarith, simp, simp)
    then show "P (n div 8) j" using l by metis
  qed
next
  assume r: "?R1 \<and> ?R2"
  show ?L
  proof (intro allI impI)
    fix i assume i: "i < n"
    have m: "i mod 8 < 8" by simp
    show "P (i div 8) (i mod 8)"
    proof (cases "i div 8 < n div 8")
      case True
      then show ?thesis using r m by blast
    next
      case False
      then have e: "i div 8 = n div 8" using i by (meson div_le_mono le_antisym less_imp_le not_less)
      moreover have "i mod 8 < n mod 8"
        using e i div_mult_mod_eq [of i 8] div_mult_mod_eq [of n 8] by linarith
      ultimately show ?thesis using r by auto
    qed
  qed
qed

lemma prefix_contains_bits:
  "prefix_contains p c \<longleftrightarrow> valid_prefix p \<and> addr_family c = addr_family (pfx_address p) \<and>
     (\<forall>i < unat (pfx_length p). addr_bit (pfx_address p) i = addr_bit c i)"
proof -
  let ?n = "unat (pfx_length p)" and ?a = "addr_bytes (pfx_address p)" and ?c = "addr_bytes c"
  have r: "?n mod 8 < 8" by simp
  have "(\<forall>i < ?n. addr_bit (pfx_address p) i = addr_bit c i) \<longleftrightarrow>
      (\<forall>i < ?n div 8. ?a ! i = ?c ! i) \<and>
      (?a ! (?n div 8) AND prefix_mask (?n mod 8) = ?c ! (?n div 8) AND prefix_mask (?n mod 8))"
    unfolding addr_bit_def all_less_div_mod [of ?n "\<lambda>i j. bit (?a ! i) (7 - j) = bit (?c ! i) (7 - j)"]
      masked_eq_iff [OF r] byte_eq_bits [of "?a ! i" "?c ! i" for i] ..
  moreover have "?n mod 8 = 0 \<Longrightarrow> x AND prefix_mask (?n mod 8) = y AND prefix_mask (?n mod 8)" for x y :: byte
    using masked_eq_iff [of 0 x y] by simp
  ultimately show ?thesis
    by (auto simp: prefix_contains_def Let_def)
qed

section \<open>Byte order\<close>

lemma htons_htons [simp]: "htons (htons p) = p"
  unfolding htons_def by (rule bit_word_eqI) (auto simp: bit_simps)

lemma htons_eq_0 [simp]: "htons p = 0 \<longleftrightarrow> p = 0"
  by (metis htons_htons htons_def drop_bit_of_0 or.right_neutral push_bit_of_0)

lemma htons_inject [simp]: "htons p = htons q \<longleftrightarrow> p = q"
  by (metis htons_htons)

end
