(* ===== verification/Net_Text.thy ===== *)
theory Net_Text
  imports Net_Address
begin

text \<open>
  \<open>endpoint_to_string\<close> of \<open>include/aegis/net/endpoint.hpp\<close> with the zero
  compression of RFC 5952, and the proof that the address parser reads back
  what it prints.
\<close>

section \<open>Definitions\<close>

definition digit_char :: "nat \<Rightarrow> char" where
  "digit_char d = ''0123456789abcdef'' ! d"

text \<open>\<open>std::to_string\<close> on an unsigned value.\<close>

fun dec_string :: "nat \<Rightarrow> string" where
  "dec_string n = (if n < 10 then [digit_char n] else dec_string (n div 10) @ [digit_char (n mod 10)])"

declare dec_string.simps [simp del]

definition nibble :: "u16 \<Rightarrow> nat \<Rightarrow> nat" where
  "nibble g shift = unat (drop_bit shift g AND 0xF)"

fun hex_digits :: "u16 \<Rightarrow> bool \<Rightarrow> nat list \<Rightarrow> string" where
  "hex_digits g started [] = []"
| "hex_digits g started (shift # shifts) =
    (if nibble g shift \<noteq> 0 \<or> started \<or> shift = 0
     then digit_char (nibble g shift) # hex_digits g True shifts
     else hex_digits g started shifts)"

definition hex_group :: "u16 \<Rightarrow> string" where
  "hex_group g = hex_digits g False [12, 8, 4, 0]"

definition address_groups :: "bytes \<Rightarrow> u16 list" where
  "address_groups bs = map (\<lambda>i. push_bit 8 (ucast (bs ! (i * 2))) OR ucast (bs ! (i * 2 + 1))) [0..<8]"

definition zeros_from :: "u16 list \<Rightarrow> nat \<Rightarrow> nat" where
  "zeros_from groups i = length (takeWhile (\<lambda>g. g = 0) (drop i groups))"

lemma zeros_from_pos: "i < length groups \<Longrightarrow> groups ! i = 0 \<Longrightarrow> 0 < zeros_from groups i"
  by (simp add: zeros_from_def Cons_nth_drop_Suc [symmetric])

lemma zeros_from_advance:
  "i < length groups \<Longrightarrow> groups ! i = 0 \<Longrightarrow>
     length groups - (i + zeros_from groups i) < length groups - i"
  using zeros_from_pos [of i groups] by linarith

function best_zero_run :: "u16 list \<Rightarrow> nat \<Rightarrow> nat \<Rightarrow> nat \<Rightarrow> nat \<times> nat" where
  "best_zero_run groups i best_start best_len =
    (if i \<ge> length groups then (best_start, best_len)
     else if groups ! i \<noteq> 0 then best_zero_run groups (i + 1) best_start best_len
     else let run = zeros_from groups i in
       if run > best_len \<and> run \<ge> 2 then best_zero_run groups (i + run) i run
       else best_zero_run groups (i + run) best_start best_len)"
  by pat_completeness auto
termination
  by (relation "measure (\<lambda>(groups, i, best_start, best_len). length groups - i)")
    (auto simp: not_le zeros_from_advance)

declare best_zero_run.simps [simp del]

text \<open>A run that starts before the end has at least two groups, so the step over it
  (\<open>i += best_len - 1\<close>, then \<open>++i\<close>) always advances.\<close>

function print_groups :: "u16 list \<Rightarrow> nat \<Rightarrow> nat \<Rightarrow> nat \<Rightarrow> string \<Rightarrow> string" where
  "print_groups groups best_start best_len i text =
    (if i \<ge> length groups then text
     else if i = best_start then
       print_groups groups best_start best_len (i + max 1 best_len) (text @ ''::'')
     else print_groups groups best_start best_len (i + 1)
       ((if text \<noteq> [] \<and> last text \<noteq> CHR '':'' \<and> last text \<noteq> CHR ''['' then text @ '':'' else text) @
        hex_group (groups ! i)))"
  by pat_completeness auto
termination
  by (relation "measure (\<lambda>(groups, best_start, best_len, i, text). length groups - i)") auto

declare print_groups.simps [simp del]

definition endpoint_to_string :: "Endpoint \<Rightarrow> string" where
  "endpoint_to_string e =
    (if is_ipv4 e
     then dec_string (unat (addr_bytes (ep_address e) ! 0)) @ ''.'' @
          dec_string (unat (addr_bytes (ep_address e) ! 1)) @ ''.'' @
          dec_string (unat (addr_bytes (ep_address e) ! 2)) @ ''.'' @
          dec_string (unat (addr_bytes (ep_address e) ! 3))
     else let groups = address_groups (addr_bytes (ep_address e));
              (best_start, best_len) = best_zero_run groups 0 8 0
          in print_groups groups best_start best_len 0 ''['' @ '']'') @
    '':'' @ dec_string (unat (ntohs (ep_port e)))"

section \<open>Scanning a joined list of fields\<close>

fun join :: "char \<Rightarrow> string list \<Rightarrow> string" where
  "join sep [] = []"
| "join sep [f] = f"
| "join sep (f # g # fs) = f @ sep # join sep (g # fs)"

lemma join_eq_Nil: "\<forall>f \<in> set fs. f \<noteq> [] \<Longrightarrow> join sep fs = [] \<longleftrightarrow> fs = []"
  by (cases "(sep, fs)" rule: join.cases) auto

lemma takeWhile_field:
  "\<forall>c \<in> set f. c \<noteq> sep \<Longrightarrow> takeWhile (\<lambda>c. c \<noteq> sep) (f @ sep # r) = f"
  "\<forall>c \<in> set f. c \<noteq> sep \<Longrightarrow> dropWhile (\<lambda>c. c \<noteq> sep) (f @ sep # r) = sep # r"
  by (induction f) auto

lemma scan_join:
  assumes "\<forall>f \<in> set fs. f \<noteq> [] \<and> sep \<notin> set f \<and> length f \<le> maxlen"
    and "list_all2 (\<lambda>f v. conv f = Some v) fs vs" "count + length fs \<le> maxcount"
  shows "scan_fields sep maxlen maxcount conv count (join sep fs) = Some vs"
  using assms
proof (induction sep fs arbitrary: vs count rule: join.induct)
  case (1 sep)
  then show ?case by (simp add: scan_fields.simps)
next
  case (2 sep f)
  then have "\<forall>c \<in> set f. c \<noteq> sep" by auto
  then have t: "takeWhile (\<lambda>c. c \<noteq> sep) f = f" and d: "dropWhile (\<lambda>c. c \<noteq> sep) f = []"
    by (simp_all only: takeWhile_eq_all_conv dropWhile_eq_Nil_conv)
  show ?case
    using 2 by (auto simp: scan_fields.simps [of _ _ _ _ _ f] list_all2_Cons1 Let_def t d)
next
  case (3 sep f g fs)
  then obtain v ws where v: "vs = v # ws" "conv f = Some v" "list_all2 (\<lambda>f v. conv f = Some v) (g # fs) ws"
    by (auto simp: list_all2_Cons1)
  have "\<forall>c \<in> set f. c \<noteq> sep" using 3(2) by auto
  note tw = takeWhile_field [OF this, of "join sep (g # fs)"]
  have "scan_fields sep maxlen maxcount conv (count + 1) (join sep (g # fs)) = Some ws"
    using 3 v by (intro "3.IH") auto
  then show ?case
    using 3(2,4) v(1,2)
    by (auto simp: scan_fields.simps [of _ _ _ _ _ "f @ sep # join sep (g # fs)"] tw Let_def)
qed

section \<open>Digits\<close>

lemma all_digit_chars:
  "\<forall>d \<in> set [0..<16]. hex_digit (digit_char d) = Some (of_nat d) \<and> digit_char d \<noteq> CHR '':'' \<and>
     digit_char d \<noteq> CHR ''.'' \<and> digit_char d \<noteq> CHR ''[''"
  "\<forall>d \<in> set [0..<10]. dec_digit (digit_char d) = Some d"
  by code_simp+

lemma digit_char:
  assumes "d < 16"
  shows "hex_digit (digit_char d) = Some (of_nat d)" "digit_char d \<noteq> CHR '':''"
    "digit_char d \<noteq> CHR ''.''" "digit_char d \<noteq> CHR ''[''"
  using all_digit_chars(1) assms by auto

lemma dec_digit_char: "d < 10 \<Longrightarrow> dec_digit (digit_char d) = Some d"
  using all_digit_chars(2) by auto

lemma dec_value_append: "dec_value v (s @ t) = do { w \<leftarrow> dec_value v s; dec_value w t }"
  by (induction v s rule: dec_value.induct) (auto split: Option.bind_split)

lemma dec_value_dec_string: "dec_value 0 (dec_string n) = Some n"
proof (induction n rule: dec_string.induct)
  case (1 n)
  then show ?case
    by (auto simp: dec_string.simps [of n] dec_value_append dec_digit_char)
qed

lemma dec_string_chars: "c \<in> set (dec_string n) \<Longrightarrow> \<exists>d < 10. c = digit_char d"
proof (induction n rule: dec_string.induct)
  case (1 n)
  have "\<exists>d < 10. digit_char (n mod 10) = digit_char d" by (rule exI [of _ "n mod 10"]) simp
  with 1 show ?case by (cases "n < 10") (auto simp: dec_string.simps [of n])
qed

lemma dec_string_not_Nil: "dec_string n \<noteq> []"
  by (simp add: dec_string.simps [of n])

lemma dec_string_octet:
  assumes "n < 256"
  shows "length (dec_string n) \<le> 3"
proof -
  have l1: "length (dec_string m) = 1" if "m < 10" for m using that by (simp add: dec_string.simps [of m])
  have l2: "length (dec_string m) \<le> 2" if "m < 100" for m
    using that l1 [of "m div 10"] by (cases "m < 10") (simp_all add: dec_string.simps [of m])
  show ?thesis
    using assms l2 [of "n div 10"] by (cases "n < 10") (simp_all add: dec_string.simps [of n])
qed

lemma parse_octet_dec_string: "parse_octet (dec_string (unat (b :: byte))) = Some b"
  using unat_byte_less [of b] by (simp add: parse_octet_def dec_value_dec_string not_less)

lemma dec_string_char:
  assumes "c \<in> set (dec_string n)"
  shows "c \<noteq> CHR '':''" "c \<noteq> CHR ''.''" "c \<noteq> CHR ''[''"
proof -
  obtain d where "d < 10" "c = digit_char d" using dec_string_chars [OF assms] by blast
  then have d: "d < 16" "c = digit_char d" by simp_all
  then show "c \<noteq> CHR '':''" "c \<noteq> CHR ''.''" "c \<noteq> CHR ''[''"
    using digit_char(2-4) [OF d(1)] by simp_all
qed

lemma dec_string_no:
  "CHR ''.'' \<notin> set (dec_string n)" "CHR '':'' \<notin> set (dec_string n)" "last (dec_string n) \<noteq> CHR ''.''"
  using dec_string_char(1,2) [of _ n] last_in_set [OF dec_string_not_Nil [of n]] by blast+

section \<open>IPv4\<close>

lemma parse_print_ipv4:
  fixes b0 b1 b2 b3 :: byte
  shows "parse_address (dec_string (unat b0) @ ''.'' @ dec_string (unat b1) @ ''.'' @
      dec_string (unat b2) @ ''.'' @ dec_string (unat b3)) =
    Some \<lparr>addr_family = IPv4, addr_bytes = [b0, b1, b2, b3] @ replicate 12 0\<rparr>"
    (is "parse_address ?t = _")
proof -
  let ?fs = "map (dec_string \<circ> unat) [b0, b1, b2, b3]"
  have "join CHR ''.'' ?fs = ?t" by simp
  moreover have "scan_fields CHR ''.'' 3 4 parse_octet 0 (join CHR ''.'' ?fs) = Some [b0, b1, b2, b3]"
    by (rule scan_join)
      (auto simp: dec_string_not_Nil dec_string_no parse_octet_dec_string
        intro!: dec_string_octet unat_byte_less)
  ultimately have s: "scan_fields CHR ''.'' 3 4 parse_octet 0 ?t = Some [b0, b1, b2, b3]" by simp
  have "last ?t \<noteq> CHR ''.''" using dec_string_not_Nil dec_string_no(3) by simp
  then show ?thesis
    using dec_string_no(2) dec_string_not_Nil s
    by (simp add: parse_address_def parse_ipv4_def)
qed

section \<open>IPv6\<close>

subsection \<open>One group\<close>

lemma nibble_less: "nibble g s < 16"
proof -
  have "drop_bit s g AND 0xF = take_bit 4 (drop_bit s g)" by (simp add: take_bit_eq_mask mask_eq_exp_minus_1)
  then have "nibble g s = take_bit 4 (unat (drop_bit s g))" by (simp only: nibble_def unsigned_take_bit_eq)
  then show ?thesis using take_bit_nat_less_exp [of 4 "unat (drop_bit s g)"] by simp
qed

lemma of_nat_nibble: "(of_nat (nibble g s) :: u16) = take_bit 4 (drop_bit s g)"
  by (simp add: nibble_def take_bit_eq_mask mask_eq_exp_minus_1)

lemma hex_value_digits:
  "\<forall>d \<in> set ds. d < 16 \<Longrightarrow>
     hex_value v (map digit_char ds) = Some (foldl (\<lambda>v d. push_bit 4 v OR of_nat d) v ds)"
proof (induction ds arbitrary: v)
  case (Cons d ds)
  have "(ucast (of_nat d :: byte) :: u16) = of_nat d"
    using Cons.prems by (simp add: word_unat_eq_iff unsigned_ucast_eq unsigned_of_nat take_bit_nat_eq_self)
  then show ?case using Cons by (simp add: digit_char)
qed simp

lemma hex_digits_started: "hex_digits g True shifts = map (digit_char \<circ> nibble g) shifts"
  by (induction shifts) simp_all

lemma nibbles_compose:
  "push_bit 4 (push_bit 4 (push_bit 4 (take_bit 4 (drop_bit 12 g)) OR take_bit 4 (drop_bit 8 g)) OR
     take_bit 4 (drop_bit 4 g)) OR take_bit 4 g = (g :: u16)"
proof (rule bit_word_eqI)
  fix n assume n: "n < LENGTH(16)"
  then consider "n < 4" | "4 \<le> n" "n < 8" | "8 \<le> n" "n < 12" | "12 \<le> n" "n < 16"
    by fastforce
  then show "bit (push_bit 4 (push_bit 4 (push_bit 4 (take_bit 4 (drop_bit 12 g)) OR take_bit 4 (drop_bit 8 g)) OR
     take_bit 4 (drop_bit 4 g)) OR take_bit 4 g) n = bit g n"
    using n by cases (auto simp: bit_simps)
qed

lemma hex_group_digits:
  "\<exists>ds. hex_group g = map digit_char ds \<and> ds \<noteq> [] \<and> length ds \<le> 4 \<and> (\<forall>d \<in> set ds. d < 16) \<and>
     foldl (\<lambda>v d. push_bit 4 v OR of_nat d) 0 ds = g"
proof -
  define ds where "ds =
    (if nibble g 12 \<noteq> 0 then [nibble g 12, nibble g 8, nibble g 4, nibble g 0]
     else if nibble g 8 \<noteq> 0 then [nibble g 8, nibble g 4, nibble g 0]
     else if nibble g 4 \<noteq> 0 then [nibble g 4, nibble g 0] else [nibble g 0])"
  have "hex_group g = map digit_char ds" by (simp add: hex_group_def ds_def hex_digits_started)
  moreover have "foldl (\<lambda>v d. push_bit 4 v OR of_nat d) 0 ds =
      foldl (\<lambda>v d. push_bit 4 v OR of_nat d) (0 :: u16) [nibble g 12, nibble g 8, nibble g 4, nibble g 0]"
    by (simp add: ds_def)
  moreover have "\<dots> = g"
    using nibbles_compose [of g] by (simp only: foldl.simps of_nat_nibble push_bit_of_0 or.left_neutral drop_bit_0 id_apply)
  moreover have "ds \<noteq> []" "length ds \<le> 4" "\<forall>d \<in> set ds. d < 16" by (simp_all add: ds_def nibble_less)
  ultimately show ?thesis by metis
qed

lemma hex_group:
  shows "hex_value 0 (hex_group g) = Some g" "hex_group g \<noteq> []" "length (hex_group g) \<le> 4"
    and "CHR '':'' \<notin> set (hex_group g)" "CHR ''['' \<notin> set (hex_group g)"
proof -
  obtain ds where ds: "hex_group g = map digit_char ds" "ds \<noteq> []" "length ds \<le> 4" "\<forall>d \<in> set ds. d < 16"
    "foldl (\<lambda>v d. push_bit 4 v OR of_nat d) 0 ds = g"
    using hex_group_digits [of g] by blast
  show "hex_value 0 (hex_group g) = Some g" "hex_group g \<noteq> []" "length (hex_group g) \<le> 4"
    using ds by (simp_all add: hex_value_digits)
  show "CHR '':'' \<notin> set (hex_group g)" "CHR ''['' \<notin> set (hex_group g)"
    unfolding ds(1) using ds(4) digit_char(2,4) by fastforce+
qed

lemma last_hex_group: "last (hex_group g) \<noteq> CHR '':''" "last (hex_group g) \<noteq> CHR ''[''"
  using hex_group(4,5) last_in_set [OF hex_group(2)] by metis+

lemma parse_side_join:
  "length gs \<le> 8 \<Longrightarrow> parse_side (join CHR '':'' (map hex_group gs)) = Some gs"
  unfolding parse_side_def
  by (rule scan_join) (auto simp: hex_group list_all2_conv_all_nth)

subsection \<open>Compression\<close>

lemma find_compression_Cons:
  "c \<noteq> CHR '':'' \<Longrightarrow> find_compression (c # t) = map_option (\<lambda>(l, r). (c # l, r)) (find_compression t)"
  by (cases t) auto

lemma find_compression_field:
  "CHR '':'' \<notin> set f \<Longrightarrow>
     find_compression (f @ t) = map_option (\<lambda>(l, r). (f @ l, r)) (find_compression t)"
proof (induction f)
  case Nil
  then show ?case by (cases "find_compression t") auto
next
  case (Cons c f)
  then show ?case by (cases "find_compression t") (auto simp: find_compression_Cons)
qed

lemma find_compression_colon:
  assumes "CHR '':'' \<notin> set f" "f \<noteq> []"
  shows "find_compression (CHR '':'' # f @ t) =
    map_option (\<lambda>(l, r). (CHR '':'' # l, r)) (find_compression (f @ t))"
  using assms by (cases f) auto

lemma find_compression_join:
  "find_compression (join CHR '':'' (map hex_group gs)) = None"
  "find_compression (join CHR '':'' (map hex_group gs) @ ''::'' @ t) = Some (join CHR '':'' (map hex_group gs), t)"
proof (induction gs rule: induct_list012)
  case (2 g)
  { case 1 then show ?case using find_compression_field [OF hex_group(4), of g "[]"] by simp
  next case 2 then show ?case using find_compression_field [OF hex_group(4), of g "''::'' @ t"] by simp }
next
  case (3 g h gs)
  obtain r where r: "join CHR '':'' (hex_group h # map hex_group gs) = hex_group h @ r" by (cases gs) auto
  { case 1
    then show ?case
      using 3 find_compression_colon [OF hex_group(4,2), of h r]
      by (simp add: find_compression_field hex_group r)
  next
    case 2
    then show ?case
      using 3 find_compression_colon [OF hex_group(4,2), of h "r @ ''::'' @ t"]
      by (simp add: find_compression_field hex_group r) }
qed simp_all

lemma last_join: "gs \<noteq> [] \<Longrightarrow> last (join CHR '':'' (map hex_group gs)) \<noteq> CHR '':''"
proof (induction gs rule: induct_list012)
  case (3 g h gs)
  then show ?case using join_eq_Nil [of "map hex_group (h # gs)" "CHR '':''"] by (auto simp: hex_group)
qed (simp_all add: last_hex_group)

subsection \<open>The whole address\<close>

lemma best_zero_run_ok:
  assumes "best_zero_run groups i s l = (s', l')"
    and "(l = 0 \<and> s = length groups) \<or> (2 \<le> l \<and> s + l \<le> length groups \<and> (\<forall>k \<in> {s..<s + l}. groups ! k = 0))"
  shows "(l' = 0 \<and> s' = length groups) \<or>
    (2 \<le> l' \<and> s' + l' \<le> length groups \<and> (\<forall>k \<in> {s'..<s' + l'}. groups ! k = 0))"
  using assms
proof (induction groups i s l rule: best_zero_run.induct)
  case (1 groups i s l)
  have z: "zeros_from groups i \<le> length groups - i"
    unfolding zeros_from_def by (metis length_drop length_takeWhile_le)
  have run: "groups ! k = 0" if "i \<le> k" "k < i + zeros_from groups i" for k
  proof -
    let ?w = "takeWhile (\<lambda>g. g = 0) (drop i groups)"
    have j: "k - i < length ?w" using that unfolding zeros_from_def by linarith
    have "?w ! (k - i) = 0" using set_takeWhileD [OF nth_mem [OF j]] by simp
    then have "drop i groups ! (k - i) = 0" using takeWhile_nth [OF j] by simp
    moreover have "i + (k - i) = k" using that(1) by simp
    moreover have "i \<le> length groups" using that z by linarith
    ultimately show ?thesis by (metis nth_drop)
  qed
  consider (stop) "i \<ge> length groups" | (skip) "i < length groups" "groups ! i \<noteq> 0"
    | (better) "i < length groups" "groups ! i = 0" "zeros_from groups i > l \<and> zeros_from groups i \<ge> 2"
    | (keep) "i < length groups" "groups ! i = 0" "\<not> (zeros_from groups i > l \<and> zeros_from groups i \<ge> 2)"
    by linarith
  then show ?case
  proof cases
    case stop
    then show ?thesis using "1.prems" by (subst (asm) best_zero_run.simps) simp
  next
    case skip
    then have "best_zero_run groups (i + 1) s l = (s', l')"
      using "1.prems"(1) by (subst (asm) best_zero_run.simps) simp
    with skip show ?thesis using "1.IH"(1) "1.prems"(2) by simp
  next
    case better
    then have e: "best_zero_run groups (i + zeros_from groups i) i (zeros_from groups i) = (s', l')"
      using "1.prems"(1) by (subst (asm) best_zero_run.simps) (simp add: Let_def)
    have "\<not> i \<ge> length groups" "\<not> groups ! i \<noteq> 0" using better by simp_all
    note IH = "1.IH"(2) [OF this refl better(3) e]
    show ?thesis using better z run by (intro IH disjI2) auto
  next
    case keep
    then have e: "best_zero_run groups (i + zeros_from groups i) s l = (s', l')"
      using "1.prems"(1) by (subst (asm) best_zero_run.simps) (auto simp: Let_def split: if_splits)
    have "\<not> i \<ge> length groups" "\<not> groups ! i \<noteq> 0" using keep by simp_all
    from "1.IH"(3) [OF this refl keep(3) e "1.prems"(2)] show ?thesis .
  qed
qed

definition glued :: "string \<Rightarrow> bool" where
  "glued text \<longleftrightarrow> text \<noteq> [] \<and> last text \<noteq> CHR '':'' \<and> last text \<noteq> CHR ''[''"

definition group_text :: "string \<Rightarrow> u16 list \<Rightarrow> string" where
  "group_text text gs =
    (if glued text then text @ concat (map (\<lambda>g. CHR '':'' # hex_group g) gs)
     else text @ join CHR '':'' (map hex_group gs))"

lemma glued_hex: "glued (t @ hex_group g)"
  by (simp add: glued_def hex_group last_hex_group)

lemma join_Cons_concat:
  "join sep (f # fs) = f @ concat (map (\<lambda>g. sep # g) fs)"
  by (induction fs arbitrary: f) simp_all

lemma group_text_Cons:
  "group_text text (g # gs) =
     group_text ((if glued text then text @ '':'' else text) @ hex_group g) gs"
proof -
  have c: "concat (map (\<lambda>g. CHR '':'' # hex_group g) gs) = concat (map ((\<lambda>g. CHR '':'' # g) \<circ> hex_group) gs)"
    by (simp add: comp_def)
  show ?thesis
    using glued_hex [of "if glued text then text @ '':'' else text" g]
    by (auto simp: group_text_def join_Cons_concat comp_def)
qed

lemma group_text_Nil [simp]: "group_text text [] = text"
  by (simp add: group_text_def)

lemma print_groups_plain:
  assumes "best_start < i \<or> length groups \<le> best_start"
  shows "print_groups groups best_start best_len i t = group_text t (drop i groups)"
  using assms
proof (induction "length groups - i" arbitrary: i t)
  case 0
  then show ?case by (simp add: print_groups.simps)
next
  case (Suc n)
  then have i: "i < length groups" "i \<noteq> best_start" by auto
  have "print_groups groups best_start best_len i t =
      print_groups groups best_start best_len (i + 1)
        ((if glued t then t @ '':'' else t) @ hex_group (groups ! i))"
    using i by (subst print_groups.simps) (simp add: glued_def)
  also have "\<dots> = group_text ((if glued t then t @ '':'' else t) @ hex_group (groups ! i)) (drop (i + 1) groups)"
    using Suc by (intro Suc.hyps(1)) auto
  finally show ?case using i by (simp add: group_text_Cons Cons_nth_drop_Suc [symmetric])
qed

lemma print_groups_run:
  assumes "i \<le> best_start" "best_start < length groups"
  shows "print_groups groups best_start best_len i t =
    print_groups groups best_start best_len (best_start + max 1 best_len)
      (group_text t (drop i (take best_start groups)) @ ''::'')"
  using assms(1)
proof (induction "best_start - i" arbitrary: i t)
  case 0
  then show ?case using assms(2) by (subst print_groups.simps) simp
next
  case (Suc n)
  then have i: "i < best_start" "i < length groups" using assms(2) by auto
  have d: "drop i (take best_start groups) = groups ! i # drop (i + 1) (take best_start groups)"
    using i assms(2) by (simp add: Cons_nth_drop_Suc [symmetric])
  have "print_groups groups best_start best_len i t =
      print_groups groups best_start best_len (i + 1)
        ((if glued t then t @ '':'' else t) @ hex_group (groups ! i))"
    using i by (subst print_groups.simps) (simp add: glued_def)
  also have "\<dots> = print_groups groups best_start best_len (best_start + max 1 best_len)
      (group_text ((if glued t then t @ '':'' else t) @ hex_group (groups ! i))
         (drop (i + 1) (take best_start groups)) @ ''::'')"
    using Suc by (intro Suc.hyps(1)) auto
  finally show ?case by (simp only: d group_text_Cons)
qed

lemma address_groups_bytes:
  assumes "length bs = 16"
  shows "concat (map group_bytes (address_groups bs)) = bs"
proof -
  have g: "group_bytes (push_bit 8 (ucast a) OR ucast b) = [a, b]" for a b :: byte
    unfolding group_bytes_def list.inject
    by (intro conjI bit_word_eqI) (auto simp: bit_simps dest: bit_imp_le_length)
  have p: "2 * n \<le> length bs \<Longrightarrow> concat (map (\<lambda>i. [bs ! (i * 2), bs ! (i * 2 + 1)]) [0..<n]) = take (2 * n) bs" for n
  proof (induction n)
    case (Suc n)
    then show ?case by (simp add: take_Suc_conv_app_nth mult.commute)
  qed simp
  show ?thesis
    using p [of 8] assms by (simp add: address_groups_def g comp_def del: upt_rec_numeral upt_conv_Cons)
qed

lemma glued_bracket: "\<not> glued ''[''" "\<not> glued (s @ ''::'')"
  by (simp_all add: glued_def)

lemma parse_ipv6_plain:
  assumes "length gs = 8"
  shows "parse_address (join CHR '':'' (map hex_group gs)) = Some (from_ipv6 (concat (map group_bytes gs)))"
proof -
  obtain g h r where gs: "gs = g # h # r" using assms by (cases gs; cases "tl gs") auto
  then have "CHR '':'' \<in> set (join CHR '':'' (map hex_group gs))" by simp
  moreover have "last (join CHR '':'' (map hex_group gs)) \<noteq> CHR '':''" using last_join gs by blast
  ultimately show ?thesis
    using assms parse_side_join [of gs]
    by (auto simp: parse_address_def parse_ipv6_def find_compression_join Let_def)
qed

lemma parse_ipv6_compressed:
  assumes "length l + length r < 8"
  shows "parse_address (join CHR '':'' (map hex_group l) @ ''::'' @ join CHR '':'' (map hex_group r)) =
    Some (from_ipv6 (concat (map group_bytes (l @ replicate (8 - length l - length r) 0 @ r))))"
    (is "parse_address ?t = _")
proof -
  have "last ?t = CHR '':'' \<Longrightarrow> drop (length ?t - 2) ?t = ''::''"
    using last_join [of r] join_eq_Nil [of "map hex_group r" "CHR '':''"]
    by (cases "r = []") (auto simp: hex_group)
  moreover have "parse_side (join CHR '':'' (map hex_group l)) = Some l"
    "parse_side (join CHR '':'' (map hex_group r)) = Some r"
    using assms by (simp_all add: parse_side_join)
  ultimately show ?thesis
    using assms find_compression_join
    by (auto simp: parse_address_def parse_ipv6_def Let_def simp del: map_append)
qed

lemma print_parse_ipv6:
  assumes "length bs = 16" "best_zero_run (address_groups bs) 0 8 0 = (s, l)"
  shows "\<exists>t. print_groups (address_groups bs) s l 0 ''['' = CHR ''['' # t \<and>
    parse_address t = Some (from_ipv6 bs)"
proof -
  let ?g = "address_groups bs"
  have len: "length ?g = 8" by (simp add: address_groups_def)
  from best_zero_run_ok [OF assms(2)] len
  consider "s = 8" | "2 \<le> l" "s + l \<le> 8" "\<forall>k \<in> {s..<s + l}. ?g ! k = 0" by auto
  then show ?thesis
  proof cases
    case 1
    then have "print_groups ?g s l 0 ''['' = CHR ''['' # join CHR '':'' (map hex_group ?g)"
      using print_groups_plain [of s 0 ?g l "''[''"] len by (simp add: group_text_def glued_bracket)
    moreover have "parse_address (join CHR '':'' (map hex_group ?g)) = Some (from_ipv6 bs)"
      using parse_ipv6_plain [OF len] address_groups_bytes [OF assms(1)] by simp
    ultimately show ?thesis by blast
  next
    case 2
    let ?t = "join CHR '':'' (map hex_group (take s ?g)) @ ''::'' @ join CHR '':'' (map hex_group (drop (s + l) ?g))"
    have X: "group_text ''['' (take s ?g) = CHR ''['' # join CHR '':'' (map hex_group (take s ?g))"
      by (simp add: group_text_def glued_bracket)
    have Y: "print_groups ?g s l (s + l) (x @ ''::'') = (x @ ''::'') @ join CHR '':'' (map hex_group (drop (s + l) ?g))" for x
    proof -
      have "s < s + l \<or> length ?g \<le> s" using 2 by simp
      from print_groups_plain [OF this, of l "x @ ''::''"] show ?thesis
        by (simp only: group_text_def glued_bracket if_False)
    qed
    have "print_groups ?g s l 0 ''['' = print_groups ?g s l (s + l) (group_text ''['' (take s ?g) @ ''::'')"
      using print_groups_run [of 0 s ?g l "''[''"] 2 len by (simp add: max_def)
    then have "print_groups ?g s l 0 ''['' = CHR ''['' # ?t" unfolding Y X by simp
    moreover have "take s ?g @ replicate l 0 @ drop (s + l) ?g = ?g"
    proof (rule nth_equalityI)
      fix k assume "k < length (take s ?g @ replicate l 0 @ drop (s + l) ?g)"
      then show "(take s ?g @ replicate l 0 @ drop (s + l) ?g) ! k = ?g ! k"
        using 2 len by (auto simp: nth_append)
    qed (use 2 len in simp)
    moreover have "8 - length (take s ?g) - length (drop (s + l) ?g) = l" using 2 len by simp
    ultimately show ?thesis
      using parse_ipv6_compressed [of "take s ?g" "drop (s + l) ?g"] 2 len address_groups_bytes [OF assms(1)]
      by (intro exI [of _ ?t] conjI) simp_all
  qed
qed

section \<open>Round trip\<close>

text \<open>An address as the constructors and decoders build it: sixteen bytes, of which
  IPv4 uses the first four.\<close>

definition canonical_host :: "IPAddress \<Rightarrow> bool" where
  "canonical_host a \<longleftrightarrow> length (addr_bytes a) = 16 \<and>
     (addr_family a = IPv4 \<and> drop 4 (addr_bytes a) = replicate 12 0 \<or> addr_family a = IPv6)"

text \<open>The printed form of an endpoint is the host, bracketed for IPv6, a colon
  and the port, and the address parser reads the host back: dotted decimals for
  IPv4, and for IPv6 the hexadecimal groups with the longest run of zero groups
  compressed.\<close>

theorem endpoint_text_roundtrip:
  assumes "canonical_host (ep_address e)"
  shows "\<exists>host. endpoint_to_string e =
      (if is_ipv4 e then host else ''['' @ host @ '']'') @ '':'' @ dec_string (unat (ntohs (ep_port e))) \<and>
    parse_address host = Some (ep_address e)"
proof (cases "is_ipv4 e")
  case True
  let ?b = "addr_bytes (ep_address e)"
  have f: "addr_family (ep_address e) = IPv4" using True by (simp add: is_ipv4_def)
  then have b: "?b = [?b ! 0, ?b ! 1, ?b ! 2, ?b ! 3] @ replicate 12 0"
    using assms append_take_drop_id [of 4 ?b] by (simp add: canonical_host_def take_Suc_conv_app_nth numeral_eq_Suc)
  have "ep_address e = \<lparr>addr_family = IPv4, addr_bytes = [?b ! 0, ?b ! 1, ?b ! 2, ?b ! 3] @ replicate 12 0\<rparr>"
    using f by (subst b [symmetric]) simp
  with True show ?thesis
    using parse_print_ipv4 [of "?b ! 0" "?b ! 1" "?b ! 2" "?b ! 3"] by (simp add: endpoint_to_string_def)
next
  case False
  obtain s l where r: "best_zero_run (address_groups (addr_bytes (ep_address e))) 0 8 0 = (s, l)" by fastforce
  have len: "length (addr_bytes (ep_address e)) = 16" and f: "addr_family (ep_address e) = IPv6"
    using assms False by (auto simp: canonical_host_def is_ipv4_def)
  have "ep_address e = from_ipv6 (addr_bytes (ep_address e))" using f by (simp add: from_ipv6_def)
  with False show ?thesis
    using print_parse_ipv6 [OF len r] by (auto simp: endpoint_to_string_def r Let_def)
qed

theorem endpoint_text_roundtrip_witness:
  "let e = \<lparr>ep_address = from_ipv6 ([0x20, 1] @ replicate 13 0 @ [1]), ep_port = htons 443\<rparr> in
   endpoint_to_string e = ''[2001::1]:443'' \<and> parse_address ''2001::1'' = Some (ep_address e)"
proof -
  let ?e = "\<lparr>ep_address = from_ipv6 ([0x20, 1] @ replicate 13 0 @ [1]), ep_port = htons 443\<rparr>"
  have t: "endpoint_to_string ?e = ''[2001::1]:443''" by code_simp
  have "canonical_host (ep_address ?e)" by code_simp
  from endpoint_text_roundtrip [OF this] obtain host where
    "''[2001::1]:443'' = ''['' @ host @ '']'' @ '':443''" "parse_address host = Some (ep_address ?e)"
    unfolding t by (auto simp: is_ipv4_def from_ipv6_def dec_string.simps htons_def digit_char_def)
  then show ?thesis using t by (simp add: append_eq_Cons_conv)
qed

end
