(* ===== verification/Routing.thy ===== *)
theory Routing
  imports Net_Address Std_Vector
begin

text \<open>
  \<open>src/routing/routing.cpp\<close>: the table of route candidates.  Every method of
  \<open>RoutingEngine\<close> is a function on the table; the methods that return a value
  and change the table return a pair.  The mutex makes each method atomic.
\<close>

section \<open>Definitions\<close>

datatype NextHopType = Direct | Relay | Unknown

record Route =
  rt_prefix :: IPAddress
  rt_prefix_length :: u32
  rt_type :: NextHopType
  rt_next_hop :: node_id
  rt_destination :: node_id
  rt_path :: "node_id list"
  rt_origin :: node_id
  rt_advertiser :: node_id
  rt_sequence_number :: u64
  rt_lease :: int
  rt_metric :: u32
  rt_validated_at :: time
  rt_last_probe_sent_at :: "time option"
  rt_last_probe_validated_at :: "time option"
  rt_last_probe_rtt :: "time option"
  rt_probe_failed :: bool
  rt_consecutive_probe_failures :: u32
  rt_probe_hold_down_until :: "time option"

text \<open>Leases are counted in seconds, everything else in milliseconds.\<close>

abbreviation ROUTING_MAX_ROUTES :: nat where "ROUTING_MAX_ROUTES \<equiv> 2048"
abbreviation ROUTING_MAX_CANDIDATES_PER_PREFIX :: nat where "ROUTING_MAX_CANDIDATES_PER_PREFIX \<equiv> 8"
abbreviation ROUTE_DEFAULT_LEASE :: int where "ROUTE_DEFAULT_LEASE \<equiv> 90"
abbreviation ROUTE_MAX_LEASE :: int where "ROUTE_MAX_LEASE \<equiv> 600"
abbreviation ROUTE_MAX_METRIC :: u32 where "ROUTE_MAX_METRIC \<equiv> 1000000"
abbreviation ROUTE_PROBE_HOLD_DOWN :: time where "ROUTE_PROBE_HOLD_DOWN \<equiv> 30000"
abbreviation ZERO_NODE :: node_id where "ZERO_NODE \<equiv> replicate NODE_ID_SIZE 0"

definition default_route :: Route where
  "default_route =
    \<lparr>rt_prefix = default_address, rt_prefix_length = 0, rt_type = Unknown, rt_next_hop = ZERO_NODE,
     rt_destination = ZERO_NODE, rt_path = [], rt_origin = ZERO_NODE, rt_advertiser = ZERO_NODE,
     rt_sequence_number = 1, rt_lease = 90, rt_metric = 0, rt_validated_at = 0,
     rt_last_probe_sent_at = None, rt_last_probe_validated_at = None, rt_last_probe_rtt = None,
     rt_probe_failed = False, rt_consecutive_probe_failures = 0, rt_probe_hold_down_until = None\<rparr>"

record RoutingEngine =
  re_routes :: "Route list"
  re_max_routes :: nat

definition new_RoutingEngine :: "nat \<Rightarrow> RoutingEngine" where
  "new_RoutingEngine max_routes = \<lparr>re_routes = [], re_max_routes = max_routes\<rparr>"

definition valid_prefix_length :: "IPAddress \<Rightarrow> u32 \<Rightarrow> bool" where
  "valid_prefix_length p len \<longleftrightarrow> valid_family p \<and> unat len \<le> bit_width p"

definition canonical_prefix :: "IPAddress \<Rightarrow> u32 \<Rightarrow> IPAddress" where
  "canonical_prefix p len = pfx_address (make_prefix p (ucast len))"

definition learned_route_lease_expired :: "Route \<Rightarrow> time \<Rightarrow> bool" where
  "learned_route_lease_expired route now \<longleftrightarrow>
     rt_type route = Relay \<and> now \<ge> rt_validated_at route \<and>
     now - rt_validated_at route \<ge> rt_lease route * 1000"

definition same_candidate :: "Route \<Rightarrow> Route \<Rightarrow> bool" where
  "same_candidate c r \<longleftrightarrow>
     rt_prefix r = rt_prefix c \<and> rt_prefix_length r = rt_prefix_length c \<and> rt_type r = rt_type c \<and>
     rt_next_hop r = rt_next_hop c \<and> rt_destination r = rt_destination c"

text \<open>The shape checks at the head of \<open>add_route\<close>: a complete, loop-free hop list.\<close>

definition route_shape_ok :: "Route \<Rightarrow> bool" where
  "route_shape_ok route =
    (if \<not> valid_prefix_length (rt_prefix route) (rt_prefix_length route) \<or> rt_type route = Unknown
     then False
     else if rt_type route = Relay then
       if rt_next_hop route = rt_destination route then False
       else if length (rt_path route) < 2 \<or> hd (rt_path route) \<noteq> rt_next_hop route \<or>
               last (rt_path route) \<noteq> rt_destination route then False
       else distinct (rt_path route)
     else \<not> (rt_next_hop route \<noteq> rt_destination route \<or> length (rt_path route) \<noteq> 1 \<or>
             hd (rt_path route) \<noteq> rt_destination route))"

definition route_candidate :: "Route \<Rightarrow> Route" where
  "route_candidate route =
    (let c = route\<lparr>rt_prefix := canonical_prefix (rt_prefix route) (rt_prefix_length route)\<rparr>;
         c = (if rt_origin c = ZERO_NODE then c\<lparr>rt_origin := rt_destination c\<rparr> else c)
     in if rt_advertiser c = ZERO_NODE then c\<lparr>rt_advertiser := rt_next_hop c\<rparr> else c)"

definition keep_probe_state :: "Route \<Rightarrow> Route \<Rightarrow> Route" where
  "keep_probe_state existing candidate =
    (if rt_sequence_number candidate = rt_sequence_number existing
     then candidate\<lparr>rt_last_probe_sent_at := rt_last_probe_sent_at existing,
            rt_last_probe_validated_at := rt_last_probe_validated_at existing,
            rt_last_probe_rtt := rt_last_probe_rtt existing,
            rt_probe_failed := rt_probe_failed existing,
            rt_consecutive_probe_failures := rt_consecutive_probe_failures existing,
            rt_probe_hold_down_until := rt_probe_hold_down_until existing\<rparr>
     else candidate)"

definition add_route :: "Route \<Rightarrow> RoutingEngine \<Rightarrow> bool \<times> RoutingEngine" where
  "add_route route re =
    (if \<not> route_shape_ok route then (False, re)
     else
       let candidate = route_candidate route in
       if rt_sequence_number candidate = 0 \<or> rt_lease candidate \<le> 0 \<or>
          rt_lease candidate > ROUTE_MAX_LEASE \<or> rt_metric candidate > ROUTE_MAX_METRIC
       then (False, re)
       else case find (same_candidate candidate) (re_routes re) of
         Some existing \<Rightarrow>
           (True, re\<lparr>re_routes := update_first (same_candidate candidate)
              (\<lambda>existing. keep_probe_state existing candidate) (re_routes re)\<rparr>)
       | None \<Rightarrow>
           if length (re_routes re) \<ge> re_max_routes re then (False, re)
           else if count_if (\<lambda>r. rt_prefix r = rt_prefix candidate \<and>
                     rt_prefix_length r = rt_prefix_length candidate) (re_routes re)
                   \<ge> ROUTING_MAX_CANDIDATES_PER_PREFIX
             then (False, re)
           else (True, re\<lparr>re_routes := re_routes re @ [candidate]\<rparr>))"

definition remove_route :: "node_id \<Rightarrow> RoutingEngine \<Rightarrow> RoutingEngine" where
  "remove_route peer_id re = re\<lparr>re_routes :=
     filter (\<lambda>r. \<not> (rt_destination r = peer_id \<or> rt_next_hop r = peer_id)) (re_routes re)\<rparr>"

definition remove_older_learned_routes ::
    "node_id \<Rightarrow> IPAddress \<Rightarrow> u32 \<Rightarrow> u64 \<Rightarrow> RoutingEngine \<Rightarrow> nat \<times> RoutingEngine" where
  "remove_older_learned_routes origin pfx pfx_len minimum_sequence re =
    (if \<not> valid_prefix_length pfx pfx_len then (0, re)
     else
       let canonical = canonical_prefix pfx pfx_len;
         kept = filter (\<lambda>route. \<not> (rt_type route = Relay \<and> rt_origin route = origin \<and>
                  rt_prefix route = canonical \<and> rt_prefix_length route = pfx_len \<and>
                  rt_sequence_number route < minimum_sequence)) (re_routes re)
       in (length (re_routes re) - length kept, re\<lparr>re_routes := kept\<rparr>))"

definition expire_learned_routes :: "time \<Rightarrow> RoutingEngine \<Rightarrow> nat \<times> RoutingEngine" where
  "expire_learned_routes now re =
    (let kept = filter (\<lambda>route. \<not> learned_route_lease_expired route now) (re_routes re)
     in (length (re_routes re) - length kept, re\<lparr>re_routes := kept\<rparr>))"

text \<open>The search the three probe methods share.\<close>

definition probed_candidate :: "node_id \<Rightarrow> node_id \<Rightarrow> IPAddress \<Rightarrow> u32 \<Rightarrow> u64 \<Rightarrow> Route \<Rightarrow> bool" where
  "probed_candidate dest hop canonical pfx_len seq c \<longleftrightarrow>
     rt_destination c = dest \<and> rt_next_hop c = hop \<and> rt_prefix c = canonical \<and>
     rt_prefix_length c = pfx_len \<and> rt_sequence_number c = seq"

definition update_probed ::
    "node_id \<Rightarrow> node_id \<Rightarrow> IPAddress \<Rightarrow> u32 \<Rightarrow> u64 \<Rightarrow> (Route \<Rightarrow> Route) \<Rightarrow> RoutingEngine
     \<Rightarrow> bool \<times> RoutingEngine" where
  "update_probed dest hop pfx pfx_len seq f re =
    (let P = probed_candidate dest hop (canonical_prefix pfx pfx_len) pfx_len seq in
     if find P (re_routes re) = None then (False, re)
     else (True, re\<lparr>re_routes := update_first P f (re_routes re)\<rparr>))"

definition mark_probe_sent ::
    "node_id \<Rightarrow> node_id \<Rightarrow> IPAddress \<Rightarrow> u32 \<Rightarrow> u64 \<Rightarrow> time \<Rightarrow> RoutingEngine \<Rightarrow> bool \<times> RoutingEngine" where
  "mark_probe_sent dest hop pfx pfx_len seq now re =
    (if \<not> valid_prefix_length pfx pfx_len then (False, re)
     else update_probed dest hop pfx pfx_len seq (\<lambda>r. r\<lparr>rt_last_probe_sent_at := Some now\<rparr>) re)"

definition probe_succeeded :: "time \<Rightarrow> time \<Rightarrow> Route \<Rightarrow> Route" where
  "probe_succeeded now rtt r =
    (let r = r\<lparr>rt_last_probe_validated_at := Some now, rt_last_probe_rtt := Some rtt\<rparr> in
     if \<not> rt_probe_failed r \<or>
        (case rt_probe_hold_down_until r of None \<Rightarrow> False | Some t \<Rightarrow> now \<ge> t)
     then r\<lparr>rt_probe_failed := False, rt_consecutive_probe_failures := 0,
            rt_probe_hold_down_until := None\<rparr>
     else r)"

definition record_probe_success ::
    "node_id \<Rightarrow> node_id \<Rightarrow> IPAddress \<Rightarrow> u32 \<Rightarrow> u64 \<Rightarrow> time \<Rightarrow> time \<Rightarrow> RoutingEngine \<Rightarrow> bool \<times> RoutingEngine" where
  "record_probe_success dest hop pfx pfx_len seq now rtt re =
    (if \<not> valid_prefix_length pfx pfx_len \<or> rtt < 0 then (False, re)
     else update_probed dest hop pfx pfx_len seq (probe_succeeded now rtt) re)"

definition probe_timed_out :: "time \<Rightarrow> Route \<Rightarrow> Route" where
  "probe_timed_out now r =
     r\<lparr>rt_probe_failed := True,
       rt_consecutive_probe_failures :=
         (if rt_consecutive_probe_failures r < 0xFFFFFFFF
          then rt_consecutive_probe_failures r + 1 else rt_consecutive_probe_failures r),
       rt_probe_hold_down_until := Some (now + ROUTE_PROBE_HOLD_DOWN)\<rparr>"

definition record_probe_failure ::
    "node_id \<Rightarrow> node_id \<Rightarrow> IPAddress \<Rightarrow> u32 \<Rightarrow> u64 \<Rightarrow> time \<Rightarrow> RoutingEngine \<Rightarrow> bool \<times> RoutingEngine" where
  "record_probe_failure dest hop pfx pfx_len seq now re =
    (if \<not> valid_prefix_length pfx pfx_len then (False, re)
     else update_probed dest hop pfx pfx_len seq (probe_timed_out now) re)"

definition clear_routes :: "RoutingEngine \<Rightarrow> RoutingEngine" where
  "clear_routes re = re\<lparr>re_routes := []\<rparr>"

text \<open>One iteration of the loop of \<open>find_route\<close>.\<close>

definition eligible :: "IPAddress \<Rightarrow> Route \<Rightarrow> bool" where
  "eligible dest_ip route \<longleftrightarrow> \<not> rt_probe_failed route \<and>
     prefix_contains (make_prefix (rt_prefix route) (ucast (rt_prefix_length route))) dest_ip"

definition better_route :: "IPAddress \<Rightarrow> Route option \<Rightarrow> Route \<Rightarrow> Route option" where
  "better_route dest_ip best route =
    (if \<not> eligible dest_ip route then best
     else case best of
       None \<Rightarrow> Some route
     | Some b \<Rightarrow>
         if rt_prefix_length route > rt_prefix_length b then Some route
         else if rt_prefix_length route = rt_prefix_length b then
           if rt_type route = Direct \<and> rt_type b = Relay then Some route
           else if rt_type route = Relay \<and> rt_type b = Relay \<and> length (rt_path route) < length (rt_path b)
             then Some route
           else best
         else best)"

definition find_route :: "IPAddress \<Rightarrow> RoutingEngine \<Rightarrow> Route option" where
  "find_route dest_ip re =
    (case foldl (better_route dest_ip) None (re_routes re) of
       None \<Rightarrow> None
     | Some best \<Rightarrow>
         if rt_type best = Relay \<and>
            (length (rt_path best) < 2 \<or> hd (rt_path best) \<noteq> rt_next_hop best \<or>
             last (rt_path best) \<noteq> rt_destination best \<or> \<not> distinct (rt_path best))
         then None else Some best)"

definition find_peer :: "IPAddress \<Rightarrow> RoutingEngine \<Rightarrow> node_id option" where
  "find_peer dest_ip re = map_option rt_destination (find_route dest_ip re)"

definition find_next_hop :: "IPAddress \<Rightarrow> RoutingEngine \<Rightarrow> node_id option" where
  "find_next_hop dest_ip re = map_option rt_next_hop (find_route dest_ip re)"

definition routing_size :: "RoutingEngine \<Rightarrow> nat" where
  "routing_size re = length (re_routes re)"

definition routing_empty :: "RoutingEngine \<Rightarrow> bool" where
  "routing_empty re \<longleftrightarrow> re_routes re = []"

definition routes_to :: "node_id \<Rightarrow> RoutingEngine \<Rightarrow> Route list" where
  "routes_to dest re = filter (\<lambda>r. rt_destination r = dest) (re_routes re)"

section \<open>Invariant\<close>

definition route_key :: "Route \<Rightarrow> IPAddress \<times> u32 \<times> NextHopType \<times> node_id \<times> node_id" where
  "route_key r = (rt_prefix r, rt_prefix_length r, rt_type r, rt_next_hop r, rt_destination r)"

definition route_ok :: "Route \<Rightarrow> bool" where
  "route_ok r \<longleftrightarrow> route_shape_ok r \<and>
     canonical_prefix (rt_prefix r) (rt_prefix_length r) = rt_prefix r \<and>
     rt_sequence_number r \<noteq> 0 \<and> 0 < rt_lease r \<and> rt_lease r \<le> ROUTE_MAX_LEASE \<and>
     rt_metric r \<le> ROUTE_MAX_METRIC"

text \<open>Every stored route is well-formed, no candidate is stored twice, and both
  bounds hold.\<close>

definition routing_ok :: "RoutingEngine \<Rightarrow> bool" where
  "routing_ok re \<longleftrightarrow>
     (\<forall>r \<in> set (re_routes re). route_ok r) \<and> distinct (map route_key (re_routes re)) \<and>
     length (re_routes re) \<le> re_max_routes re \<and>
     (\<forall>p n. count_if (\<lambda>r. rt_prefix r = p \<and> rt_prefix_length r = n) (re_routes re)
        \<le> ROUTING_MAX_CANDIDATES_PER_PREFIX)"

lemma same_candidate_key: "same_candidate c r \<longleftrightarrow> route_key r = route_key c"
  by (auto simp: same_candidate_def route_key_def)

subsection \<open>Canonical prefixes\<close>

lemma addr_bytes_canonicalize:
  assumes "valid_prefix p" "k < length (addr_bytes (pfx_address p))"
  shows "addr_bytes (pfx_address (canonicalize p)) ! k =
    (if k < unat (pfx_length p) div 8 then addr_bytes (pfx_address p) ! k
     else if k = unat (pfx_length p) div 8 \<and> unat (pfx_length p) mod 8 \<noteq> 0
     then addr_bytes (pfx_address p) ! k AND prefix_mask (unat (pfx_length p) mod 8) else 0)"
proof -
  let ?n = "unat (pfx_length p)" and ?w = "bit_width (pfx_address p)"
  have w: "?n \<le> ?w" "?w mod 8 = 0"
    using assms(1) valid_bit_width [of "pfx_address p"] by (simp_all add: valid_prefix_def)
  have "?n div 8 \<le> ?w div 8" using w(1) by (rule div_le_mono)
  moreover have "?n div 8 < ?w div 8" if "?n mod 8 \<noteq> 0"
    using that w div_mult_mod_eq [of ?n 8] div_mult_mod_eq [of ?w 8] by linarith
  ultimately show ?thesis
    using assms(2) w(1) by (auto simp: canonicalize_def Let_def nth_zero_range nth_list_update)
qed

lemma canonicalize_fields [simp]:
  "pfx_length (canonicalize p) = pfx_length p"
  "addr_family (pfx_address (canonicalize p)) = addr_family (pfx_address p)"
  "length (addr_bytes (pfx_address (canonicalize p))) = length (addr_bytes (pfx_address p))"
  by (simp_all add: canonicalize_def Let_def)

lemma canonicalize_valid: "valid_prefix (canonicalize p) = valid_prefix p"
  by (simp add: valid_prefix_def valid_family_def bit_width_def)

lemma canonicalize_idem:
  assumes "valid_prefix p"
  shows "canonicalize (canonicalize p) = canonicalize p"
proof -
  have "addr_bytes (pfx_address (canonicalize (canonicalize p))) = addr_bytes (pfx_address (canonicalize p))"
  proof (rule nth_equalityI)
    fix k assume "k < length (addr_bytes (pfx_address (canonicalize (canonicalize p))))"
    then show "addr_bytes (pfx_address (canonicalize (canonicalize p))) ! k =
        addr_bytes (pfx_address (canonicalize p)) ! k"
      using assms canonicalize_valid [of p]
      by (simp add: addr_bytes_canonicalize and.assoc)
  qed simp
  then show ?thesis by (simp add: IPPrefix.equality IPAddress.equality)
qed

lemma canonical_prefix_idem:
  assumes "valid_prefix_length a n"
  shows "canonical_prefix (canonical_prefix a n) n = canonical_prefix a n"
    and "valid_prefix_length (canonical_prefix a n) n"
proof -
  let ?p = "\<lparr>pfx_address = a, pfx_length = ucast n\<rparr>"
  have n: "unat n \<le> 128" using assms valid_bit_width [of a] by (auto simp: valid_prefix_length_def)
  then have u: "unat (ucast n :: byte) = unat n"
    by (simp add: unsigned_ucast_eq take_bit_nat_eq_self)
  have v: "valid_prefix ?p" using assms by (simp add: valid_prefix_def valid_prefix_length_def u)
  have "canonicalize ?p = \<lparr>pfx_address = canonical_prefix a n, pfx_length = ucast n\<rparr>"
    by (simp add: canonical_prefix_def make_prefix_def IPPrefix.equality)
  then show "canonical_prefix (canonical_prefix a n) n = canonical_prefix a n"
    using canonicalize_idem [OF v] unfolding canonical_prefix_def [of "canonical_prefix a n"] make_prefix_def
    by (metis IPPrefix.select_convs(1))
  show "valid_prefix_length (canonical_prefix a n) n"
    using assms
    by (auto simp: canonical_prefix_def make_prefix_def valid_prefix_length_def valid_family_def bit_width_def)
qed

subsection \<open>Preservation\<close>

lemma route_candidate_fields [simp]:
  "rt_prefix (route_candidate r) = canonical_prefix (rt_prefix r) (rt_prefix_length r)"
  "rt_prefix_length (route_candidate r) = rt_prefix_length r" "rt_type (route_candidate r) = rt_type r"
  "rt_next_hop (route_candidate r) = rt_next_hop r" "rt_destination (route_candidate r) = rt_destination r"
  "rt_path (route_candidate r) = rt_path r" "rt_sequence_number (route_candidate r) = rt_sequence_number r"
  "rt_lease (route_candidate r) = rt_lease r" "rt_metric (route_candidate r) = rt_metric r"
  by (simp_all add: route_candidate_def Let_def)

lemma route_candidate_ok:
  assumes "route_shape_ok r" "rt_sequence_number r \<noteq> 0" "0 < rt_lease r" "rt_lease r \<le> ROUTE_MAX_LEASE"
    "rt_metric r \<le> ROUTE_MAX_METRIC"
  shows "route_ok (route_candidate r)"
proof -
  have v: "valid_prefix_length (rt_prefix r) (rt_prefix_length r)"
    using assms(1) by (auto simp: route_shape_ok_def split: if_splits)
  show ?thesis
    using assms canonical_prefix_idem [OF v] by (auto simp: route_ok_def route_shape_ok_def split: if_splits)
qed

lemma keep_probe_state_fields [simp]:
  "route_key (keep_probe_state e c) = route_key c" "route_ok (keep_probe_state e c) = route_ok c"
proof -
  have f: "rt_prefix (keep_probe_state e c) = rt_prefix c"
    "rt_prefix_length (keep_probe_state e c) = rt_prefix_length c"
    "rt_type (keep_probe_state e c) = rt_type c" "rt_next_hop (keep_probe_state e c) = rt_next_hop c"
    "rt_destination (keep_probe_state e c) = rt_destination c" "rt_path (keep_probe_state e c) = rt_path c"
    "rt_sequence_number (keep_probe_state e c) = rt_sequence_number c"
    "rt_lease (keep_probe_state e c) = rt_lease c" "rt_metric (keep_probe_state e c) = rt_metric c"
    by (simp_all add: keep_probe_state_def)
  show "route_key (keep_probe_state e c) = route_key c" "route_ok (keep_probe_state e c) = route_ok c"
    by (simp_all only: route_key_def route_ok_def route_shape_ok_def f)
qed

lemma probe_updates_fields [simp]:
  "route_key (probe_succeeded now rtt r) = route_key r" "route_ok (probe_succeeded now rtt r) = route_ok r"
  "route_key (probe_timed_out now r) = route_key r" "route_ok (probe_timed_out now r) = route_ok r"
  "route_key (r\<lparr>rt_last_probe_sent_at := x\<rparr>) = route_key r" "route_ok (r\<lparr>rt_last_probe_sent_at := x\<rparr>) = route_ok r"
  by (auto simp: probe_succeeded_def probe_timed_out_def route_key_def route_ok_def route_shape_ok_def Let_def
      split: option.splits)

lemma key_prefix: "rt_prefix r = p \<and> rt_prefix_length r = n \<longleftrightarrow> fst (route_key r) = p \<and> fst (snd (route_key r)) = n"
  by (simp add: route_key_def)

lemma routing_ok_update:
  assumes "routing_ok re" "\<And>r. P r \<Longrightarrow> route_key (f r) = route_key r" "\<And>r. P r \<Longrightarrow> route_ok r \<Longrightarrow> route_ok (f r)"
  shows "routing_ok (re\<lparr>re_routes := update_first P f (re_routes re)\<rparr>)"
proof -
  have "route_ok r" if "r \<in> set (update_first P f (re_routes re))" for r
    using update_first_set [OF that] assms(1,3) by (auto simp: routing_ok_def)
  then show ?thesis
    using assms(1) map_update_first [of P route_key f, OF assms(2)]
      count_if_update_first [of P "\<lambda>r. rt_prefix r = p \<and> rt_prefix_length r = n" f for p n] assms(2)
    by (simp add: routing_ok_def key_prefix)
qed

lemma routing_ok_filter:
  "routing_ok re \<Longrightarrow> routing_ok (re\<lparr>re_routes := filter Q (re_routes re)\<rparr>)"
  by (auto simp: routing_ok_def distinct_map_filter intro: le_trans [OF length_filter_le]
      le_trans [OF count_if_filter_le])

lemma add_route_ok:
  assumes "routing_ok re"
  shows "routing_ok (snd (add_route r re))"
proof -
  let ?c = "route_candidate r"
  let ?same = "\<lambda>r. rt_prefix r = rt_prefix ?c \<and> rt_prefix_length r = rt_prefix_length ?c"
  show ?thesis
  proof (cases "route_shape_ok r \<and> rt_sequence_number r \<noteq> 0 \<and> 0 < rt_lease r \<and>
      rt_lease r \<le> ROUTE_MAX_LEASE \<and> rt_metric r \<le> ROUTE_MAX_METRIC")
    case False
    then have "add_route r re = (False, re)" by (auto simp: add_route_def Let_def)
    then show ?thesis using assms by simp
  next
    case True
    then have c: "route_ok ?c" by (simp add: route_candidate_ok)
    have guards: "route_shape_ok r" "\<not> (rt_sequence_number ?c = 0 \<or> rt_lease ?c \<le> 0 \<or>
        rt_lease ?c > ROUTE_MAX_LEASE \<or> rt_metric ?c > ROUTE_MAX_METRIC)"
      using True by auto
    show ?thesis
    proof (cases "find (same_candidate ?c) (re_routes re)")
      case (Some e)
      then have "snd (add_route r re) = re\<lparr>re_routes := update_first (same_candidate ?c)
          (\<lambda>e. keep_probe_state e ?c) (re_routes re)\<rparr>"
        using guards by (simp only: add_route_def Let_def if_False if_True not_True_eq_False option.simps snd_conv)
      then show ?thesis
        using c routing_ok_update [OF assms, of "same_candidate ?c" "\<lambda>e. keep_probe_state e ?c"]
        by (simp add: same_candidate_key)
    next
      case None
      then have new: "\<forall>x \<in> set (re_routes re). route_key x \<noteq> route_key ?c"
        by (simp add: find_None_iff_all same_candidate_key)
      have "snd (add_route r re) = (if re_max_routes re \<le> length (re_routes re) \<or> 8 \<le> count_if ?same (re_routes re)
          then re else re\<lparr>re_routes := re_routes re @ [?c]\<rparr>)"
        using guards None by (simp add: add_route_def Let_def)
      moreover have "routing_ok (re\<lparr>re_routes := re_routes re @ [?c]\<rparr>)"
        if "length (re_routes re) < re_max_routes re" "count_if ?same (re_routes re) < 8"
      proof -
        have "count_if (\<lambda>r. rt_prefix r = p \<and> rt_prefix_length r = n) (re_routes re @ [?c]) \<le> 8" for p n
          using assms that(2) by (auto simp: routing_ok_def count_if_def)
        then show ?thesis using assms c that(1) new by (auto simp: routing_ok_def)
      qed
      ultimately show ?thesis using assms by (simp add: not_le)
    qed
  qed
qed

lemma update_probed_ok:
  assumes "routing_ok re" "\<And>r. route_key (f r) = route_key r" "\<And>r. route_ok (f r) = route_ok r"
  shows "routing_ok (snd (update_probed d h p n q f re))"
  using assms routing_ok_update [OF assms(1), of _ f] by (simp add: update_probed_def Let_def)

text \<open>The methods that change the table, as one step function over calls.\<close>

datatype routing_call =
    AddRoute Route
  | RemoveRoute node_id
  | RemoveOlder node_id IPAddress u32 u64
  | ExpireLearned time
  | MarkProbeSent node_id node_id IPAddress u32 u64 time
  | ProbeSuccess node_id node_id IPAddress u32 u64 time time
  | ProbeFailure node_id node_id IPAddress u32 u64 time
  | ClearRoutes

fun routing_step :: "routing_call \<Rightarrow> RoutingEngine \<Rightarrow> RoutingEngine" where
  "routing_step (AddRoute r) re = snd (add_route r re)"
| "routing_step (RemoveRoute n) re = remove_route n re"
| "routing_step (RemoveOlder n a l q) re = snd (remove_older_learned_routes n a l q re)"
| "routing_step (ExpireLearned now) re = snd (expire_learned_routes now re)"
| "routing_step (MarkProbeSent d h a l q now) re = snd (mark_probe_sent d h a l q now re)"
| "routing_step (ProbeSuccess d h a l q now rtt) re = snd (record_probe_success d h a l q now rtt re)"
| "routing_step (ProbeFailure d h a l q now) re = snd (record_probe_failure d h a l q now re)"
| "routing_step ClearRoutes re = clear_routes re"

lemma routing_step_ok: "routing_ok re \<Longrightarrow> routing_ok (routing_step c re)"
proof (induction c)
  case (AddRoute r)
  then show ?case by (simp add: add_route_ok)
next
  case (ProbeSuccess d h a l q now rtt)
  then show ?case by (simp add: record_probe_success_def update_probed_ok)
next
  case (ProbeFailure d h a l q now)
  then show ?case by (simp add: record_probe_failure_def update_probed_ok)
next
  case (MarkProbeSent d h a l q now)
  then show ?case by (simp add: mark_probe_sent_def update_probed_ok)
next
  case ClearRoutes
  then show ?case by (simp add: clear_routes_def routing_ok_def count_if_def)
qed (simp_all add: remove_route_def remove_older_learned_routes_def expire_learned_routes_def
    Let_def routing_ok_filter)

lemma routing_ok_run: "routing_ok (fold routing_step cs (new_RoutingEngine n))"
proof -
  have "routing_ok re \<Longrightarrow> routing_ok (fold routing_step cs re)" for re
    by (induction cs arbitrary: re) (simp_all add: routing_step_ok)
  moreover have "routing_ok (new_RoutingEngine n)"
    by (simp add: new_RoutingEngine_def routing_ok_def count_if_def)
  ultimately show ?thesis by blast
qed

end
