(* ===== verification/Routing_Properties.thy ===== *)
theory Routing_Properties
  imports Routing
begin

text \<open>
  Properties of the routing table: the invariant of every run, longest-prefix
  match with its tie breaks, prefix membership and canonical form bit by bit,
  and the suppression of a route after a failed probe.
\<close>

section \<open>Longest prefix match\<close>

text \<open>The order of the lookup: a longer prefix first, then a direct route before a
  relayed one, then the shorter relay path.\<close>

definition preferred :: "Route \<Rightarrow> Route \<Rightarrow> bool" where
  "preferred r b \<longleftrightarrow> rt_prefix_length r > rt_prefix_length b \<or>
     (rt_prefix_length r = rt_prefix_length b \<and>
      (rt_type r = Direct \<and> rt_type b = Relay \<or>
       rt_type r = Relay \<and> rt_type b = Relay \<and> length (rt_path r) < length (rt_path b)))"

lemma better_route_preferred:
  "better_route d best r =
    (if \<not> eligible d r then best
     else case best of None \<Rightarrow> Some r | Some b \<Rightarrow> if preferred r b then Some r else best)"
  by (auto simp: better_route_def preferred_def split: option.splits)

lemma preferred_trans:
  assumes "rt_type r \<noteq> Unknown" "rt_type x \<noteq> Unknown" "rt_type b \<noteq> Unknown"
    and "\<not> preferred r b" "preferred x b"
  shows "\<not> preferred r x"
  using assms
  by (cases "rt_type r"; cases "rt_type x"; cases "rt_type b") (auto simp: preferred_def)

definition best_of :: "IPAddress \<Rightarrow> Route list \<Rightarrow> Route option \<Rightarrow> bool" where
  "best_of d rs best \<longleftrightarrow>
     (case best of
        None \<Rightarrow> \<forall>r \<in> set rs. \<not> eligible d r
      | Some b \<Rightarrow> b \<in> set rs \<and> eligible d b \<and> (\<forall>r \<in> set rs. eligible d r \<longrightarrow> \<not> preferred r b))"

lemma preferred_irrefl: "\<not> preferred r r"
  by (auto simp: preferred_def)

lemma best_of_fold:
  "\<forall>r \<in> set rs. rt_type r \<noteq> Unknown \<Longrightarrow> best_of d rs (foldl (better_route d) None rs)"
proof (induction rs rule: rev_induct)
  case (snoc x rs)
  then have ih: "best_of d rs (foldl (better_route d) None rs)" by simp
  show ?case
  proof (cases "foldl (better_route d) None rs")
    case None
    then show ?thesis
      using ih better_route_preferred [of d None x] by (auto simp: best_of_def preferred_irrefl)
  next
    case (Some b)
    have "\<not> preferred r x" if "preferred x b" "r \<in> set rs" "\<not> preferred r b" for r
      using preferred_trans [OF _ _ _ that(3,1)] snoc.prems that(2) ih Some by (auto simp: best_of_def)
    then show ?thesis
      using ih Some better_route_preferred [of d "Some b" x] by (auto simp: best_of_def preferred_irrefl)
  qed
qed (simp add: best_of_def)

lemma route_ok_type: "route_ok r \<Longrightarrow> rt_type r \<noteq> Unknown"
  by (auto simp: route_ok_def route_shape_ok_def split: if_splits)

lemma route_ok_relay:
  "route_ok r \<Longrightarrow> rt_type r = Relay \<Longrightarrow>
     \<not> (length (rt_path r) < 2 \<or> hd (rt_path r) \<noteq> rt_next_hop r \<or>
        last (rt_path r) \<noteq> rt_destination r \<or> \<not> distinct (rt_path r))"
  by (auto simp: route_ok_def route_shape_ok_def split: if_splits)

lemma find_route_best:
  assumes "routing_ok re"
  shows "best_of d (re_routes re) (find_route d re)"
proof -
  have ok: "\<forall>r \<in> set (re_routes re). route_ok r" using assms by (simp add: routing_ok_def)
  then have b: "best_of d (re_routes re) (foldl (better_route d) None (re_routes re))"
    by (intro best_of_fold) (auto dest: route_ok_type)
  have "find_route d re = foldl (better_route d) None (re_routes re)"
  proof (cases "foldl (better_route d) None (re_routes re)")
    case (Some r)
    then have "route_ok r" using b ok by (auto simp: best_of_def)
    then show ?thesis using Some route_ok_relay [of r] by (auto simp: find_route_def)
  qed (simp add: find_route_def)
  with b show ?thesis by simp
qed

section \<open>Properties\<close>

text \<open>C12: whatever sequence of calls ran, every stored route is well-formed (valid
  canonical prefix, direct or complete loop-free relay path, sequence number,
  lease and metric in range), no candidate is stored twice, and neither the
  table nor the candidates of one prefix exceed their bounds.\<close>

theorem routing_table_invariant: "routing_ok (fold routing_step calls (new_RoutingEngine max_routes))"
  by (rule routing_ok_run)

text \<open>C13: the lookup is longest-prefix match with the documented tie breaks.  In
  every table the calls can build, it finds no route only if no usable
  candidate contains the address; otherwise the route it returns contains the
  address, is not suppressed, and no other usable candidate is preferred to
  it.\<close>

theorem find_route_longest_prefix:
  "best_of d (re_routes (fold routing_step calls (new_RoutingEngine max_routes)))
     (find_route d (fold routing_step calls (new_RoutingEngine max_routes)))"
  by (rule find_route_best [OF routing_ok_run])

text \<open>Membership in a prefix is agreement on its leading bits: the byte and
  mask arithmetic accepts an address exactly when the prefix is valid, the
  families agree, and the first \<open>length\<close> bits are equal; canonicalising the
  prefix before the test does not change the answer.\<close>

theorem prefix_membership:
  assumes "length (addr_bytes a) = 16"
  shows "prefix_contains (make_prefix a n) c \<longleftrightarrow>
    valid_family a \<and> unat n \<le> bit_width a \<and> addr_family c = addr_family a \<and>
    (\<forall>i < unat n. addr_bit a i = addr_bit c i)"
proof -
  let ?p = "\<lparr>pfx_address = a, pfx_length = n\<rparr>"
  have v: "valid_prefix (make_prefix a n) \<longleftrightarrow> valid_family a \<and> unat n \<le> bit_width a"
    using canonicalize_valid [of ?p] by (simp add: make_prefix_def valid_prefix_def)
  have "addr_bit (pfx_address (make_prefix a n)) i = addr_bit a i"
    if "valid_family a" "unat n \<le> bit_width a" "i < unat n" for i
  proof -
    have "valid_prefix ?p" "i < 128"
      using that valid_bit_width [OF that(1)] by (auto simp: valid_prefix_def)
    then show ?thesis using addr_bit_canonicalize [of ?p i] assms that(3) by (simp add: make_prefix_def)
  qed
  then show ?thesis
    unfolding prefix_contains_bits v by (auto simp: make_prefix_def)
qed

theorem prefix_membership_witness:
  "prefix_contains (make_prefix (from_ipv4 0x0A010203) 20) (from_ipv4 0x0A010FFF) \<and>
   \<not> prefix_contains (make_prefix (from_ipv4 0x0A010203) 20) (from_ipv4 0x0A011000) \<and>
   addr_bit (from_ipv4 0x0A010203) 19 = addr_bit (from_ipv4 0x0A010FFF) 19"
proof -
  have "length (addr_bytes (from_ipv4 0x0A010203)) = 16" by (simp add: from_ipv4_def)
  note p = prefix_membership [OF this, of 20]
  have "prefix_contains (make_prefix (from_ipv4 0x0A010203) 20) (from_ipv4 0x0A010FFF)"
    "\<not> prefix_contains (make_prefix (from_ipv4 0x0A010203) 20) (from_ipv4 0x0A011000)"
    by code_simp+
  moreover from this(1) have "\<forall>i < unat (20 :: byte). addr_bit (from_ipv4 0x0A010203) i = addr_bit (from_ipv4 0x0A010FFF) i"
    unfolding p by blast
  ultimately show ?thesis by simp
qed

text \<open>A failed probe takes its candidate out of service for the hold-down.  A
  success that arrives before the hold-down ends does not bring it back; the
  first success at or after its end does, with the failure count reset.\<close>

theorem probe_hold_down:
  assumes "r' = probe_timed_out t r"
  shows "eligible d (probe_succeeded t' rtt r') \<longleftrightarrow>
    t + ROUTE_PROBE_HOLD_DOWN \<le> t' \<and>
    prefix_contains (make_prefix (rt_prefix r) (ucast (rt_prefix_length r))) d"
  using assms by (auto simp: eligible_def probe_timed_out_def probe_succeeded_def Let_def)

definition demo_route :: Route where
  "demo_route = default_route\<lparr>rt_prefix := from_ipv4 0x0A000000, rt_prefix_length := 8,
     rt_type := Direct, rt_next_hop := replicate 32 2, rt_destination := replicate 32 2,
     rt_path := [replicate 32 2]\<rparr>"

theorem probe_hold_down_witness:
  "eligible (from_ipv4 0x0A010203) (probe_succeeded 31000 5 (probe_timed_out 1000 demo_route)) \<and>
   \<not> eligible (from_ipv4 0x0A010203) (probe_succeeded 30999 5 (probe_timed_out 1000 demo_route))"
proof -
  have "prefix_contains (make_prefix (rt_prefix demo_route) (ucast (rt_prefix_length demo_route)))
      (from_ipv4 0x0A010203)" by code_simp
  then show ?thesis using probe_hold_down [OF refl, of "from_ipv4 0x0A010203" _ _ 1000 demo_route] by simp
qed

text \<open>The table answers for what was added: after a route is accepted into a
  table that the calls built and in which no candidate is suppressed, looking
  up an address inside its prefix returns a route whose prefix is at least as
  long.\<close>

theorem added_route_reachable:
  assumes "add_route r (fold routing_step calls (new_RoutingEngine n)) = (True, re)"
    and "\<forall>e \<in> set (re_routes (fold routing_step calls (new_RoutingEngine n))). \<not> rt_probe_failed e"
    and "\<not> rt_probe_failed r"
    and "prefix_contains (make_prefix (rt_prefix r) (ucast (rt_prefix_length r))) d"
  shows "\<exists>found. find_route d re = Some found \<and> rt_prefix_length r \<le> rt_prefix_length found"
proof -
  let ?re = "fold routing_step calls (new_RoutingEngine n)"
  have ok: "routing_ok re" using add_route_ok [OF routing_ok_run, of r calls n] assms(1) by simp
  obtain x where x: "x \<in> set (re_routes re)" "rt_prefix x = rt_prefix (route_candidate r)"
      "rt_prefix_length x = rt_prefix_length r" "\<not> rt_probe_failed x"
  proof (cases "find (same_candidate (route_candidate r)) (re_routes ?re)")
    case (Some e)
    then have re: "re = ?re\<lparr>re_routes := update_first (same_candidate (route_candidate r))
        (\<lambda>e. keep_probe_state e (route_candidate r)) (re_routes ?re)\<rparr>"
      using assms(1) by (auto simp: add_route_def Let_def split: if_splits)
    from update_first_some [OF Some, of "\<lambda>e. keep_probe_state e (route_candidate r)"]
    have "keep_probe_state e (route_candidate r) \<in> set (re_routes re)" "e \<in> set (re_routes ?re)"
      unfolding re by auto
    moreover have "\<not> rt_probe_failed (keep_probe_state e (route_candidate r))"
      using assms(2,3) calculation(2) by (simp add: keep_probe_state_def route_candidate_def Let_def)
    ultimately show ?thesis by (intro that) (simp_all add: keep_probe_state_def)
  next
    case None
    then have "re = ?re\<lparr>re_routes := re_routes ?re @ [route_candidate r]\<rparr>"
      using assms(1) by (auto simp: add_route_def Let_def split: if_splits)
    then show ?thesis using assms(3) by (intro that [of "route_candidate r"]) (simp_all add: route_candidate_def Let_def)
  qed
  have shape: "valid_prefix_length (rt_prefix r) (rt_prefix_length r)"
    using assms(1) by (auto simp: add_route_def route_shape_ok_def split: if_splits)
  have "make_prefix (canonical_prefix (rt_prefix r) (rt_prefix_length r)) (ucast (rt_prefix_length r)) =
      make_prefix (rt_prefix r) (ucast (rt_prefix_length r))"
    using canonical_prefix_idem(1) [OF shape]
    by (intro IPPrefix.equality) (simp_all add: canonical_prefix_def make_prefix_def)
  then have "eligible d x" using x assms(4) by (simp add: eligible_def)
  then show ?thesis
    using find_route_best [OF ok, of d] x(1,3)
    by (auto simp: best_of_def preferred_def not_less split: option.splits)
qed

theorem added_route_reachable_witness:
  "\<exists>re found. add_route demo_route (fold routing_step [] (new_RoutingEngine 4)) = (True, re) \<and>
     find_route (from_ipv4 0x0A010203) re = Some found \<and> 8 \<le> rt_prefix_length found"
proof -
  have "fst (add_route demo_route (fold routing_step [] (new_RoutingEngine 4)))" by code_simp
  then obtain re where a: "add_route demo_route (fold routing_step [] (new_RoutingEngine 4)) = (True, re)"
    by (metis prod.collapse)
  have f: "\<forall>e \<in> set (re_routes (fold routing_step [] (new_RoutingEngine 4))). \<not> rt_probe_failed e"
    "\<not> rt_probe_failed demo_route"
    by (simp_all add: new_RoutingEngine_def demo_route_def default_route_def)
  have c: "prefix_contains (make_prefix (rt_prefix demo_route) (ucast (rt_prefix_length demo_route)))
      (from_ipv4 0x0A010203)" by code_simp
  have "rt_prefix_length demo_route = 8" by (simp add: demo_route_def)
  then show ?thesis using a added_route_reachable [OF a f c] by auto
qed

end
