(* ===== verification/Wire_List.thy ===== *)
theory Wire_List
  imports Wire
begin

text \<open>
  Lists of entries on the wire: the loops that write every element of a vector
  and read a counted number of them.  The contract \<open>entry_stream\<close> is what the
  loops need of one entry, where the reader may return a normal form of what was
  written; \<open>entry_codec\<close> adds that the reader accepts nothing else and returns the
  entry itself.  They are interpreted by each message that carries a list.
\<close>

fun write_each :: "('a \<Rightarrow> wire_writer \<Rightarrow> wire_writer option) \<Rightarrow> 'a list \<Rightarrow> wire_writer \<Rightarrow> wire_writer option" where
  "write_each put [] w = Some w"
| "write_each put (x # xs) w = do { w \<leftarrow> put x w; write_each put xs w }"

fun read_count :: "(wire_reader \<Rightarrow> ('a \<times> wire_reader) option) \<Rightarrow> nat \<Rightarrow> wire_reader \<Rightarrow> ('a list \<times> wire_reader) option" where
  "read_count get 0 r = Some ([], r)"
| "read_count get (Suc n) r = do {
     (x, r) \<leftarrow> get r;
     (xs, r) \<leftarrow> read_count get n r;
     Some (x # xs, r) }"

lemma write_each_SomeD: "write_each put xs w = Some w' \<Longrightarrow> x \<in> set xs \<Longrightarrow> \<exists>v v'. put x v = Some v'"
  by (induction xs arbitrary: w) (auto simp: bind_eq_Some_conv)

locale entry_stream =
  fixes wf1 :: "'a \<Rightarrow> bool"
    and enc1 :: "'a \<Rightarrow> bytes"
    and put :: "'a \<Rightarrow> wire_writer \<Rightarrow> wire_writer option"
    and get :: "wire_reader \<Rightarrow> ('a \<times> wire_reader) option"
    and norm :: "'a \<Rightarrow> 'a"
  assumes put_at: "wf1 x \<Longrightarrow> length (enc1 x) \<le> length free \<Longrightarrow>
      put x (writer_at out free) = Some (writer_at (out @ enc1 x) (drop (length (enc1 x)) free))"
    and get_at: "wf1 x \<Longrightarrow> get (reader_at pre (enc1 x @ t)) = Some (norm x, reader_at (pre @ enc1 x) t)"
begin

definition enc_all :: "'a list \<Rightarrow> bytes" where
  "enc_all xs = concat (map enc1 xs)"

lemma enc_all_simps [simp]: "enc_all [] = []" "enc_all (x # xs) = enc1 x @ enc_all xs"
  by (simp_all add: enc_all_def)

lemma put_each_at:
  "\<forall>x \<in> set xs. wf1 x \<Longrightarrow> length (enc_all xs) \<le> length free \<Longrightarrow>
    write_each put xs (writer_at out free) =
      Some (writer_at (out @ enc_all xs) (drop (length (enc_all xs)) free))"
proof (induction xs arbitrary: out free)
  case (Cons x xs)
  then show ?case by (simp add: put_at add.commute)
qed simp

lemma get_each_at:
  "\<forall>x \<in> set xs. wf1 x \<Longrightarrow>
    read_count get (length xs) (reader_at pre (enc_all xs @ t)) = Some (map norm xs, reader_at (pre @ enc_all xs) t)"
  by (induction xs arbitrary: pre) (simp_all add: get_at)

lemma length_enc_all: "(\<And>x. wf1 x \<Longrightarrow> length (enc1 x) = k) \<Longrightarrow> \<forall>x \<in> set xs. wf1 x \<Longrightarrow> length (enc_all xs) = length xs * k"
  by (induction xs) simp_all

end

locale entry_codec = entry_stream wf1 enc1 put get "\<lambda>x. x" for
    wf1 :: "'a \<Rightarrow> bool" and enc1 :: "'a \<Rightarrow> bytes" and put and get +
  assumes get_SomeD: "get (reader_at pre suf) = Some (x, r) \<Longrightarrow>
      wf1 x \<and> (\<exists>t. suf = enc1 x @ t \<and> r = reader_at (pre @ enc1 x) t)"
begin

lemma get_each_SomeD:
  "read_count get n (reader_at pre suf) = Some (xs, r) \<Longrightarrow>
    length xs = n \<and> (\<forall>x \<in> set xs. wf1 x) \<and> (\<exists>t. suf = enc_all xs @ t \<and> r = reader_at (pre @ enc_all xs) t)"
proof (induction n arbitrary: pre suf xs r)
  case (Suc n)
  then obtain x r1 ys where
    g: "get (reader_at pre suf) = Some (x, r1)" "read_count get n r1 = Some (ys, r)" "xs = x # ys"
    by (auto simp: bind_eq_Some_conv)
  from get_SomeD [OF g(1)] obtain t where
    t: "wf1 x" "suf = enc1 x @ t" "r1 = reader_at (pre @ enc1 x) t" by blast
  from Suc.IH [OF g(2) [unfolded t(3)]] t g(3) show ?case by auto
qed simp

end

end
