(* ===== verification/Net_Codec.thy ===== *)
theory Net_Codec
  imports Wire Net_Address
begin

text \<open>
  The byte forms of addresses that the wire codecs share: an IPv4 address is
  its four bytes, most significant first, followed by twelve zero bytes.
\<close>

lemma from_ipv4_bytes: "from_ipv4 v = \<lparr>addr_family = IPv4, addr_bytes = be32 v @ replicate 12 0\<rparr>"
  by (simp add: from_ipv4_def be32_def)

lemma from_ipv4_fields [simp]:
  "length (addr_bytes (from_ipv4 v)) = 16" "drop 4 (addr_bytes (from_ipv4 v)) = replicate 12 0"
  "addr_family (from_ipv4 v) = IPv4"
  by (simp_all add: from_ipv4_bytes)

lemma ipv4_value_from_ipv4 [simp]: "ipv4_value (from_ipv4 v) = v"
proof -
  have "ipv4_value (from_ipv4 v) = be_word (be32 v)"
    by (subst be_word_four) (simp_all add: ipv4_value_def from_ipv4_bytes nth_append)
  then show ?thesis by simp
qed

lemma from_ipv4_ipv4_value:
  assumes "addr_family a = IPv4" "length (addr_bytes a) = 16" "drop 4 (addr_bytes a) = replicate 12 0"
  shows "from_ipv4 (ipv4_value a) = a"
proof -
  have t: "length (take 4 (addr_bytes a)) = 4" using assms(2) by simp
  have "ipv4_value a = be_word (take 4 (addr_bytes a))"
    using assms(1) by (subst be_word_four [OF t]) (simp add: ipv4_value_def)
  then have "be32 (ipv4_value a) = take 4 (addr_bytes a)" by (simp add: be_be_word(2) [OF t])
  then have "addr_bytes (from_ipv4 (ipv4_value a)) = addr_bytes a"
    using assms(3) append_take_drop_id [of 4 "addr_bytes a"] by (simp add: from_ipv4_bytes)
  then show ?thesis using assms(1) by (simp add: from_ipv4_bytes)
qed

text \<open>Addresses the constructors and the parsers build: a known family, sixteen
  bytes, and zeros after the first four for IPv4.\<close>

definition canonical_address :: "IPAddress \<Rightarrow> bool" where
  "canonical_address a \<longleftrightarrow> wf_address a \<and> (addr_family a = IPv4 \<longrightarrow> drop 4 (addr_bytes a) = replicate 12 0)"

lemma canonical_from_ipv4 [simp]: "canonical_address (from_ipv4 v)"
  by (simp add: canonical_address_def wf_address_def valid_family_def)

lemma canonical_ipv4:
  "canonical_address a \<Longrightarrow> addr_family a = IPv4 \<Longrightarrow> from_ipv4 (ipv4_value a) = a"
  by (intro from_ipv4_ipv4_value) (simp_all add: canonical_address_def wf_address_def)

lemma be32_ipv4_value:
  assumes "canonical_address a" "addr_family a = IPv4"
  shows "be32 (ipv4_value a) = take 4 (addr_bytes a)"
proof -
  have t: "length (take 4 (addr_bytes a)) = 4" using assms(1) by (simp add: canonical_address_def wf_address_def)
  have "ipv4_value a = be_word (take 4 (addr_bytes a))"
    using assms(2) by (subst be_word_four [OF t]) (simp add: ipv4_value_def)
  then show ?thesis by (simp add: be_be_word(2) [OF t])
qed

end
