(* ===== verification/Endpoint_Candidates.thy ===== *)
theory Endpoint_Candidates
  imports Wire_List Net_Codec
begin

text \<open>
  \<open>src/protocol/endpoint_candidate.cpp\<close>: the endpoint candidates a node
  advertises for hole punching, their validity and their wire form.  The
  enumeration of local addresses by the operating system is the argument of
  \<open>gather_host_candidates\<close>.
\<close>

section \<open>Definitions\<close>

abbreviation ENDPOINT_CANDIDATE_VERSION :: byte where "ENDPOINT_CANDIDATE_VERSION \<equiv> 1"
abbreviation ENDPOINT_CANDIDATE_MAX_COUNT :: nat where "ENDPOINT_CANDIDATE_MAX_COUNT \<equiv> 8"
abbreviation ENDPOINT_CANDIDATE_HEADER_SIZE :: nat where "ENDPOINT_CANDIDATE_HEADER_SIZE \<equiv> 36"
abbreviation ENDPOINT_CANDIDATE_ENTRY_SIZE :: nat where "ENDPOINT_CANDIDATE_ENTRY_SIZE \<equiv> 12"

text \<open>\<open>EndpointCandidateType\<close> is its underlying byte; the decoder casts before it checks.\<close>

abbreviation Host :: byte where "Host \<equiv> 1"
abbreviation ServerReflexive :: byte where "ServerReflexive \<equiv> 2"
abbreviation PeerObserved :: byte where "PeerObserved \<equiv> 3"

record EndpointCandidate =
  ec_type :: byte
  ec_endpoint :: Endpoint
  ec_priority :: u32

record EndpointCandidateMessage =
  cm_subject :: node_id
  cm_candidates :: "EndpointCandidate list"

definition known_type :: "byte \<Rightarrow> bool" where
  "known_type t \<longleftrightarrow> t = Host \<or> t = ServerReflexive \<or> t = PeerObserved"

definition valid_endpoint_candidate :: "EndpointCandidate \<Rightarrow> bool" where
  "valid_endpoint_candidate c =
    (if \<not> known_type (ec_type c) \<or> \<not> is_ipv4 (ec_endpoint c) \<or> unspecified (ec_endpoint c) \<or>
        ep_port (ec_endpoint c) = 0 \<or> ec_priority c = 0 then False
     else let ip = ipv4_value (ep_address (ec_endpoint c)) in
       ip \<noteq> 0xFFFFFFFF \<and> ip AND 0xF0000000 \<noteq> 0xE0000000)"

definition write_candidate :: "EndpointCandidate \<Rightarrow> wire_writer \<Rightarrow> wire_writer option" where
  "write_candidate c w = do {
     w \<leftarrow> write_u8 (ec_type c) w;
     w \<leftarrow> write_u8 0 w;
     w \<leftarrow> write_u16 (ntohs (ep_port (ec_endpoint c))) w;
     w \<leftarrow> write_u32 (ipv4_value (ep_address (ec_endpoint c))) w;
     write_u32 (ec_priority c) w }"

definition serialize_endpoint_candidates :: "EndpointCandidateMessage \<Rightarrow> bytes option" where
  "serialize_endpoint_candidates m =
    (if cm_subject m = replicate NODE_ID_SIZE 0 \<or> cm_candidates m = [] \<or>
        length (cm_candidates m) > ENDPOINT_CANDIDATE_MAX_COUNT then None
     else if \<not> (\<forall>c \<in> set (cm_candidates m). valid_endpoint_candidate c) \<or>
        \<not> distinct (map ec_endpoint (cm_candidates m)) then None
     else do {
       let payload = replicate (ENDPOINT_CANDIDATE_HEADER_SIZE +
              length (cm_candidates m) * ENDPOINT_CANDIDATE_ENTRY_SIZE) 0;
       w \<leftarrow> write_u8 ENDPOINT_CANDIDATE_VERSION (WireWriter payload);
       w \<leftarrow> write_u8 (of_nat (length (cm_candidates m))) w;
       w \<leftarrow> write_u16 0 w;
       w \<leftarrow> write_bytes (cm_subject m) w;
       w \<leftarrow> write_each write_candidate (cm_candidates m) w;
       if wr_finished w then Some (wr_bytes w) else None })"

definition read_candidate :: "wire_reader \<Rightarrow> (EndpointCandidate \<times> wire_reader) option" where
  "read_candidate r = do {
     (type, r) \<leftarrow> read_u8 r;
     (reserved, r) \<leftarrow> read_u8 r;
     (port, r) \<leftarrow> read_u16 r;
     (ip, r) \<leftarrow> read_u32 r;
     (priority, r) \<leftarrow> read_u32 r;
     if reserved \<noteq> 0 then None
     else
       let c = \<lparr>ec_type = type,
                ec_endpoint = \<lparr>ep_address = from_ipv4 ip, ep_port = htons port\<rparr>,
                ec_priority = priority\<rparr>
       in if valid_endpoint_candidate c then Some (c, r) else None }"

text \<open>The loop with the set of endpoints seen so far.\<close>

fun read_candidates ::
    "nat \<Rightarrow> Endpoint list \<Rightarrow> wire_reader \<Rightarrow> (EndpointCandidate list \<times> wire_reader) option" where
  "read_candidates 0 seen r = Some ([], r)"
| "read_candidates (Suc n) seen r = do {
     (c, r) \<leftarrow> read_candidate r;
     if ec_endpoint c \<in> set seen then None
     else do {
       (cs, r) \<leftarrow> read_candidates n (ec_endpoint c # seen) r;
       Some (c # cs, r) } }"

definition deserialize_endpoint_candidates :: "bytes \<Rightarrow> EndpointCandidateMessage option" where
  "deserialize_endpoint_candidates payload = do {
     (version, r) \<leftarrow> read_u8 (WireReader payload);
     (count, r) \<leftarrow> read_u8 r;
     (reserved, r) \<leftarrow> read_u16 r;
     (subject, r) \<leftarrow> read_bytes NODE_ID_SIZE r;
     if version \<noteq> ENDPOINT_CANDIDATE_VERSION \<or> count = 0 \<or>
        unat count > ENDPOINT_CANDIDATE_MAX_COUNT \<or> reserved \<noteq> 0 \<or>
        length payload \<noteq> ENDPOINT_CANDIDATE_HEADER_SIZE + unat count * ENDPOINT_CANDIDATE_ENTRY_SIZE
     then None
     else if subject = replicate NODE_ID_SIZE 0 then None
     else do {
       (cs, r) \<leftarrow> read_candidates (unat count) [] r;
       if rd_finished r then Some \<lparr>cm_subject = subject, cm_candidates = cs\<rparr> else None } }"

text \<open>\<open>addresses\<close> are the IPv4 addresses \<open>getaddrinfo\<close> lists, in host order; \<open>None\<close>
  when the host name or the list is not available.\<close>

fun gather_loop :: "u16 \<Rightarrow> u32 list \<Rightarrow> u32 list \<Rightarrow> EndpointCandidate list \<Rightarrow> EndpointCandidate list" where
  "gather_loop local_port [] seen candidates = candidates"
| "gather_loop local_port (ip # ips) seen candidates =
    (if length candidates \<ge> ENDPOINT_CANDIDATE_MAX_COUNT then candidates
     else
       let c = \<lparr>ec_type = Host, ec_endpoint = \<lparr>ep_address = from_ipv4 ip, ep_port = htons local_port\<rparr>,
                ec_priority = 300 - of_nat (length candidates)\<rparr>
       in if \<not> valid_endpoint_candidate c then gather_loop local_port ips seen candidates
          else if ip \<in> set seen then gather_loop local_port ips seen candidates
          else gather_loop local_port ips (ip # seen) (candidates @ [c]))"

definition gather_host_candidates :: "u32 list option \<Rightarrow> u16 \<Rightarrow> EndpointCandidate list" where
  "gather_host_candidates addresses local_port =
    (if local_port = 0 then []
     else case addresses of None \<Rightarrow> [] | Some ips \<Rightarrow> gather_loop local_port ips [] [])"

section \<open>Codec laws\<close>

definition wf_candidate :: "EndpointCandidate \<Rightarrow> bool" where
  "wf_candidate c \<longleftrightarrow> valid_endpoint_candidate c \<and>
     length (addr_bytes (ep_address (ec_endpoint c))) = 16 \<and>
     drop 4 (addr_bytes (ep_address (ec_endpoint c))) = replicate 12 0"

definition candidate_bytes :: "EndpointCandidate \<Rightarrow> bytes" where
  "candidate_bytes c = ec_type c # 0 # be16 (ntohs (ep_port (ec_endpoint c))) @
     be32 (ipv4_value (ep_address (ec_endpoint c))) @ be32 (ec_priority c)"

lemma length_candidate_bytes [simp]: "length (candidate_bytes c) = 12"
  by (simp add: candidate_bytes_def)

lemma valid_candidate_ipv4: "valid_endpoint_candidate c \<Longrightarrow> addr_family (ep_address (ec_endpoint c)) = IPv4"
  by (auto simp: valid_endpoint_candidate_def is_ipv4_def split: if_splits)

interpretation candidate_entry: entry_codec wf_candidate candidate_bytes write_candidate read_candidate
proof
  fix c free out
  assume "length (candidate_bytes c) \<le> length (free :: bytes)"
  then show "write_candidate c (writer_at out free) =
      Some (writer_at (out @ candidate_bytes c) (drop (length (candidate_bytes c)) free))"
    by (simp add: write_candidate_def candidate_bytes_def wire_simps) arith
next
  fix c pre t
  assume w: "wf_candidate c"
  then have "from_ipv4 (ipv4_value (ep_address (ec_endpoint c))) = ep_address (ec_endpoint c)"
    by (intro from_ipv4_ipv4_value valid_candidate_ipv4) (simp_all add: wf_candidate_def)
  moreover have eta: "\<lparr>ec_type = ec_type c, ec_endpoint = \<lparr>ep_address = ep_address (ec_endpoint c),
      ep_port = ep_port (ec_endpoint c)\<rparr>, ec_priority = ec_priority c\<rparr> = c"
    by (intro EndpointCandidate.equality Endpoint.equality) simp_all
  ultimately show "read_candidate (reader_at pre (candidate_bytes c @ t)) = Some (c, reader_at (pre @ candidate_bytes c) t)"
    using w by (simp add: read_candidate_def candidate_bytes_def wire_simps wf_candidate_def Let_def eta)
next
  fix pre suf c r
  assume "read_candidate (reader_at pre suf) = Some (c, r)"
  then show "wf_candidate c \<and> (\<exists>t. suf = candidate_bytes c @ t \<and> r = reader_at (pre @ candidate_bytes c) t)"
    by (auto simp: read_candidate_def bind_eq_Some_conv Let_def candidate_bytes_def wf_candidate_def
        split: if_splits dest!: wire_dest)
qed

lemma read_candidates_count:
  "read_candidates n seen r =
    (case read_count read_candidate n r of
       None \<Rightarrow> None
     | Some (cs, r) \<Rightarrow>
         if distinct (map ec_endpoint cs) \<and> (\<forall>c \<in> set cs. ec_endpoint c \<notin> set seen)
         then Some (cs, r) else None)"
proof (induction n arbitrary: seen r)
  case (Suc n)
  show ?case
  proof (cases "read_candidate r")
    case (Some p)
    obtain c r1 where p: "p = (c, r1)" by (cases p)
    show ?thesis
    proof (cases "read_count read_candidate n r1")
      case (Some q)
      obtain cs r2 where q: "q = (cs, r2)" by (cases q)
      show ?thesis
        using \<open>read_candidate r = Some p\<close> Some p q by (simp add: Suc image_iff) metis
    qed (use Some p in \<open>simp add: Suc\<close>)
  qed simp
qed simp

definition wf_candidate_message :: "EndpointCandidateMessage \<Rightarrow> bool" where
  "wf_candidate_message m \<longleftrightarrow>
     length (cm_subject m) = NODE_ID_SIZE \<and> cm_subject m \<noteq> replicate NODE_ID_SIZE 0 \<and>
     cm_candidates m \<noteq> [] \<and> length (cm_candidates m) \<le> ENDPOINT_CANDIDATE_MAX_COUNT \<and>
     (\<forall>c \<in> set (cm_candidates m). wf_candidate c) \<and> distinct (map ec_endpoint (cm_candidates m))"

definition candidate_message_bytes :: "EndpointCandidateMessage \<Rightarrow> bytes" where
  "candidate_message_bytes m = ENDPOINT_CANDIDATE_VERSION # of_nat (length (cm_candidates m)) # be16 0 @
     cm_subject m @ candidate_entry.enc_all (cm_candidates m)"

lemma serialize_candidates_eq:
  assumes "wf_candidate_message m"
  shows "serialize_endpoint_candidates m = Some (candidate_message_bytes m)"
proof -
  have w: "\<forall>c \<in> set (cm_candidates m). wf_candidate c" using assms by (simp add: wf_candidate_message_def)
  then have v: "\<forall>c \<in> set (cm_candidates m). valid_endpoint_candidate c" by (simp add: wf_candidate_def)
  have "length (candidate_entry.enc_all (cm_candidates m)) = length (cm_candidates m) * 12"
    using candidate_entry.length_enc_all [OF _ w] by simp
  then show ?thesis
    using assms v
    by (simp add: serialize_endpoint_candidates_def wf_candidate_message_def wire_simps
        candidate_entry.put_each_at [OF w] candidate_message_bytes_def)
qed

interpretation candidate_codec: canonical_codec wf_candidate_message serialize_endpoint_candidates
    deserialize_endpoint_candidates
proof
  fix m assume "wf_candidate_message m"
  then show "\<exists>bs. serialize_endpoint_candidates m = Some bs" by (simp add: serialize_candidates_eq)
next
  fix m bs assume w: "wf_candidate_message m" and s: "serialize_endpoint_candidates m = Some bs"
  have c: "\<forall>c \<in> set (cm_candidates m). wf_candidate c" using w by (simp add: wf_candidate_message_def)
  have n: "unat (of_nat (length (cm_candidates m)) :: byte) = length (cm_candidates m)"
    "(of_nat (length (cm_candidates m)) :: byte) \<noteq> 0"
    using w by (auto simp: wf_candidate_message_def unsigned_of_nat take_bit_nat_eq_self
        simp flip: unat_0_iff [where 'a = 8])
  have len: "length (candidate_entry.enc_all (cm_candidates m)) = length (cm_candidates m) * 12"
    using candidate_entry.length_enc_all [OF _ c] by simp
  have "bs = candidate_message_bytes m" using s w by (simp add: serialize_candidates_eq)
  then show "deserialize_endpoint_candidates bs = Some m"
    using w candidate_entry.get_each_at [OF c, of _ "[]"]
    by (simp add: deserialize_endpoint_candidates_def candidate_message_bytes_def
        wire_simps wf_candidate_message_def n len read_candidates_count)
next
  fix bs m assume d: "deserialize_endpoint_candidates bs = Some m"
  then have "wf_candidate_message m \<and> bs = candidate_message_bytes m"
    by (auto simp: deserialize_endpoint_candidates_def WireReader_at rd_finished_at bind_eq_Some_conv
        read_candidates_count wf_candidate_message_def candidate_message_bytes_def unsigned_eq_0_iff
        split: if_splits option.splits dest!: wire_dest candidate_entry.get_each_SomeD)
  then show "wf_candidate_message m" "serialize_endpoint_candidates m = Some bs"
    by (simp_all add: serialize_candidates_eq)
qed

end
