(* ===== verification/Pending_Tracker.thy ===== *)
theory Pending_Tracker
  imports Std_Map
begin

text \<open>
  The state shared in form by \<open>PathProbeTracker\<close> and \<open>EndpointPunchTracker\<close>: a
  bounded table of outstanding challenges keyed by a random 64-bit id, each with
  its target and the time it was sent.  The contract \<open>challenge_tracker\<close> is what
  both classes promise; the invariant and the at-most-once law are proved from
  it once.
\<close>

record 't Pending =
  pn_target :: 't
  pn_sent_at :: time

record 't Tracker =
  tk_maximum :: nat
  tk_timeout :: time
  tk_pending :: "(u64, 't Pending) std_map"

definition new_Tracker :: "nat \<Rightarrow> time \<Rightarrow> 't Tracker" where
  "new_Tracker maximum timeout = \<lparr>tk_maximum = maximum, tk_timeout = timeout, tk_pending = []\<rparr>"

definition has_target :: "'t \<Rightarrow> 't Tracker \<Rightarrow> bool" where
  "has_target t tk \<longleftrightarrow> (\<exists>e \<in> set (tk_pending tk). pn_target (snd e) = t)"

text \<open>The locked part of \<open>begin\<close>.\<close>

definition begin_pending :: "u64 \<Rightarrow> 't \<Rightarrow> time \<Rightarrow> 't Tracker \<Rightarrow> bool \<times> 't Tracker" where
  "begin_pending cid t now tk =
    (if length (tk_pending tk) \<ge> tk_maximum tk \<or> map_contains cid (tk_pending tk) then (False, tk)
     else if has_target t tk then (False, tk)
     else (True, tk\<lparr>tk_pending := map_put cid \<lparr>pn_target = t, pn_sent_at = now\<rparr> (tk_pending tk)\<rparr>))"

definition timed_out :: "'t Tracker \<Rightarrow> time \<Rightarrow> 't Pending \<Rightarrow> bool" where
  "timed_out tk now p \<longleftrightarrow> now \<ge> pn_sent_at p \<and> now - pn_sent_at p \<ge> tk_timeout tk"

definition drop_expired :: "time \<Rightarrow> 't Tracker \<Rightarrow> 't Tracker" where
  "drop_expired now tk = tk\<lparr>tk_pending := map_erase_if (\<lambda>e. timed_out tk now (snd e)) (tk_pending tk)\<rparr>"

definition expired_entries :: "time \<Rightarrow> 't Tracker \<Rightarrow> (u64 \<times> 't Pending) list" where
  "expired_entries now tk = filter (\<lambda>e. timed_out tk now (snd e)) (tk_pending tk)"

definition cancel :: "u64 \<Rightarrow> 't Tracker \<Rightarrow> 't Tracker" where
  "cancel cid tk = tk\<lparr>tk_pending := map_erase cid (tk_pending tk)\<rparr>"

definition reset :: "'t Tracker \<Rightarrow> 't Tracker" where
  "reset tk = tk\<lparr>tk_pending := []\<rparr>"

definition tracker_size :: "'t Tracker \<Rightarrow> nat" where
  "tracker_size tk = length (tk_pending tk)"

text \<open>Bounded, one entry per id, and one outstanding challenge per target.\<close>

definition tracker_ok :: "'t Tracker \<Rightarrow> bool" where
  "tracker_ok tk \<longleftrightarrow> map_ok (tk_pending tk) \<and> length (tk_pending tk) \<le> tk_maximum tk \<and>
     distinct (map (pn_target \<circ> snd) (tk_pending tk))"

datatype ('t, 'a) tracker_call =
    Begin u64 't time
  | Acknowledge u64 'a time
  | Expire time
  | Cancel u64
  | Reset

fun tracker_step ::
    "(u64 \<Rightarrow> 't \<Rightarrow> time \<Rightarrow> 't Tracker \<Rightarrow> bool \<times> 't Tracker) \<Rightarrow>
     (u64 \<Rightarrow> 'a \<Rightarrow> time \<Rightarrow> 't Tracker \<Rightarrow> 'r option \<times> 't Tracker) \<Rightarrow>
     (time \<Rightarrow> 't Tracker \<Rightarrow> 'e list \<times> 't Tracker) \<Rightarrow>
     ('t, 'a) tracker_call \<Rightarrow> 't Tracker \<Rightarrow> 't Tracker" where
  "tracker_step start ack expire (Begin cid t now) tk = snd (start cid t now tk)"
| "tracker_step start ack expire (Acknowledge cid a now) tk = snd (ack cid a now tk)"
| "tracker_step start ack expire (Expire now) tk = snd (expire now tk)"
| "tracker_step start ack expire (Cancel cid) tk = cancel cid tk"
| "tracker_step start ack expire Reset tk = reset tk"

lemma set_map_put:
  "e \<in> set (map_put k v m) \<Longrightarrow> e = (k, v) \<or> e \<in> set m"
  by (induction k v m rule: map_put.induct) (auto split: if_splits)

lemma distinct_targets_put:
  "distinct (map f m) \<Longrightarrow> (\<forall>e \<in> set m. f e \<noteq> f (k, v)) \<Longrightarrow> distinct (map f (map_put k v m))"
proof (induction k v m rule: map_put.induct)
  case (2 k v a b m)
  then show ?case
    using set_map_put [of _ k v m] by (auto simp: image_iff)
qed simp

lemma begin_pending_ok:
  assumes "tracker_ok tk"
  shows "tracker_ok (snd (begin_pending cid t now tk))"
proof (cases "fst (begin_pending cid t now tk)")
  case True
  then have n: "\<not> length (tk_pending tk) \<ge> tk_maximum tk" "\<not> map_contains cid (tk_pending tk)" "\<not> has_target t tk"
    by (auto simp: begin_pending_def split: if_splits)
  have "distinct (map (pn_target \<circ> snd) (map_put cid \<lparr>pn_target = t, pn_sent_at = now\<rparr> (tk_pending tk)))"
    using assms n(3) by (intro distinct_targets_put) (auto simp: tracker_ok_def has_target_def)
  then show ?thesis
    using assms n by (auto simp: begin_pending_def tracker_ok_def length_put)
next
  case False
  then show ?thesis using assms by (auto simp: begin_pending_def split: if_splits)
qed

lemma tracker_ok_filter: "tracker_ok tk \<Longrightarrow> tracker_ok (tk\<lparr>tk_pending := filter P (tk_pending tk)\<rparr>)"
  by (auto simp: tracker_ok_def map_ok_filter distinct_map_filter intro: le_trans [OF length_filter_le])

lemma tracker_ok_cancel: "tracker_ok tk \<Longrightarrow> tracker_ok (cancel cid tk)"
  using tracker_ok_filter [of tk] by (simp add: cancel_def map_erase_def)

lemma map_of_cancel [simp]: "map_of (tk_pending (cancel cid tk)) = (map_of (tk_pending tk))(cid := None)"
  by (simp add: cancel_def)

locale challenge_tracker =
  fixes start :: "u64 \<Rightarrow> 't \<Rightarrow> time \<Rightarrow> 't Tracker \<Rightarrow> bool \<times> 't Tracker"
    and ack :: "u64 \<Rightarrow> 'a \<Rightarrow> time \<Rightarrow> 't Tracker \<Rightarrow> 'r option \<times> 't Tracker"
    and expire :: "time \<Rightarrow> 't Tracker \<Rightarrow> 'e list \<times> 't Tracker"
    and answers :: "'a \<Rightarrow> 't \<Rightarrow> bool"
  assumes start_law: "start cid t now tk = (False, tk) \<or> start cid t now tk = begin_pending cid t now tk"
    and ack_law: "(\<exists>p r. map_of (tk_pending tk) cid = Some p \<and> answers a (pn_target p) \<and>
        pn_sent_at p \<le> now \<and> now - pn_sent_at p < tk_timeout tk \<and> ack cid a now tk = (Some r, cancel cid tk))
      \<or> ack cid a now tk = (None, tk)"
    and expire_law: "snd (expire now tk) = drop_expired now tk"
begin

lemma step_ok: "tracker_ok tk \<Longrightarrow> tracker_ok (tracker_step start ack expire c tk)"
proof (induction c)
  case (Begin cid t now)
  then show ?case using start_law [of cid t now tk] begin_pending_ok [of tk cid t now] by auto
next
  case (Acknowledge cid a now)
  then show ?case
    using ack_law [of tk cid a now] tracker_ok_cancel [of tk cid] by auto
next
  case (Expire now)
  then show ?case using expire_law tracker_ok_filter [of tk] by (simp add: drop_expired_def map_erase_if_def)
next
  case (Cancel cid)
  then show ?case by (simp add: tracker_ok_cancel)
qed (simp add: reset_def tracker_ok_def)

lemma run_ok: "tracker_ok (fold (tracker_step start ack expire) cs (new_Tracker n t))"
proof -
  have "tracker_ok tk \<Longrightarrow> tracker_ok (fold (tracker_step start ack expire) cs tk)" for tk
    by (induction cs arbitrary: tk) (simp_all add: step_ok)
  then show ?thesis by (simp add: new_Tracker_def tracker_ok_def)
qed

lemma ack_SomeD:
  assumes "ack cid a now tk = (Some r, tk')"
  obtains p where "map_of (tk_pending tk) cid = Some p" "answers a (pn_target p)"
    "pn_sent_at p \<le> now" "now - pn_sent_at p < tk_timeout tk" "tk' = cancel cid tk"
  using assms ack_law [of tk cid a now] by auto

text \<open>An acknowledged id stays dead: only a new \<open>begin\<close> with the same id revives it.\<close>

lemma dead_step:
  "map_of (tk_pending tk) cid = None \<Longrightarrow> \<forall>t now. c \<noteq> Begin cid t now \<Longrightarrow> tracker_ok tk \<Longrightarrow>
    map_of (tk_pending (tracker_step start ack expire c tk)) cid = None"
proof (induction c)
  case (Begin cid' t now)
  then show ?case using start_law [of cid' t now tk] by (auto simp: begin_pending_def)
next
  case (Acknowledge cid' a now)
  then show ?case using ack_law [of tk cid' a now] by (auto simp: cancel_def)
next
  case (Expire now)
  then show ?case by (simp add: expire_law drop_expired_def map_of_erase_if tracker_ok_def)
qed (auto simp: cancel_def reset_def)

lemma ack_once:
  assumes "tracker_ok tk" "ack cid a now tk = (Some r, tk')" "\<forall>t u. Begin cid t u \<notin> set cs"
  shows "fst (ack cid a' now' (fold (tracker_step start ack expire) cs tk')) = None"
proof -
  have "map_of (tk_pending tk') cid = None" "tracker_ok tk'"
    using assms(1,2) by (auto elim!: ack_SomeD simp: tracker_ok_cancel)
  then have "map_of (tk_pending (fold (tracker_step start ack expire) cs tk')) cid = None"
    using assms(3)
  proof (induction cs arbitrary: tk')
    case (Cons c cs)
    have "\<forall>t now. c \<noteq> Begin cid t now" "\<forall>t u. Begin cid t u \<notin> set cs" using Cons.prems(3) by auto
    with Cons.IH [of "tracker_step start ack expire c tk'"] Cons.prems(1,2) dead_step [of tk' cid c] step_ok [of tk' c]
    show ?case by simp
  qed simp
  then show ?thesis using ack_law [of _ cid a' now'] by (auto simp del: fold_simps) (metis fst_conv option.distinct(1))
qed

text \<open>Acknowledgement and expiry exclude each other at every moment.\<close>

lemma ack_not_expired:
  assumes "ack cid a now tk = (Some r, tk')" "map_of (tk_pending tk) cid = Some p"
  shows "\<not> timed_out tk now p"
  using assms by (auto elim!: ack_SomeD simp: timed_out_def)

end

end
