(* ===== verification/Path_Probe.thy ===== *)
theory Path_Probe
  imports Pending_Tracker Wire Net_Address
begin

text \<open>
  \<open>src/routing/path_probe.cpp\<close>: the challenge and response that validate a route
  end to end, and the tracker of outstanding challenges.
\<close>

section \<open>Messages\<close>

abbreviation PATH_PROBE_WIRE_SIZE :: nat where "PATH_PROBE_WIRE_SIZE \<equiv> 20"
abbreviation PATH_PROBE_MAX_PENDING :: nat where "PATH_PROBE_MAX_PENDING \<equiv> 256"
abbreviation PATH_PROBE_INTERVAL :: time where "PATH_PROBE_INTERVAL \<equiv> 30000"
abbreviation PATH_PROBE_TIMEOUT :: time where "PATH_PROBE_TIMEOUT \<equiv> 5000"
abbreviation ProbeChallenge :: byte where "ProbeChallenge \<equiv> 1"
abbreviation ProbeResponse :: byte where "ProbeResponse \<equiv> 2"

record PathProbeMessage =
  pp_kind :: byte
  pp_probe_id :: u64
  pp_route_sequence :: u64

definition serialize_path_probe :: "PathProbeMessage \<Rightarrow> bytes option" where
  "serialize_path_probe probe =
    (if (pp_kind probe \<noteq> ProbeChallenge \<and> pp_kind probe \<noteq> ProbeResponse) \<or>
        pp_probe_id probe = 0 \<or> pp_route_sequence probe = 0 then None
     else do {
       w \<leftarrow> write_u8 1 (WireWriter (replicate PATH_PROBE_WIRE_SIZE 0));
       w \<leftarrow> write_u8 (pp_kind probe) w;
       w \<leftarrow> write_u16 0 w;
       w \<leftarrow> write_u64 (pp_probe_id probe) w;
       w \<leftarrow> write_u64 (pp_route_sequence probe) w;
       if wr_finished w then Some (wr_bytes w) else None })"

definition deserialize_path_probe :: "bytes \<Rightarrow> PathProbeMessage option" where
  "deserialize_path_probe payload = do {
     (version, r) \<leftarrow> read_u8 (WireReader payload);
     (kind, r) \<leftarrow> read_u8 r;
     (reserved, r) \<leftarrow> read_u16 r;
     (probe_id, r) \<leftarrow> read_u64 r;
     (route_sequence, r) \<leftarrow> read_u64 r;
     if \<not> rd_finished r \<or> version \<noteq> 1 \<or> reserved \<noteq> 0 \<or>
        (kind \<noteq> ProbeChallenge \<and> kind \<noteq> ProbeResponse) \<or> probe_id = 0 \<or> route_sequence = 0
     then None
     else Some \<lparr>pp_kind = kind, pp_probe_id = probe_id, pp_route_sequence = route_sequence\<rparr> }"

definition wf_path_probe :: "PathProbeMessage \<Rightarrow> bool" where
  [wf_defs]: "wf_path_probe p \<longleftrightarrow> (pp_kind p = ProbeChallenge \<or> pp_kind p = ProbeResponse) \<and>
     pp_probe_id p \<noteq> 0 \<and> pp_route_sequence p \<noteq> 0"

lemma serialize_path_probe_eq:
  "serialize_path_probe p = (if wf_path_probe p
     then Some (1 # pp_kind p # be16 0 @ be64 (pp_probe_id p) @ be64 (pp_route_sequence p)) else None)"
  by (auto simp: serialize_path_probe_def wf_defs wire_simps)

interpretation probe_codec: canonical_codec wf_path_probe serialize_path_probe deserialize_path_probe
proof
  fix p bs assume "wf_path_probe p" "serialize_path_probe p = Some bs"
  then have "bs = 1 # pp_kind p # be16 0 @ be64 (pp_probe_id p) @ be64 (pp_route_sequence p)"
    by (simp add: serialize_path_probe_eq)
  then show "deserialize_path_probe bs = Some p"
    using \<open>wf_path_probe p\<close> by (auto simp: deserialize_path_probe_def wf_defs wire_simps)
next
  fix bs p assume "deserialize_path_probe bs = Some p"
  then have "wf_path_probe p \<and> bs = 1 # pp_kind p # be16 0 @ be64 (pp_probe_id p) @ be64 (pp_route_sequence p)"
    by (auto simp: deserialize_path_probe_def wf_defs WireReader_at rd_finished_at bind_eq_Some_conv
        split: if_splits dest!: wire_dest)
  then show "wf_path_probe p" "serialize_path_probe p = Some bs" by (simp_all add: serialize_path_probe_eq)
qed (simp add: serialize_path_probe_eq)

section \<open>Tracker\<close>

record PathProbeTarget =
  pt_destination :: node_id
  pt_next_hop :: node_id
  pt_prefix :: IPAddress
  pt_prefix_length :: u32
  pt_route_sequence :: u64

record PathProbeObservation =
  ob_target :: PathProbeTarget
  ob_rtt :: time

definition probe_begin ::
    "u64 \<Rightarrow> PathProbeTarget \<Rightarrow> time \<Rightarrow> PathProbeTarget Tracker \<Rightarrow> bool \<times> PathProbeTarget Tracker" where
  "probe_begin probe_id target now tk =
    (if probe_id = 0 \<or> pt_route_sequence target = 0 \<or> tk_maximum tk = 0 \<or> tk_timeout tk \<le> 0
     then (False, tk)
     else begin_pending probe_id target now tk)"

definition probe_acknowledge ::
    "u64 \<Rightarrow> node_id \<times> u64 \<Rightarrow> time \<Rightarrow> PathProbeTarget Tracker
     \<Rightarrow> PathProbeObservation option \<times> PathProbeTarget Tracker" where
  "probe_acknowledge probe_id = (\<lambda>(responder, route_sequence) now tk.
    (case map_of (tk_pending tk) probe_id of
       None \<Rightarrow> (None, tk)
     | Some p \<Rightarrow>
         if pt_destination (pn_target p) \<noteq> responder \<or>
            pt_route_sequence (pn_target p) \<noteq> route_sequence \<or>
            now < pn_sent_at p \<or> now - pn_sent_at p \<ge> tk_timeout tk
         then (None, tk)
         else (Some \<lparr>ob_target = pn_target p, ob_rtt = now - pn_sent_at p\<rparr>, cancel probe_id tk)))"

definition probe_expire ::
    "time \<Rightarrow> PathProbeTarget Tracker \<Rightarrow> PathProbeTarget list \<times> PathProbeTarget Tracker" where
  "probe_expire now tk = (map (pn_target \<circ> snd) (expired_entries now tk), drop_expired now tk)"

definition contains_target :: "PathProbeTarget \<Rightarrow> PathProbeTarget Tracker \<Rightarrow> bool" where
  "contains_target target tk = has_target target tk"

interpretation probe_tracker: challenge_tracker probe_begin probe_acknowledge probe_expire
    "\<lambda>(responder, route_sequence) t. pt_destination t = responder \<and> pt_route_sequence t = route_sequence"
proof
  fix tk :: "PathProbeTarget Tracker" and cid :: u64 and a :: "node_id \<times> u64" and now :: time
  show "(\<exists>p r. map_of (tk_pending tk) cid = Some p \<and>
        (case a of (responder, route_sequence) \<Rightarrow> \<lambda>t. pt_destination t = responder \<and>
           pt_route_sequence t = route_sequence) (pn_target p) \<and>
        pn_sent_at p \<le> now \<and> now - pn_sent_at p < tk_timeout tk \<and>
        probe_acknowledge cid a now tk = (Some r, cancel cid tk)) \<or>
      probe_acknowledge cid a now tk = (None, tk)"
    by (cases a; cases "map_of (tk_pending tk) cid") (auto simp: probe_acknowledge_def)
qed (auto simp: probe_begin_def probe_expire_def)

end
