(* ===== verification/Endpoint_Punch.thy ===== *)
theory Endpoint_Punch
  imports Pending_Tracker Endpoint_Candidates
begin

text \<open>
  \<open>src/protocol/endpoint_punch.cpp\<close>: the punch challenge and response that
  validate an endpoint candidate, and the tracker of outstanding challenges.
\<close>

section \<open>Messages\<close>

abbreviation ENDPOINT_PUNCH_WIRE_SIZE :: nat where "ENDPOINT_PUNCH_WIRE_SIZE \<equiv> 12"
abbreviation ENDPOINT_PUNCH_MAX_PENDING :: nat where "ENDPOINT_PUNCH_MAX_PENDING \<equiv> 256"
abbreviation ENDPOINT_PUNCH_TIMEOUT :: time where "ENDPOINT_PUNCH_TIMEOUT \<equiv> 5000"
abbreviation PunchChallenge :: byte where "PunchChallenge \<equiv> 1"
abbreviation PunchResponse :: byte where "PunchResponse \<equiv> 2"

record EndpointPunchMessage =
  pm_kind :: byte
  pm_transaction_id :: u64

definition serialize_endpoint_punch :: "EndpointPunchMessage \<Rightarrow> bytes option" where
  "serialize_endpoint_punch m =
    (if (pm_kind m \<noteq> PunchChallenge \<and> pm_kind m \<noteq> PunchResponse) \<or> pm_transaction_id m = 0 then None
     else do {
       w \<leftarrow> write_u8 1 (WireWriter (replicate ENDPOINT_PUNCH_WIRE_SIZE 0));
       w \<leftarrow> write_u8 (pm_kind m) w;
       w \<leftarrow> write_u16 0 w;
       w \<leftarrow> write_u64 (pm_transaction_id m) w;
       if wr_finished w then Some (wr_bytes w) else None })"

definition deserialize_endpoint_punch :: "bytes \<Rightarrow> EndpointPunchMessage option" where
  "deserialize_endpoint_punch payload = do {
     (version, r) \<leftarrow> read_u8 (WireReader payload);
     (kind, r) \<leftarrow> read_u8 r;
     (reserved, r) \<leftarrow> read_u16 r;
     (transaction_id, r) \<leftarrow> read_u64 r;
     if \<not> rd_finished r \<or> version \<noteq> 1 \<or> reserved \<noteq> 0 \<or>
        (kind \<noteq> PunchChallenge \<and> kind \<noteq> PunchResponse) \<or> transaction_id = 0
     then None
     else Some \<lparr>pm_kind = kind, pm_transaction_id = transaction_id\<rparr> }"

definition wf_endpoint_punch :: "EndpointPunchMessage \<Rightarrow> bool" where
  [wf_defs]: "wf_endpoint_punch m \<longleftrightarrow>
     (pm_kind m = PunchChallenge \<or> pm_kind m = PunchResponse) \<and> pm_transaction_id m \<noteq> 0"

lemma serialize_endpoint_punch_eq:
  "serialize_endpoint_punch m = (if wf_endpoint_punch m
     then Some (1 # pm_kind m # be16 0 @ be64 (pm_transaction_id m)) else None)"
  by (auto simp: serialize_endpoint_punch_def wf_defs wire_simps)

interpretation punch_codec: canonical_codec wf_endpoint_punch serialize_endpoint_punch deserialize_endpoint_punch
proof
  fix m bs assume "wf_endpoint_punch m" "serialize_endpoint_punch m = Some bs"
  then have "bs = 1 # pm_kind m # be16 0 @ be64 (pm_transaction_id m)"
    by (simp add: serialize_endpoint_punch_eq)
  then show "deserialize_endpoint_punch bs = Some m"
    using \<open>wf_endpoint_punch m\<close> by (auto simp: deserialize_endpoint_punch_def wf_defs wire_simps)
next
  fix bs m assume "deserialize_endpoint_punch bs = Some m"
  then have "wf_endpoint_punch m \<and> bs = 1 # pm_kind m # be16 0 @ be64 (pm_transaction_id m)"
    by (auto simp: deserialize_endpoint_punch_def wf_defs WireReader_at rd_finished_at bind_eq_Some_conv
        split: if_splits dest!: wire_dest)
  then show "wf_endpoint_punch m" "serialize_endpoint_punch m = Some bs"
    by (simp_all add: serialize_endpoint_punch_eq)
qed (simp add: serialize_endpoint_punch_eq)

section \<open>Tracker\<close>

record EndpointPunchTarget =
  pu_peer_id :: node_id
  pu_endpoint :: Endpoint

definition punch_begin ::
    "u64 \<Rightarrow> EndpointPunchTarget \<Rightarrow> time \<Rightarrow> EndpointPunchTarget Tracker \<Rightarrow> bool \<times> EndpointPunchTarget Tracker" where
  "punch_begin transaction_id target now tk =
    (if transaction_id = 0 \<or> pu_peer_id target = replicate NODE_ID_SIZE 0 \<or>
        \<not> valid_endpoint_candidate
            \<lparr>ec_type = PeerObserved, ec_endpoint = pu_endpoint target, ec_priority = 1\<rparr> \<or>
        tk_maximum tk = 0 \<or> tk_timeout tk \<le> 0
     then (False, tk)
     else begin_pending transaction_id target now tk)"

definition punch_acknowledge ::
    "u64 \<Rightarrow> node_id \<times> Endpoint \<Rightarrow> time \<Rightarrow> EndpointPunchTarget Tracker
     \<Rightarrow> EndpointPunchTarget option \<times> EndpointPunchTarget Tracker" where
  "punch_acknowledge transaction_id = (\<lambda>(peer_id, source) now tk.
    (case map_of (tk_pending tk) transaction_id of
       None \<Rightarrow> (None, tk)
     | Some p \<Rightarrow>
         if pu_peer_id (pn_target p) \<noteq> peer_id \<or> pu_endpoint (pn_target p) \<noteq> source \<or>
            now < pn_sent_at p \<or> now - pn_sent_at p \<ge> tk_timeout tk
         then (None, tk)
         else (Some (pn_target p), cancel transaction_id tk)))"

definition punch_expire ::
    "time \<Rightarrow> EndpointPunchTarget Tracker \<Rightarrow> u64 list \<times> EndpointPunchTarget Tracker" where
  "punch_expire now tk = (map fst (expired_entries now tk), drop_expired now tk)"

interpretation punch_tracker: challenge_tracker punch_begin punch_acknowledge punch_expire
    "\<lambda>(peer_id, source) t. pu_peer_id t = peer_id \<and> pu_endpoint t = source"
proof
  fix tk :: "EndpointPunchTarget Tracker" and cid :: u64 and a :: "node_id \<times> Endpoint" and now :: time
  show "(\<exists>p r. map_of (tk_pending tk) cid = Some p \<and>
        (case a of (peer_id, source) \<Rightarrow> \<lambda>t. pu_peer_id t = peer_id \<and> pu_endpoint t = source) (pn_target p) \<and>
        pn_sent_at p \<le> now \<and> now - pn_sent_at p < tk_timeout tk \<and>
        punch_acknowledge cid a now tk = (Some r, cancel cid tk)) \<or>
      punch_acknowledge cid a now tk = (None, tk)"
    by (cases a; cases "map_of (tk_pending tk) cid") (auto simp: punch_acknowledge_def)
qed (auto simp: punch_begin_def punch_expire_def)

end
