(* ===== verification/Probing_Properties.thy ===== *)
theory Probing_Properties
  imports Endpoint_Candidates Path_Probe Endpoint_Punch
begin

text \<open>
  Properties of the endpoint and path validation messages: what a node
  advertises is always accepted, and a challenge is answered at most once, in
  time and by the node it was sent to.
\<close>

section \<open>Host candidates\<close>

definition gathered :: "u16 \<Rightarrow> u32 list \<Rightarrow> EndpointCandidate list \<Rightarrow> bool" where
  "gathered port seen cs \<longleftrightarrow> length cs \<le> ENDPOINT_CANDIDATE_MAX_COUNT \<and> (\<forall>c \<in> set cs. wf_candidate c) \<and>
     distinct (map ec_endpoint cs) \<and>
     (\<forall>c \<in> set cs. \<exists>ip \<in> set seen. ec_endpoint c = \<lparr>ep_address = from_ipv4 ip, ep_port = htons port\<rparr>)"

lemma from_ipv4_inject: "from_ipv4 a = from_ipv4 b \<longleftrightarrow> a = b"
  by (metis ipv4_value_from_ipv4)

lemma gather_loop_gathered:
  "gathered port seen cs \<Longrightarrow> \<exists>seen'. gathered port seen' (gather_loop port ips seen cs)"
proof (induction port ips seen cs rule: gather_loop.induct)
  case (2 port ip ips seen cs)
  let ?c = "\<lparr>ec_type = Host, ec_endpoint = \<lparr>ep_address = from_ipv4 ip, ep_port = htons port\<rparr>,
    ec_priority = 300 - of_nat (length cs)\<rparr>"
  show ?case
  proof (cases "length cs \<ge> ENDPOINT_CANDIDATE_MAX_COUNT \<or> \<not> valid_endpoint_candidate ?c \<or> ip \<in> set seen")
    case True
    then show ?thesis using 2 by (auto simp: Let_def)
  next
    case False
    then have "gathered port (ip # seen) (cs @ [?c])"
      using 2(4) by (fastforce simp: gathered_def wf_candidate_def from_ipv4_inject)
    with False 2(3) show ?thesis by (auto simp: Let_def)
  qed
qed auto

lemma gather_host_gathered: "\<exists>seen. gathered port seen (gather_host_candidates addresses port)"
proof -
  have "gathered port [] []" by (simp add: gathered_def)
  then show ?thesis
    using gather_loop_gathered [of port "[]" "[]"] by (auto simp: gather_host_candidates_def split: option.splits)
qed

text \<open>C17: whatever addresses the operating system lists, and however many, the
  candidates a node gathers form a message that encodes, and that every
  receiver decodes to the same candidates.\<close>

theorem gathered_candidates_roundtrip:
  assumes "length subject = NODE_ID_SIZE" "subject \<noteq> replicate NODE_ID_SIZE 0"
    and "gather_host_candidates addresses port \<noteq> []"
  shows "Option.bind (serialize_endpoint_candidates
      \<lparr>cm_subject = subject, cm_candidates = gather_host_candidates addresses port\<rparr>) deserialize_endpoint_candidates =
    Some \<lparr>cm_subject = subject, cm_candidates = gather_host_candidates addresses port\<rparr>"
proof -
  have "wf_candidate_message \<lparr>cm_subject = subject, cm_candidates = gather_host_candidates addresses port\<rparr>"
    using assms gather_host_gathered [of port addresses] by (auto simp: wf_candidate_message_def gathered_def)
  then show ?thesis
    using candidate_codec.dec_enc_ex by fastforce
qed

theorem gathered_candidates_roundtrip_witness:
  "Option.bind (serialize_endpoint_candidates
      \<lparr>cm_subject = replicate 32 7, cm_candidates = gather_host_candidates (Some [0x0A000001, 0x0A000001, 0xE0000001]) 4242\<rparr>)
      deserialize_endpoint_candidates =
    Some \<lparr>cm_subject = replicate 32 7, cm_candidates = gather_host_candidates (Some [0x0A000001, 0x0A000001, 0xE0000001]) 4242\<rparr>"
proof (rule gathered_candidates_roundtrip)
  show "gather_host_candidates (Some [0x0A000001, 0x0A000001, 0xE0000001]) 4242 \<noteq> []" by code_simp
  show "replicate 32 7 \<noteq> (replicate NODE_ID_SIZE 0 :: bytes)" by code_simp
qed simp

section \<open>Challenges\<close>

abbreviation probe_step where
  "probe_step \<equiv> tracker_step probe_begin probe_acknowledge probe_expire"

abbreviation punch_step where
  "punch_step \<equiv> tracker_step punch_begin punch_acknowledge punch_expire"

text \<open>C18: in every state the calls can reach, a path probe is acknowledged only by
  the probed destination, for the probed route version, before its timeout; and
  once acknowledged, replayed answers to it are ignored for as long as no new
  probe is started under the same id.\<close>

theorem path_probe_acknowledged_once:
  assumes "probe_acknowledge pid (node, seq) now (fold probe_step before (new_Tracker n t)) = (Some ob, tk)"
    and "\<forall>t u. Begin pid t u \<notin> set later"
  shows "pt_destination (ob_target ob) = node \<and> pt_route_sequence (ob_target ob) = seq \<and>
    0 \<le> ob_rtt ob \<and> ob_rtt ob < tk_timeout tk \<and>
    (\<forall>a now'. fst (probe_acknowledge pid a now' (fold probe_step later tk)) = None)"
proof -
  have ok: "tracker_ok (fold probe_step before (new_Tracker n t))" by (rule probe_tracker.run_ok)
  have "tk = cancel pid (fold probe_step before (new_Tracker n t))"
    using assms(1) by (auto elim: probe_tracker.ack_SomeD)
  then have "tk_timeout tk = tk_timeout (fold probe_step before (new_Tracker n t))" by (simp add: cancel_def)
  then show ?thesis
    using probe_tracker.ack_once [OF ok assms] assms(1)
    by (auto simp: probe_acknowledge_def split: option.splits if_splits)
qed

definition demo_target :: PathProbeTarget where
  "demo_target = \<lparr>pt_destination = replicate 32 1, pt_next_hop = replicate 32 2,
     pt_prefix = from_ipv4 0x0A000000, pt_prefix_length = 24, pt_route_sequence = 9\<rparr>"

theorem path_probe_acknowledged_once_witness:
  "pt_destination demo_target = replicate 32 1 \<and> pt_route_sequence demo_target = 9 \<and>
    (\<forall>a now'. fst (probe_acknowledge 5 a now' (fold probe_step [Expire 60]
       (new_Tracker 4 5000))) = None)"
proof -
  let ?tk = "fold probe_step [Begin 5 demo_target 10] (new_Tracker 4 5000)"
  have e: "probe_acknowledge 5 (replicate 32 1, 9) 50 ?tk =
      (Some \<lparr>ob_target = demo_target, ob_rtt = 40\<rparr>, new_Tracker 4 5000)"
    by (simp add: probe_acknowledge_def probe_begin_def begin_pending_def new_Tracker_def demo_target_def
        map_contains_def has_target_def cancel_def map_erase_def)
  show ?thesis using path_probe_acknowledged_once [OF e, of "[Expire 60]"] by simp
qed

text \<open>The table of outstanding hole-punch challenges stays sound through every
  sequence of calls: never more entries than the configured maximum, one entry
  per challenge id, and one per target.\<close>

theorem punch_tracker_invariant:
  "tracker_ok (fold punch_step calls (new_Tracker n t)) \<and>
   tracker_size (fold punch_step calls (new_Tracker n t)) \<le> n"
proof -
  have m: "tk_maximum (fold punch_step calls tk) = tk_maximum tk" for tk
  proof (induction calls arbitrary: tk)
    case (Cons c calls)
    have "tk_maximum (punch_step c tk) = tk_maximum tk"
      using punch_tracker.start_law punch_tracker.ack_law
      by (cases c)
        (auto simp: punch_begin_def begin_pending_def punch_acknowledge_def punch_expire_def drop_expired_def
          cancel_def reset_def split: option.splits)
    then show ?case using Cons by simp
  qed simp
  then show ?thesis
    using punch_tracker.run_ok [of calls n t] by (simp add: tracker_ok_def tracker_size_def new_Tracker_def)
qed

end
