(* ===== verification/Send_Queue.thy ===== *)
theory Send_Queue
  imports Aegis_Prelude "HOL-Library.AList"
begin

text \<open>
  \<open>include/aegis/transport/send_queue.hpp\<close>: the bounded queue between the
  senders and the socket thread.  A peer has a control and a data lane; the
  peers with a non-empty lane stand in one rotation per priority.  The
  \<open>unordered_map\<close> is an association list, whose order nothing observes.  The
  \<open>size_t\<close> subtractions of the limit checks cannot underflow: the invariant
  keeps the counters below the limits.
\<close>

section \<open>Definitions\<close>

datatype SendPriority = Data | Control

datatype SendQueueResult =
  Queued | Invalid | PerPeerItemLimit | PerPeerByteLimit | GlobalItemLimit | GlobalByteLimit

record SendQueueClassLimits =
  max_items_per_peer :: nat
  max_bytes_per_peer :: nat
  max_items_global :: nat
  max_bytes_global :: nat

record SendQueueLimits =
  lim_data :: SendQueueClassLimits
  lim_control :: SendQueueClassLimits

definition default_limits :: SendQueueLimits where
  "default_limits =
    \<lparr>lim_data = \<lparr>max_items_per_peer = 48, max_bytes_per_peer = 192 * 1024,
        max_items_global = 768, max_bytes_global = 3 * 1024 * 1024\<rparr>,
     lim_control = \<lparr>max_items_per_peer = 16, max_bytes_per_peer = 64 * 1024,
        max_items_global = 256, max_bytes_global = 1024 * 1024\<rparr>\<rparr>"

record QueueLane =
  ql_items :: "bytes list"
  ql_bytes :: nat

record PeerQueue =
  pq_control :: QueueLane
  pq_data :: QueueLane

record 'k QueuedDatagram =
  qd_peer_key :: 'k
  qd_priority :: SendPriority
  qd_bytes :: bytes

record 'k SendQueue =
  sq_limits :: SendQueueLimits
  sq_peers :: "('k \<times> PeerQueue) list"
  sq_active_control :: "'k list"
  sq_active_data :: "'k list"
  sq_control_items :: nat
  sq_control_bytes :: nat
  sq_data_items :: nat
  sq_data_bytes :: nat

definition new_SendQueue :: "SendQueueLimits \<Rightarrow> 'k SendQueue" where
  "new_SendQueue limits =
    \<lparr>sq_limits = limits, sq_peers = [], sq_active_control = [], sq_active_data = [],
     sq_control_items = 0, sq_control_bytes = 0, sq_data_items = 0, sq_data_bytes = 0\<rparr>"

text \<open>The selections by priority the methods make.\<close>

fun lane :: "SendPriority \<Rightarrow> PeerQueue \<Rightarrow> QueueLane" where
  "lane Control pq = pq_control pq"
| "lane Data pq = pq_data pq"

fun set_lane :: "SendPriority \<Rightarrow> QueueLane \<Rightarrow> PeerQueue \<Rightarrow> PeerQueue" where
  "set_lane Control l pq = pq\<lparr>pq_control := l\<rparr>"
| "set_lane Data l pq = pq\<lparr>pq_data := l\<rparr>"

fun class_limits :: "SendPriority \<Rightarrow> SendQueueLimits \<Rightarrow> SendQueueClassLimits" where
  "class_limits Control l = lim_control l"
| "class_limits Data l = lim_data l"

fun active :: "SendPriority \<Rightarrow> 'k SendQueue \<Rightarrow> 'k list" where
  "active Control q = sq_active_control q"
| "active Data q = sq_active_data q"

fun set_active :: "SendPriority \<Rightarrow> 'k list \<Rightarrow> 'k SendQueue \<Rightarrow> 'k SendQueue" where
  "set_active Control ks q = q\<lparr>sq_active_control := ks\<rparr>"
| "set_active Data ks q = q\<lparr>sq_active_data := ks\<rparr>"

fun items :: "SendPriority \<Rightarrow> 'k SendQueue \<Rightarrow> nat" where
  "items Control q = sq_control_items q"
| "items Data q = sq_data_items q"

fun queued_bytes :: "SendPriority \<Rightarrow> 'k SendQueue \<Rightarrow> nat" where
  "queued_bytes Control q = sq_control_bytes q"
| "queued_bytes Data q = sq_data_bytes q"

fun set_counts :: "SendPriority \<Rightarrow> nat \<Rightarrow> nat \<Rightarrow> 'k SendQueue \<Rightarrow> 'k SendQueue" where
  "set_counts Control i b q = q\<lparr>sq_control_items := i, sq_control_bytes := b\<rparr>"
| "set_counts Data i b q = q\<lparr>sq_data_items := i, sq_data_bytes := b\<rparr>"

definition empty_peer :: PeerQueue where
  "empty_peer = \<lparr>pq_control = \<lparr>ql_items = [], ql_bytes = 0\<rparr>, pq_data = \<lparr>ql_items = [], ql_bytes = 0\<rparr>\<rparr>"

text \<open>What \<open>peers_.find\<close> or \<open>try_emplace\<close> yields for a key.\<close>

definition peer_queue :: "'k \<Rightarrow> 'k SendQueue \<Rightarrow> PeerQueue" where
  "peer_queue k q = (case map_of (sq_peers q) k of None \<Rightarrow> empty_peer | Some pq \<Rightarrow> pq)"

definition valid_class :: "SendQueueClassLimits \<Rightarrow> bool" where
  "valid_class l \<longleftrightarrow> max_items_per_peer l > 0 \<and> max_bytes_per_peer l > 0 \<and>
     max_items_global l > 0 \<and> max_bytes_global l > 0"

definition valid_limits :: "SendQueueLimits \<Rightarrow> bool" where
  "valid_limits l \<longleftrightarrow> valid_class (lim_control l) \<and> valid_class (lim_data l)"

text \<open>\<open>data\<close> is \<open>None\<close> for a null pointer with a positive length.\<close>

definition enqueue ::
    "'k \<Rightarrow> bytes option \<Rightarrow> SendPriority \<Rightarrow> 'k SendQueue \<Rightarrow> SendQueueResult \<times> 'k SendQueue" where
  "enqueue k data p q =
    (case data of
       None \<Rightarrow> (Invalid, q)
     | Some bs \<Rightarrow>
         if \<not> valid_limits (sq_limits q) then (Invalid, q)
         else
           let l = lane p (peer_queue k q); lim = class_limits p (sq_limits q) in
           if length (ql_items l) \<ge> max_items_per_peer lim then (PerPeerItemLimit, q)
           else if length bs > max_bytes_per_peer lim - ql_bytes l then (PerPeerByteLimit, q)
           else if items p q \<ge> max_items_global lim then (GlobalItemLimit, q)
           else if length bs > max_bytes_global lim - queued_bytes p q then (GlobalByteLimit, q)
           else
             let q1 = (if ql_items l = [] then set_active p (active p q @ [k]) q else q);
               l1 = \<lparr>ql_items = ql_items l @ [bs], ql_bytes = ql_bytes l + length bs\<rparr>;
               q2 = q1\<lparr>sq_peers := AList.update k (set_lane p l1 (peer_queue k q)) (sq_peers q1)\<rparr>
             in (Queued, set_counts p (items p q + 1) (queued_bytes p q + length bs) q2))"

definition pop_lane :: "SendPriority \<Rightarrow> 'k SendQueue \<Rightarrow> 'k QueuedDatagram option \<times> 'k SendQueue" where
  "pop_lane p q =
    (let k = hd (active p q); q1 = set_active p (tl (active p q)) q in
     case map_of (sq_peers q1) k of
       None \<Rightarrow> (None, q1)
     | Some pq \<Rightarrow>
         let l = lane p pq in
         if ql_items l = [] then (None, q1)
         else
           let bs = hd (ql_items l);
             l1 = \<lparr>ql_items = tl (ql_items l), ql_bytes = ql_bytes l - length bs\<rparr>;
             pq1 = set_lane p l1 pq;
             q2 = set_counts p (items p q1 - 1) (queued_bytes p q1 - length bs) q1;
             q3 = (if ql_items l1 \<noteq> [] then set_active p (active p q2 @ [k]) q2 else q2);
             q4 = (if ql_items (pq_control pq1) = [] \<and> ql_items (pq_data pq1) = []
                   then q3\<lparr>sq_peers := AList.delete k (sq_peers q3)\<rparr>
                   else q3\<lparr>sq_peers := AList.update k pq1 (sq_peers q3)\<rparr>)
           in (Some \<lparr>qd_peer_key = k, qd_priority = p, qd_bytes = bs\<rparr>, q4))"

definition pop :: "'k SendQueue \<Rightarrow> 'k QueuedDatagram option \<times> 'k SendQueue" where
  "pop q =
    (if sq_active_control q \<noteq> [] then pop_lane Control q
     else if sq_active_data q \<noteq> [] then pop_lane Data q
     else (None, q))"

definition clear_queue :: "'k SendQueue \<Rightarrow> 'k SendQueue" where
  "clear_queue q = q\<lparr>sq_peers := [], sq_active_control := [], sq_active_data := [],
     sq_control_items := 0, sq_control_bytes := 0, sq_data_items := 0, sq_data_bytes := 0\<rparr>"

definition queue_size :: "'k SendQueue \<Rightarrow> nat" where
  "queue_size q = sq_control_items q + sq_data_items q"

definition queue_bytes :: "'k SendQueue \<Rightarrow> nat" where
  "queue_bytes q = sq_control_bytes q + sq_data_bytes q"

definition queue_empty :: "'k SendQueue \<Rightarrow> bool" where
  "queue_empty q \<longleftrightarrow> queue_size q = 0"

definition peer_count :: "'k SendQueue \<Rightarrow> nat" where
  "peer_count q = length (sq_peers q)"

section \<open>Selector laws\<close>

lemma lane_set_lane [simp]: "lane p (set_lane p' l pq) = (if p = p' then l else lane p pq)"
  by (cases p; cases p') simp_all

lemma active_set_active [simp]: "active p (set_active p' ks q) = (if p = p' then ks else active p q)"
  by (cases p; cases p') simp_all

lemma set_active_fields [simp]:
  "sq_peers (set_active p ks q) = sq_peers q" "sq_limits (set_active p ks q) = sq_limits q"
  "items p' (set_active p ks q) = items p' q" "queued_bytes p' (set_active p ks q) = queued_bytes p' q"
  by (cases p; cases p'; simp)+

lemma set_counts_fields [simp]:
  "sq_peers (set_counts p i b q) = sq_peers q" "sq_limits (set_counts p i b q) = sq_limits q"
  "active p' (set_counts p i b q) = active p' q"
  "items p' (set_counts p i b q) = (if p = p' then i else items p' q)"
  "queued_bytes p' (set_counts p i b q) = (if p = p' then b else queued_bytes p' q)"
  by (cases p; cases p'; simp)+

lemma set_peers_fields [simp]:
  "active p (q\<lparr>sq_peers := ps\<rparr>) = active p q" "items p (q\<lparr>sq_peers := ps\<rparr>) = items p q"
  "queued_bytes p (q\<lparr>sq_peers := ps\<rparr>) = queued_bytes p q"
  by (cases p; simp)+

lemma lane_empty_peer [simp]: "lane p empty_peer = \<lparr>ql_items = [], ql_bytes = 0\<rparr>"
  by (cases p) (simp_all add: empty_peer_def)

lemma both_lanes: "(\<forall>p. P (lane p pq)) \<longleftrightarrow> P (pq_control pq) \<and> P (pq_data pq)"
  by (metis SendPriority.exhaust lane.simps)

section \<open>Contents\<close>

text \<open>The abstract queue: one FIFO per peer and priority.\<close>

definition content :: "'k SendQueue \<Rightarrow> SendPriority \<Rightarrow> 'k \<Rightarrow> bytes list" where
  "content q p k = ql_items (lane p (peer_queue k q))"

definition total :: "(PeerQueue \<Rightarrow> nat) \<Rightarrow> ('k \<times> PeerQueue) list \<Rightarrow> nat" where
  "total f ps = sum_list (map (f \<circ> snd) ps)"

definition sq_ok :: "'k SendQueue \<Rightarrow> bool" where
  "sq_ok q \<longleftrightarrow>
     distinct (map fst (sq_peers q)) \<and>
     (\<forall>(k, pq) \<in> set (sq_peers q). \<exists>p. ql_items (lane p pq) \<noteq> []) \<and>
     (\<forall>p k. ql_bytes (lane p (peer_queue k q)) = sum_list (map length (content q p k))) \<and>
     (\<forall>p. distinct (active p q) \<and> set (active p q) = {k. content q p k \<noteq> []}) \<and>
     (\<forall>p. items p q = total (\<lambda>pq. length (ql_items (lane p pq))) (sq_peers q) \<and>
          queued_bytes p q = total (\<lambda>pq. ql_bytes (lane p pq)) (sq_peers q)) \<and>
     (\<forall>p. (\<forall>k. length (content q p k) \<le> max_items_per_peer (class_limits p (sq_limits q)) \<and>
              ql_bytes (lane p (peer_queue k q)) \<le> max_bytes_per_peer (class_limits p (sq_limits q))) \<and>
          items p q \<le> max_items_global (class_limits p (sq_limits q)) \<and>
          queued_bytes p q \<le> max_bytes_global (class_limits p (sq_limits q)))"

lemma sq_okD:
  assumes "sq_ok q"
  shows "distinct (map fst (sq_peers q))"
    and "(k, pq) \<in> set (sq_peers q) \<Longrightarrow> \<exists>p. ql_items (lane p pq) \<noteq> []"
    and "ql_bytes (lane p (peer_queue k q)) = sum_list (map length (content q p k))"
    and "distinct (active p q)" "set (active p q) = {k. content q p k \<noteq> []}"
    and "items p q = total (\<lambda>pq. length (ql_items (lane p pq))) (sq_peers q)"
    and "queued_bytes p q = total (\<lambda>pq. ql_bytes (lane p pq)) (sq_peers q)"
    and "length (content q p k) \<le> max_items_per_peer (class_limits p (sq_limits q))"
    and "ql_bytes (lane p (peer_queue k q)) \<le> max_bytes_per_peer (class_limits p (sq_limits q))"
    and "items p q \<le> max_items_global (class_limits p (sq_limits q))"
    and "queued_bytes p q \<le> max_bytes_global (class_limits p (sq_limits q))"
  using assms by (auto simp: sq_ok_def)

lemma total_update:
  "distinct (map fst ps) \<Longrightarrow> f d = 0 \<Longrightarrow>
    total f (AList.update k v ps) + f (case map_of ps k of None \<Rightarrow> d | Some w \<Rightarrow> w) = total f ps + f v"
  by (induction ps) (auto simp: total_def update_conv' split: option.splits)

lemma total_delete:
  "distinct (map fst ps) \<Longrightarrow> f d = 0 \<Longrightarrow>
    total f (AList.delete k ps) + f (case map_of ps k of None \<Rightarrow> d | Some w \<Rightarrow> w) = total f ps"
proof (induction ps)
  case (Cons e ps)
  then show ?case
    by (cases e) (auto simp: total_def delete_idem map_of_eq_None_iff split: option.splits)
qed (simp add: total_def)

lemma peer_queue_update [simp]:
  "peer_queue k' (q\<lparr>sq_peers := AList.update k v ps\<rparr>) =
     (if k' = k then v else (case map_of ps k' of None \<Rightarrow> empty_peer | Some pq \<Rightarrow> pq))"
  by (simp add: peer_queue_def update_conv')

section \<open>Enqueue\<close>

lemma enqueue_Queued:
  assumes "enqueue k data p q = (Queued, q')"
  obtains bs where "data = Some bs"
    "length (content q p k) < max_items_per_peer (class_limits p (sq_limits q))"
    "length bs \<le> max_bytes_per_peer (class_limits p (sq_limits q)) - ql_bytes (lane p (peer_queue k q))"
    "items p q < max_items_global (class_limits p (sq_limits q))"
    "length bs \<le> max_bytes_global (class_limits p (sq_limits q)) - queued_bytes p q"
    "sq_limits q' = sq_limits q"
    "sq_peers q' = AList.update k (set_lane p \<lparr>ql_items = content q p k @ [bs],
        ql_bytes = ql_bytes (lane p (peer_queue k q)) + length bs\<rparr> (peer_queue k q)) (sq_peers q)"
    "\<And>p'. active p' q' = (if p' = p \<and> content q p k = [] then active p q @ [k] else active p' q)"
    "\<And>p'. items p' q' = (if p' = p then items p q + 1 else items p' q)"
    "\<And>p'. queued_bytes p' q' = (if p' = p then queued_bytes p q + length bs else queued_bytes p' q)"
  using assms
  by (auto simp: enqueue_def Let_def content_def split: option.splits if_splits)

section \<open>Changing one lane\<close>

definition no_items :: "PeerQueue \<Rightarrow> bool" where
  "no_items pq \<longleftrightarrow> ql_items (pq_control pq) = [] \<and> ql_items (pq_data pq) = []"

lemma no_items_lanes: "no_items pq \<longleftrightarrow> (\<forall>p. ql_items (lane p pq) = [])"
  using both_lanes [of "\<lambda>l. ql_items l = []" pq] by (simp add: no_items_def)

text \<open>Storing a changed lane of peer \<open>k\<close>, dropping the peer when nothing is left.\<close>

definition store_peer :: "'k \<Rightarrow> PeerQueue \<Rightarrow> ('k \<times> PeerQueue) list \<Rightarrow> ('k \<times> PeerQueue) list" where
  "store_peer k pq ps = (if no_items pq then AList.delete k ps else AList.update k pq ps)"

lemma lane_store_peer:
  assumes "sq_peers q' = store_peer k (set_lane p l (peer_queue k q)) (sq_peers q)"
    and "sq_ok q" "ql_bytes l = sum_list (map length (ql_items l))"
  shows "lane p' (peer_queue k' q') = (if k' = k \<and> p' = p then l else lane p' (peer_queue k' q))"
proof (cases "no_items (set_lane p l (peer_queue k q))")
  case True
  then have e: "ql_items l = []" "p' \<noteq> p \<Longrightarrow> ql_items (lane p' (peer_queue k q)) = []"
    by (auto simp: no_items_lanes split: if_splits)
  moreover have "ql_bytes (lane p' (peer_queue k q)) = sum_list (map length (ql_items (lane p' (peer_queue k q))))"
    using sq_okD(3) [OF assms(2)] by (simp add: content_def)
  moreover have "peer_queue k' q' = (if k' = k then empty_peer else peer_queue k' q)"
    using True assms(1) by (simp add: peer_queue_def store_peer_def map_of_delete delete_conv')
  ultimately show ?thesis using assms(3) by (auto intro: QueueLane.equality)
next
  case False
  then have "peer_queue k' q' = (if k' = k then set_lane p l (peer_queue k q) else peer_queue k' q)"
    using assms(1) by (simp add: peer_queue_def store_peer_def update_conv')
  then show ?thesis by simp
qed

lemma total_store_peer:
  assumes "distinct (map fst (sq_peers q))" "f empty_peer = 0" "no_items pq \<Longrightarrow> f pq = 0"
  shows "total f (store_peer k pq (sq_peers q)) + f (peer_queue k q) = total f (sq_peers q) + f pq"
  using total_update [OF assms(1), of f empty_peer k pq] total_delete [OF assms(1), of f empty_peer k] assms(2,3)
  by (auto simp: store_peer_def peer_queue_def)

lemma set_update_subset: "(a, b) \<in> set (AList.update k v ps) \<Longrightarrow> (a, b) \<in> set ps \<or> (a = k \<and> b = v)"
  by (induction ps) (auto split: if_splits)

lemma sq_ok_store:
  assumes ok: "sq_ok q" and lim: "sq_limits q' = sq_limits q"
    and peers: "sq_peers q' = store_peer k (set_lane p l (peer_queue k q)) (sq_peers q)"
    and l: "ql_bytes l = sum_list (map length (ql_items l))"
    and act: "\<And>p'. p' \<noteq> p \<Longrightarrow> active p' q' = active p' q" "distinct (active p q')"
      "set (active p q') = set (active p q) - {k} \<union> (if ql_items l = [] then {} else {k})"
    and cnt: "items p q' + length (content q p k) = items p q + length (ql_items l)"
      "queued_bytes p q' + ql_bytes (lane p (peer_queue k q)) = queued_bytes p q + ql_bytes l"
      "\<And>p'. p' \<noteq> p \<Longrightarrow> items p' q' = items p' q \<and> queued_bytes p' q' = queued_bytes p' q"
    and bounds: "length (ql_items l) \<le> max_items_per_peer (class_limits p (sq_limits q))"
      "ql_bytes l \<le> max_bytes_per_peer (class_limits p (sq_limits q))"
      "items p q' \<le> max_items_global (class_limits p (sq_limits q))"
      "queued_bytes p q' \<le> max_bytes_global (class_limits p (sq_limits q))"
  shows "sq_ok q'"
proof -
  note D = sq_okD [OF ok] and L = lane_store_peer [OF peers ok l]
  let ?pq = "set_lane p l (peer_queue k q)"
  have C: "content q' p' k' = (if k' = k \<and> p' = p then ql_items l else content q p' k')" for p' k'
    by (simp add: content_def L)
  have dist: "distinct (map fst (sq_peers q'))"
    using D(1) by (simp add: peers store_peer_def distinct_update distinct_delete)
  have ne: "\<exists>p'. ql_items (lane p' pq) \<noteq> []" if "(k', pq) \<in> set (sq_peers q')" for k' pq
  proof (cases "no_items ?pq")
    case True
    then have "(k', pq) \<in> set (sq_peers q)" using that by (auto simp: peers store_peer_def AList.delete_eq)
    then show ?thesis by (rule D(2))
  next
    case False
    then have "(k', pq) \<in> set (sq_peers q) \<or> pq = ?pq"
      using that set_update_subset by (fastforce simp: peers store_peer_def)
    then show ?thesis using D(2) False by (auto simp: no_items_lanes)
  qed
  have zi: "length (ql_items (lane p' ?pq)) = 0" if "no_items ?pq" for p'
    using that unfolding no_items_lanes by simp
  have items: "items p' q' = total (\<lambda>pq. length (ql_items (lane p' pq))) (sq_peers q')" for p'
  proof -
    have "total (\<lambda>pq. length (ql_items (lane p' pq))) (store_peer k ?pq (sq_peers q)) +
        length (ql_items (lane p' (peer_queue k q))) =
        total (\<lambda>pq. length (ql_items (lane p' pq))) (sq_peers q) + length (ql_items (lane p' ?pq))"
      using zi by (intro total_store_peer [OF D(1)]) auto
    then show ?thesis using D(6) [of p'] cnt(1,3) by (cases "p' = p") (auto simp: peers content_def)
  qed
  have z: "ql_bytes (lane p' ?pq) = 0" if "no_items ?pq" for p'
    using that l D(3) [of p' k] by (auto simp: no_items_lanes content_def split: if_splits)
  have bytes: "queued_bytes p' q' = total (\<lambda>pq. ql_bytes (lane p' pq)) (sq_peers q')" for p'
  proof -
    have "total (\<lambda>pq. ql_bytes (lane p' pq)) (store_peer k ?pq (sq_peers q)) + ql_bytes (lane p' (peer_queue k q)) =
        total (\<lambda>pq. ql_bytes (lane p' pq)) (sq_peers q) + ql_bytes (lane p' ?pq)"
      using z by (intro total_store_peer [OF D(1)]) auto
    then show ?thesis using D(7) [of p'] cnt(2,3) by (cases "p' = p") (auto simp: peers)
  qed
  show ?thesis
    unfolding sq_ok_def
  proof (intro conjI allI)
    show "distinct (map fst (sq_peers q'))" by (rule dist)
    show "\<forall>(k, pq) \<in> set (sq_peers q'). \<exists>p. ql_items (lane p pq) \<noteq> []" using ne by blast
    fix p' k'
    show "ql_bytes (lane p' (peer_queue k' q')) = sum_list (map length (content q' p' k'))"
      using D(3) l by (simp add: C L)
    show "distinct (active p' q')" using D(4) act by (cases "p' = p") auto
    show "set (active p' q') = {k. content q' p' k \<noteq> []}" using D(5) act by (cases "p' = p") (auto simp: C)
    show "items p' q' = total (\<lambda>pq. length (ql_items (lane p' pq))) (sq_peers q')" by (rule items)
    show "queued_bytes p' q' = total (\<lambda>pq. ql_bytes (lane p' pq)) (sq_peers q')" by (rule bytes)
    show "length (content q' p' k') \<le> max_items_per_peer (class_limits p' (sq_limits q'))"
      using D(8) bounds by (simp add: C lim)
    show "ql_bytes (lane p' (peer_queue k' q')) \<le> max_bytes_per_peer (class_limits p' (sq_limits q'))"
      using D(9) bounds by (simp add: L lim)
    show "items p' q' \<le> max_items_global (class_limits p' (sq_limits q'))"
      using D(10) bounds cnt(3) by (cases "p' = p") (auto simp: lim)
    show "queued_bytes p' q' \<le> max_bytes_global (class_limits p' (sq_limits q'))"
      using D(11) bounds cnt(3) by (cases "p' = p") (auto simp: lim)
  qed
qed

lemma enqueue_cases: "fst (enqueue k data p q) = Queued \<or> snd (enqueue k data p q) = q"
  by (auto simp: enqueue_def Let_def split: option.splits)

lemma enqueue_ok:
  assumes "sq_ok q"
  shows "sq_ok (snd (enqueue k data p q))"
proof (cases "fst (enqueue k data p q) = Queued")
  case True
  then obtain q' where q': "enqueue k data p q = (Queued, q')" by (metis prod.collapse)
  note D = sq_okD [OF assms]
  from q' show ?thesis
  proof (cases rule: enqueue_Queued)
    case (1 bs)
    let ?l = "\<lparr>ql_items = content q p k @ [bs], ql_bytes = ql_bytes (lane p (peer_queue k q)) + length bs\<rparr>"
    have ni: "\<not> no_items (set_lane p ?l (peer_queue k q))" by (auto simp: no_items_lanes)
    have b: "ql_bytes (lane p (peer_queue k q)) + length bs \<le> max_bytes_per_peer (class_limits p (sq_limits q))"
      "queued_bytes p q + length bs \<le> max_bytes_global (class_limits p (sq_limits q))"
      using 1(3,5) D(9) [of p k] D(11) [of p] by linarith+
    have "sq_ok q'"
    proof (rule sq_ok_store [OF assms 1(6), of k p ?l])
      show "sq_peers q' = store_peer k (set_lane p ?l (peer_queue k q)) (sq_peers q)"
        using ni 1(7) by (simp add: store_peer_def)
    qed (use 1 D(3-5) b in \<open>auto simp: content_def\<close>)
    then show ?thesis using q' by simp
  qed
next
  case False
  then show ?thesis using assms enqueue_cases [of k data p q] by simp
qed

section \<open>Pop\<close>

text \<open>On a consistent queue a pop from a non-empty rotation serves its first peer
  and returns the oldest datagram of that peer's lane; the peer goes to the back
  of the rotation when it has more.\<close>

lemma pop_lane_cases:
  assumes "sq_ok q" "active p q = k # ks"
  obtains bs rest q' where "content q p k = bs # rest"
    "pop_lane p q = (Some \<lparr>qd_peer_key = k, qd_priority = p, qd_bytes = bs\<rparr>, q')"
    "sq_limits q' = sq_limits q"
    "sq_peers q' = store_peer k (set_lane p \<lparr>ql_items = rest,
        ql_bytes = ql_bytes (lane p (peer_queue k q)) - length bs\<rparr> (peer_queue k q)) (sq_peers q)"
    "\<And>p'. active p' q' = (if p' = p then (if rest = [] then ks else ks @ [k]) else active p' q)"
    "\<And>p'. items p' q' = (if p' = p then items p q - 1 else items p' q)"
    "\<And>p'. queued_bytes p' q' = (if p' = p then queued_bytes p q - length bs else queued_bytes p' q)"
proof -
  note D = sq_okD [OF assms(1)]
  have ne: "content q p k \<noteq> []" using D(5) [of p] assms(2) by auto
  then obtain bs rest where c: "content q p k = bs # rest" by (cases "content q p k") auto
  then obtain pq where pq: "map_of (sq_peers q) k = Some pq"
    by (auto simp: content_def peer_queue_def split: option.splits)
  then have l: "peer_queue k q = pq" "ql_items (lane p pq) = bs # rest"
    using c by (simp_all add: content_def peer_queue_def)
  show thesis
  proof (rule that [OF c])
    show "pop_lane p q = (Some \<lparr>qd_peer_key = k, qd_priority = p, qd_bytes = bs\<rparr>, snd (pop_lane p q))"
      using assms(2) pq l by (simp add: pop_lane_def Let_def)
  qed (use assms(2) pq l in \<open>auto simp: pop_lane_def Let_def store_peer_def no_items_def\<close>)
qed

lemma pop_lane_ok:
  assumes "sq_ok q" "active p q \<noteq> []"
  shows "sq_ok (snd (pop_lane p q))"
proof -
  obtain k ks where a: "active p q = k # ks" using assms(2) by (cases "active p q") auto
  note D = sq_okD [OF assms(1)]
  from assms(1) a show ?thesis
  proof (cases rule: pop_lane_cases)
    case (1 bs rest q')
    let ?l = "\<lparr>ql_items = rest, ql_bytes = ql_bytes (lane p (peer_queue k q)) - length bs\<rparr>"
    have bytes: "ql_bytes (lane p (peer_queue k q)) = length bs + sum_list (map length rest)"
      using D(3) [of p k] 1(1) by simp
    have "1 + length rest \<le> items p q" "ql_bytes (lane p (peer_queue k q)) \<le> queued_bytes p q"
      using total_store_peer [OF D(1), of "\<lambda>pq. length (ql_items (lane p pq))" empty_peer k]
        total_store_peer [OF D(1), of "\<lambda>pq. ql_bytes (lane p pq)" empty_peer k] D(6,7) 1(1)
      by (simp_all add: content_def)
    moreover have "k \<notin> set ks" "distinct ks" using D(4) [of p] a by simp_all
    moreover have "length (bs # rest) \<le> max_items_per_peer (class_limits p (sq_limits q))"
      using D(8) [of p k] 1(1) by simp
    moreover have "sum_list (map length rest) \<le> max_bytes_per_peer (class_limits p (sq_limits q))"
      using D(9) [of p k] bytes by simp
    ultimately have "sq_ok q'"
      using 1 bytes a D(10) [of p] D(11) [of p] by (intro sq_ok_store [OF assms(1) 1(3,4)]) auto
    then show ?thesis using 1(2) by simp
  qed
qed

lemma pop_ok: "sq_ok q \<Longrightarrow> sq_ok (snd (pop q))"
  using pop_lane_ok [of q Control] pop_lane_ok [of q Data] by (simp add: pop_def)

lemma empty_selectors:
  "active p (new_SendQueue l) = []" "items p (new_SendQueue l) = 0" "queued_bytes p (new_SendQueue l) = 0"
  "active p (clear_queue q) = []" "items p (clear_queue q) = 0" "queued_bytes p (clear_queue q) = 0"
  by (cases p; simp add: new_SendQueue_def clear_queue_def)+

lemma new_ok: "sq_ok (new_SendQueue l)" "sq_ok (clear_queue q)"
  unfolding sq_ok_def empty_selectors
  by (simp_all add: new_SendQueue_def clear_queue_def content_def peer_queue_def total_def)

end
