(* ===== verification/Queue_Properties.thy ===== *)
theory Queue_Properties
  imports Send_Queue
begin

text \<open>
  What the transport relies on from the send queue.  \<open>lane_fifo\<close> is the
  contract: an accepted datagram is appended to the lane of its peer and
  priority, a refused one changes nothing, and a removal takes the oldest
  element of some lane.  From it follows, once, that every lane delivers
  exactly what it accepted, in order.
\<close>

section \<open>The contract\<close>

datatype ('k, 'p) queue_call = Put 'k 'p bytes | Take

text \<open>A run with the log of the accepted and of the removed datagrams.\<close>

fun queue_run ::
    "('k \<Rightarrow> bytes \<Rightarrow> 'p \<Rightarrow> 'q \<Rightarrow> bool \<times> 'q) \<Rightarrow> ('q \<Rightarrow> ('p \<times> 'k \<times> bytes) option \<times> 'q) \<Rightarrow>
     ('k, 'p) queue_call list \<Rightarrow> 'q \<Rightarrow> ('p \<times> 'k \<times> bytes) list \<times> ('p \<times> 'k \<times> bytes) list \<times> 'q" where
  "queue_run put get [] q = ([], [], q)"
| "queue_run put get (Put k p bs # cs) q =
    (let (ok, q') = put k bs p q; (acc, out, r) = queue_run put get cs q'
     in (if ok then (p, k, bs) # acc else acc, out, r))"
| "queue_run put get (Take # cs) q =
    (let (d, q') = get q; (acc, out, r) = queue_run put get cs q'
     in (acc, (case d of None \<Rightarrow> out | Some x \<Rightarrow> x # out), r))"

definition on_lane :: "'p \<Rightarrow> 'k \<Rightarrow> ('p \<times> 'k \<times> bytes) list \<Rightarrow> bytes list" where
  "on_lane p k log = map (snd \<circ> snd) (filter (\<lambda>e. fst e = p \<and> fst (snd e) = k) log)"

lemma on_lane_simps [simp]:
  "on_lane p k [] = []"
  "on_lane p k ((p', k', bs) # log) = (if p' = p \<and> k' = k then bs # on_lane p k log else on_lane p k log)"
  by (simp_all add: on_lane_def)

locale lane_fifo =
  fixes invar :: "'q \<Rightarrow> bool"
    and lanes :: "'q \<Rightarrow> 'p \<Rightarrow> 'k \<Rightarrow> bytes list"
    and put :: "'k \<Rightarrow> bytes \<Rightarrow> 'p \<Rightarrow> 'q \<Rightarrow> bool \<times> 'q"
    and get :: "'q \<Rightarrow> ('p \<times> 'k \<times> bytes) option \<times> 'q"
  assumes put_invar: "invar q \<Longrightarrow> invar (snd (put k bs p q))"
    and get_invar: "invar q \<Longrightarrow> invar (snd (get q))"
    and put_lanes: "invar q \<Longrightarrow> lanes (snd (put k bs p q)) p' k' =
      (if fst (put k bs p q) \<and> p' = p \<and> k' = k then lanes q p k @ [bs] else lanes q p' k')"
    and get_lanes: "invar q \<Longrightarrow> lanes q p' k' =
      (case fst (get q) of
         None \<Rightarrow> lanes (snd (get q)) p' k'
       | Some (p, k, bs) \<Rightarrow> (if p' = p \<and> k' = k then [bs] else []) @ lanes (snd (get q)) p' k')"
    and get_None: "invar q \<Longrightarrow> fst (get q) = None \<Longrightarrow> lanes q p' k' = []"
begin

lemma run_fifo:
  "invar q \<Longrightarrow> queue_run put get cs q = (acc, out, r) \<Longrightarrow>
    invar r \<and> lanes q p k @ on_lane p k acc = on_lane p k out @ lanes r p k"
proof (induction cs arbitrary: q acc out r)
  case (Cons c cs)
  show ?case
  proof (cases c)
    case (Put k' p' bs)
    obtain ok q' where q': "put k' bs p' q = (ok, q')" by fastforce
    obtain acc' where a: "queue_run put get cs q' = (acc', out, r)"
      "acc = (if ok then (p', k', bs) # acc' else acc')"
      using Cons.prems(2) Put q' by (auto simp: Let_def split: prod.splits)
    have "invar q'" using put_invar [OF Cons.prems(1), of k' bs p'] q' by simp
    from Cons.IH [OF this a(1)] put_lanes [OF Cons.prems(1), of k' bs p' p k] q' a(2)
    show ?thesis by (auto split: if_splits)
  next
    case Take
    obtain d q' where q': "get q = (d, q')" by fastforce
    obtain out' where a: "queue_run put get cs q' = (acc, out', r)"
      "out = (case d of None \<Rightarrow> out' | Some x \<Rightarrow> x # out')"
      using Cons.prems(2) Take q' by (auto simp: Let_def split: prod.splits)
    have "invar q'" using get_invar [OF Cons.prems(1)] q' by simp
    from Cons.IH [OF this a(1)] get_lanes [OF Cons.prems(1), of p k] q' a(2)
    show ?thesis by (auto split: option.splits if_splits)
  qed
qed simp

end

section \<open>The queue meets it\<close>

definition put_datagram :: "'k \<Rightarrow> bytes \<Rightarrow> SendPriority \<Rightarrow> 'k SendQueue \<Rightarrow> bool \<times> 'k SendQueue" where
  "put_datagram k bs p q = (let (r, q') = enqueue k (Some bs) p q in (r = Queued, q'))"

definition take_datagram :: "'k SendQueue \<Rightarrow> (SendPriority \<times> 'k \<times> bytes) option \<times> 'k SendQueue" where
  "take_datagram q = (let (d, q') = pop q in
     (map_option (\<lambda>d. (qd_priority d, qd_peer_key d, qd_bytes d)) d, q'))"

lemma enqueue_content:
  assumes "sq_ok q" "enqueue k data p q = (Queued, q')" "data = Some bs"
  shows "content q' p' k' = (if p' = p \<and> k' = k then content q p k @ [bs] else content q p' k')"
  using assms(2)
proof (cases rule: enqueue_Queued)
  case (1 cs)
  then have "peer_queue k' q' = (if k' = k then set_lane p \<lparr>ql_items = content q p k @ [cs],
      ql_bytes = ql_bytes (lane p (peer_queue k q)) + length cs\<rparr> (peer_queue k q) else peer_queue k' q)"
    by (simp add: peer_queue_def update_conv')
  then show ?thesis using 1(1) assms(3) by (simp add: content_def)
qed

lemma pop_lane_content:
  assumes "sq_ok q" "active p q = k # ks"
  shows "\<exists>bs q'. pop_lane p q = (Some \<lparr>qd_peer_key = k, qd_priority = p, qd_bytes = bs\<rparr>, q') \<and>
    (\<forall>p' k'. content q p' k' = (if p' = p \<and> k' = k then [bs] else []) @ content q' p' k') \<and>
    active p q' = ks @ (if content q' p k = [] then [] else [k]) \<and> (\<forall>p'. p' \<noteq> p \<longrightarrow> active p' q' = active p' q)"
  using assms
proof (cases rule: pop_lane_cases)
  case (1 bs rest q')
  have "ql_bytes (lane p (peer_queue k q)) = length bs + sum_list (map length rest)"
    using sq_okD(3) [OF assms(1), of p k] 1(1) by simp
  then have "content q' p' k' = (if k' = k \<and> p' = p then rest else content q p' k')" for p' k'
    using lane_store_peer [OF 1(4) assms(1), of p' k'] by (simp add: content_def)
  then show ?thesis using 1(1,2,5) by (intro exI [of _ bs] exI [of _ q']) auto
qed

lemma pop_content:
  assumes "sq_ok q"
  shows "case pop q of
      (None, q') \<Rightarrow> q' = q \<and> (\<forall>p k. content q p k = [])
    | (Some d, q') \<Rightarrow>
        (\<forall>p k. content q p k =
           (if p = qd_priority d \<and> k = qd_peer_key d then [qd_bytes d] else []) @ content q' p k) \<and>
        (qd_priority d = Data \<longrightarrow> (\<forall>k. content q Control k = []))"
proof -
  have a: "active p q = [] \<longleftrightarrow> (\<forall>k. content q p k = [])" for p
    using sq_okD(5) [OF assms, of p] by auto
  consider (control) k ks where "active Control q = k # ks"
    | (data) k ks where "active Control q = []" "active Data q = k # ks"
    | (none) "active Control q = []" "active Data q = []"
    by (cases "active Control q"; cases "active Data q") blast+
  then show ?thesis
  proof cases
    case control
    then show ?thesis using pop_lane_content [OF assms control] by (auto simp: pop_def)
  next
    case data
    then show ?thesis using pop_lane_content [OF assms data(2)] a [of Control] by (auto simp: pop_def)
  next
    case none
    have "content q p k = []" for p k using none a [of p] by (cases p) auto
    then show ?thesis using none by (simp add: pop_def)
  qed
qed

interpretation send_queue: lane_fifo sq_ok content put_datagram take_datagram
proof
  fix q :: "'k SendQueue" and k bs p
  assume ok: "sq_ok q"
  show "sq_ok (snd (put_datagram k bs p q))"
    using enqueue_ok [OF ok, of k "Some bs" p] by (cases "enqueue k (Some bs) p q") (simp add: put_datagram_def)
  show "sq_ok (snd (take_datagram q))"
    using pop_ok [OF ok] by (cases "pop q") (simp add: take_datagram_def)
  fix p' k'
  show "content (snd (put_datagram k bs p q)) p' k' =
      (if fst (put_datagram k bs p q) \<and> p' = p \<and> k' = k then content q p k @ [bs] else content q p' k')"
    using enqueue_content [OF ok, of k "Some bs" p _ bs p' k'] enqueue_cases [of k "Some bs" p q]
    by (cases "enqueue k (Some bs) p q") (auto simp: put_datagram_def)
  show "content q p' k' =
      (case fst (take_datagram q) of None \<Rightarrow> content (snd (take_datagram q)) p' k'
       | Some (p, k, bs) \<Rightarrow> (if p' = p \<and> k' = k then [bs] else []) @ content (snd (take_datagram q)) p' k')"
    using pop_content [OF ok] by (auto simp: take_datagram_def split: prod.splits option.splits)
  show "fst (take_datagram q) = None \<Longrightarrow> content q p' k' = []"
    using pop_content [OF ok] by (auto simp: take_datagram_def split: prod.splits option.splits)
qed

section \<open>Properties\<close>

fun queue_step :: "('k, SendPriority) queue_call \<Rightarrow> 'k SendQueue \<Rightarrow> 'k SendQueue" where
  "queue_step (Put k p bs) q = snd (enqueue k (Some bs) p q)"
| "queue_step Take q = snd (pop q)"

lemma queue_step_ok: "sq_ok q \<Longrightarrow> sq_ok (queue_step c q)"
  by (cases c) (simp_all add: enqueue_ok pop_ok)

lemma fold_queue_step_ok: "sq_ok (fold queue_step calls (new_SendQueue limits))"
proof -
  have "sq_ok q \<Longrightarrow> sq_ok (fold queue_step calls q)" for q :: "'a SendQueue"
  proof (induction calls arbitrary: q)
    case (Cons c calls)
    then show ?case using queue_step_ok by fastforce
  qed simp
  then show ?thesis using new_ok(1) by blast
qed

fun data_or_take :: "('k, SendPriority) queue_call \<Rightarrow> bool" where
  "data_or_take (Put k p bs) = (p = Data)"
| "data_or_take Take = True"

lemma put_data_active:
  assumes "put_datagram k bs Data q = (ok, q')"
  shows "active Control q' = active Control q" "\<exists>ks. active Data q' = active Data q @ ks"
proof -
  have "active Control q' = active Control q \<and> (\<exists>ks. active Data q' = active Data q @ ks)"
  proof (cases ok)
    case True
    then have "enqueue k (Some bs) Data q = (Queued, q')"
      using assms by (auto simp: put_datagram_def split: prod.splits)
    then show ?thesis by (cases rule: enqueue_Queued) simp
  next
    case False
    then have "q' = q" using assms enqueue_cases [of k "Some bs" Data q]
      by (auto simp: put_datagram_def split: prod.splits)
    then show ?thesis by simp
  qed
  then show "active Control q' = active Control q" "\<exists>ks. active Data q' = active Data q @ ks" by simp_all
qed

lemma rotation_serves:
  "sq_ok q \<Longrightarrow> active Control q = [] \<Longrightarrow> i < length (active Data q) \<Longrightarrow> active Data q ! i = k \<Longrightarrow>
   list_all data_or_take calls \<Longrightarrow> i < count_list calls Take \<Longrightarrow>
   on_lane Data k (fst (snd (queue_run put_datagram take_datagram calls q))) \<noteq> []"
proof (induction calls arbitrary: q i)
  case (Cons c calls)
  show ?case
  proof (cases c)
    case (Put k' p bs)
    obtain ok q' where q': "put_datagram k' bs Data q = (ok, q')" by fastforce
    have "sq_ok q'" using send_queue.put_invar [OF Cons.prems(1), of k' bs Data] q' by simp
    moreover obtain ks where "active Data q' = active Data q @ ks" using put_data_active [OF q'] by blast
    ultimately have "on_lane Data k (fst (snd (queue_run put_datagram take_datagram calls q'))) \<noteq> []"
      using Cons.prems Put put_data_active [OF q'] by (intro Cons.IH [of q' i]) (auto simp: nth_append)
    then show ?thesis using Put Cons.prems(5) q' by (auto simp: Let_def split: prod.splits)
  next
    case Take
    obtain k0 ks where a: "active Data q = k0 # ks" using Cons.prems(3) by (cases "active Data q") auto
    obtain bs q' where d: "pop_lane Data q = (Some \<lparr>qd_peer_key = k0, qd_priority = Data, qd_bytes = bs\<rparr>, q')"
      and act: "\<exists>ks'. active Data q' = ks @ ks'" "active Control q' = []"
      using pop_lane_content [OF Cons.prems(1) a] Cons.prems(2) by fastforce
    have t: "take_datagram q = (Some (Data, k0, bs), q')" using d a Cons.prems(2) by (simp add: take_datagram_def pop_def)
    have ok: "sq_ok q'" using send_queue.get_invar [OF Cons.prems(1)] t by simp
    show ?thesis
    proof (cases i)
      case 0
      then show ?thesis using Take t a Cons.prems(4) by (simp add: Let_def split: prod.splits)
    next
      case (Suc j)
      then have "on_lane Data k (fst (snd (queue_run put_datagram take_datagram calls q'))) \<noteq> []"
        using Cons.prems a act Take by (intro Cons.IH [OF ok, of j]) (auto simp: nth_append)
      then show ?thesis using Take t by (auto simp: Let_def split: prod.splits)
    qed
  qed
qed simp



text \<open>Control traffic always goes first: in every state the calls can reach, a
  data datagram is popped only when no peer has a control datagram queued, and
  nothing is popped only when nothing is queued.\<close>

theorem control_before_data:
  "case pop (fold queue_step calls (new_SendQueue limits)) of
     (None, q') \<Rightarrow> \<forall>p k. content (fold queue_step calls (new_SendQueue limits)) p k = []
   | (Some d, q') \<Rightarrow> qd_priority d = Control \<or>
       (\<forall>k. content (fold queue_step calls (new_SendQueue limits)) Control k = [])"
  using pop_content [OF fold_queue_step_ok, of calls limits] by (auto split: prod.splits option.splits intro: SendPriority.exhaust)



end
