(* ===== verification/Handshake_Guard.thy ===== *)
theory Handshake_Guard
  imports Std_Map Net_Address Wire "HOL-Library.Product_Lexorder"
begin

text \<open>
  \<open>src/transport/handshake_rate_limiter.cpp\<close> and \<open>handshake_cookie.cpp\<close>: the two
  guards an unauthenticated handshake passes before the responder spends any
  Noise computation on it.  Clock readings and the result of the random source
  are arguments; the hash functions are the record \<open>cookie_api\<close>.
\<close>

section \<open>Rate limiter\<close>

record HandshakeRateLimitConfig =
  per_source_limit :: nat
  global_limit :: nat
  max_sources :: nat
  window :: time

definition default_rate_config :: HandshakeRateLimitConfig where
  "default_rate_config = \<lparr>per_source_limit = 8, global_limit = 64, max_sources = 1024, window = 1000\<rparr>"

record Bucket =
  window_start :: time
  bk_count :: nat

type_synonym source_key = "byte \<times> bytes"

record HandshakeRateLimiter =
  rl_config :: HandshakeRateLimitConfig
  rl_global :: Bucket
  rl_sources :: "(source_key, Bucket) std_map"

definition new_HandshakeRateLimiter :: "time \<Rightarrow> HandshakeRateLimitConfig \<Rightarrow> HandshakeRateLimiter" where
  "new_HandshakeRateLimiter now cfg =
    \<lparr>rl_config = (if window cfg \<le> 0 then cfg\<lparr>window := 1\<rparr> else cfg),
     rl_global = \<lparr>window_start = now, bk_count = 0\<rparr>, rl_sources = []\<rparr>"

definition window_expired :: "HandshakeRateLimitConfig \<Rightarrow> time \<Rightarrow> time \<Rightarrow> bool" where
  "window_expired cfg start now \<longleftrightarrow> now < start \<or> now - start \<ge> window cfg"

definition reset_global_if_expired :: "time \<Rightarrow> HandshakeRateLimiter \<Rightarrow> HandshakeRateLimiter" where
  "reset_global_if_expired now l =
    (if \<not> window_expired (rl_config l) (window_start (rl_global l)) now then l
     else l\<lparr>rl_global := \<lparr>window_start = now, bk_count = 0\<rparr>\<rparr>)"

definition purge_expired_sources :: "time \<Rightarrow> HandshakeRateLimiter \<Rightarrow> HandshakeRateLimiter" where
  "purge_expired_sources now l =
    l\<lparr>rl_sources := map_erase_if (\<lambda>e. window_expired (rl_config l) (window_start (snd e)) now) (rl_sources l)\<rparr>"

definition source_key :: "Endpoint \<Rightarrow> source_key" where
  "source_key source = (addr_family (ep_address source),
     if is_ipv6 source then take 8 (addr_bytes (ep_address source)) @ replicate 8 0
     else addr_bytes (ep_address source))"

definition allow_handshake :: "time \<Rightarrow> Endpoint \<Rightarrow> HandshakeRateLimiter \<Rightarrow> bool \<times> HandshakeRateLimiter" where
  "allow_handshake now source l =
    (let l = purge_expired_sources now (reset_global_if_expired now l);
         it = map_of (rl_sources l) (source_key source) in
     if (case it of None \<Rightarrow> False | Some b \<Rightarrow> bk_count b \<ge> per_source_limit (rl_config l)) then (False, l)
     else if bk_count (rl_global l) \<ge> global_limit (rl_config l) then (False, l)
     else if it = None \<and> length (rl_sources l) \<ge> max_sources (rl_config l) then (False, l)
     else
       let b = (case it of None \<Rightarrow> \<lparr>window_start = now, bk_count = 0\<rparr> | Some b \<Rightarrow> b) in
       (True, l\<lparr>rl_sources := map_put (source_key source) (b\<lparr>bk_count := bk_count b + 1\<rparr>) (rl_sources l),
                rl_global := (rl_global l)\<lparr>bk_count := bk_count (rl_global l) + 1\<rparr>\<rparr>))"

definition tracked_sources :: "HandshakeRateLimiter \<Rightarrow> nat" where
  "tracked_sources l = length (rl_sources l)"

section \<open>Window budgets\<close>

text \<open>
  Both budgets of the limiter are fixed windows.  \<open>window_budget\<close> is what a
  window promises of one call: an expired window is dropped or restarted at the
  time of the call, and a counted call finds room and takes one unit.  The
  consequence for every stretch of calls shorter than a window is proved once.
\<close>

fun counted_run :: "('c \<Rightarrow> 's \<Rightarrow> bool \<times> 's) \<Rightarrow> ('c \<Rightarrow> bool) \<Rightarrow> 'c list \<Rightarrow> 's \<Rightarrow> nat \<times> 's" where
  "counted_run call P [] s = (0, s)"
| "counted_run call P (c # cs) s =
    (let (ok, s') = call c s; (n, r) = counted_run call P cs s'
     in (if ok \<and> P c then Suc n else n, r))"

definition live_bucket :: "time \<Rightarrow> time \<Rightarrow> Bucket option \<Rightarrow> Bucket option" where
  "live_bucket w now b = (case b of None \<Rightarrow> None
     | Some b \<Rightarrow> if now < window_start b \<or> now - window_start b \<ge> w then None else Some b)"

locale window_budget =
  fixes call :: "'c \<Rightarrow> 's \<Rightarrow> bool \<times> 's"
    and at :: "'c \<Rightarrow> time"
    and counts :: "'c \<Rightarrow> bool"
    and bucket :: "'s \<Rightarrow> Bucket option"
    and invar :: "'s \<Rightarrow> bool"
    and limit :: nat
    and w :: time
  assumes call_invar: "invar s \<Longrightarrow> invar (snd (call c s))"
    and invar_limit: "invar s \<Longrightarrow> bucket s = Some b \<Longrightarrow> bk_count b \<le> limit"
    and counted: "invar s \<Longrightarrow> call c s = (True, s') \<Longrightarrow> counts c \<Longrightarrow>
      (case live_bucket w (at c) (bucket s) of
         None \<Rightarrow> bucket s' = Some \<lparr>window_start = at c, bk_count = 1\<rparr>
       | Some b \<Rightarrow> bucket s' = Some (b\<lparr>bk_count := bk_count b + 1\<rparr>))"
    and uncounted: "invar s \<Longrightarrow> call c s = (ok, s') \<Longrightarrow> \<not> (ok \<and> counts c) \<Longrightarrow>
      bucket s' = live_bucket w (at c) (bucket s) \<or>
      live_bucket w (at c) (bucket s) = None \<and> bucket s' = Some \<lparr>window_start = at c, bk_count = 0\<rparr>"
begin

definition room :: "time \<Rightarrow> time \<Rightarrow> 's \<Rightarrow> nat" where
  "room t0 now s = (case bucket s of None \<Rightarrow> limit
     | Some b \<Rightarrow> (limit - bk_count b) + (if t0 \<le> window_start b \<and> window_start b \<le> now then 0 else limit))"

lemma room_call:
  assumes "invar s" "call c s = (ok, s')" "t0 \<le> now" "now \<le> at c" "at c < t0 + w"
  shows "(if ok \<and> counts c then 1 else 0) + room t0 (at c) s' \<le> room t0 now s"
proof -
  have i: "invar s'" using call_invar [OF assms(1), of c] assms(2) by simp
  show ?thesis
  proof (cases "ok \<and> counts c")
    case True
    then show ?thesis
      using counted [OF assms(1), of c s'] invar_limit [OF i] invar_limit [OF assms(1)] assms
      by (fastforce simp: room_def live_bucket_def split: option.splits if_splits)
  next
    case False
    then show ?thesis
      using uncounted [OF assms(1,2) False] invar_limit [OF i] invar_limit [OF assms(1)] assms
      by (auto simp: room_def live_bucket_def split: option.splits if_splits)
  qed
qed

lemma room_run:
  "invar s \<Longrightarrow> sorted (now # map at cs) \<Longrightarrow> t0 \<le> now \<Longrightarrow> \<forall>c \<in> set cs. at c < t0 + w \<Longrightarrow>
    fst (counted_run call counts cs s) \<le> room t0 now s"
proof (induction cs arbitrary: s now)
  case (Cons c cs)
  obtain ok s' where s': "call c s = (ok, s')" by fastforce
  have "invar s'" using call_invar [OF Cons.prems(1), of c] s' by simp
  then have "fst (counted_run call counts cs s') \<le> room t0 (at c) s'"
    using Cons.prems by (intro Cons.IH) auto
  with room_call [OF Cons.prems(1) s' Cons.prems(3)] Cons.prems s'
  show ?case by (auto split: prod.splits if_splits)
qed simp

theorem window_bound:
  assumes "invar s" "sorted (map at cs)" "\<forall>c \<in> set cs. t0 \<le> at c \<and> at c < t0 + w"
  shows "fst (counted_run call counts cs s) \<le> 2 * limit"
proof -
  have "fst (counted_run call counts cs s) \<le> room t0 t0 s" using assms by (intro room_run) auto
  also have "\<dots> \<le> 2 * limit" by (auto simp: room_def split: option.splits)
  finally show ?thesis .
qed

end

section \<open>The limiter's budgets\<close>

definition limiter_ok :: "HandshakeRateLimitConfig \<Rightarrow> HandshakeRateLimiter \<Rightarrow> bool" where
  "limiter_ok cfg l \<longleftrightarrow> rl_config l = cfg \<and> map_ok (rl_sources l) \<and> bk_count (rl_global l) \<le> global_limit cfg \<and>
     length (rl_sources l) \<le> max_sources cfg \<and>
     (\<forall>k b. map_of (rl_sources l) k = Some b \<longrightarrow> bk_count b \<le> per_source_limit cfg)"

lemma limiter_ok_bucket: "limiter_ok cfg l \<Longrightarrow> map_of (rl_sources l) k = Some b \<Longrightarrow> bk_count b \<le> per_source_limit cfg"
  by (cases k) (simp add: limiter_ok_def)

definition allow_call :: "time \<times> Endpoint \<Rightarrow> HandshakeRateLimiter \<Rightarrow> bool \<times> HandshakeRateLimiter" where
  "allow_call c l = allow_handshake (fst c) (snd c) l"

definition swept :: "time \<Rightarrow> HandshakeRateLimiter \<Rightarrow> HandshakeRateLimiter" where
  "swept now l = purge_expired_sources now (reset_global_if_expired now l)"

lemma swept_ok: "limiter_ok cfg l \<Longrightarrow> limiter_ok cfg (swept now l)"
  by (auto simp: limiter_ok_def swept_def purge_expired_sources_def reset_global_if_expired_def
      dest: map_of_erase_if_SomeD intro: le_trans [OF length_erase_if_le])

lemma swept_sources:
  "limiter_ok cfg l \<Longrightarrow> map_of (rl_sources (swept now l)) k = live_bucket (window cfg) now (map_of (rl_sources l) k)"
  by (auto simp: limiter_ok_def swept_def purge_expired_sources_def reset_global_if_expired_def
      map_of_erase_if live_bucket_def window_expired_def split: option.splits)

lemma swept_global:
  "limiter_ok cfg l \<Longrightarrow> rl_global (swept now l) =
    (case live_bucket (window cfg) now (Some (rl_global l)) of
       None \<Rightarrow> \<lparr>window_start = now, bk_count = 0\<rparr> | Some b \<Rightarrow> b)"
  by (auto simp: limiter_ok_def swept_def purge_expired_sources_def reset_global_if_expired_def
      live_bucket_def window_expired_def)

lemma allow_cases:
  assumes "limiter_ok cfg l"
  obtains (refused) "allow_call c l = (False, swept (fst c) l)"
  | (admitted) b where "b = (case map_of (rl_sources (swept (fst c) l)) (source_key (snd c)) of
        None \<Rightarrow> \<lparr>window_start = fst c, bk_count = 0\<rparr> | Some b \<Rightarrow> b)"
    "bk_count (rl_global (swept (fst c) l)) < global_limit cfg"
    "map_of (rl_sources (swept (fst c) l)) (source_key (snd c)) \<noteq> None \<longrightarrow> bk_count b < per_source_limit cfg"
    "map_of (rl_sources (swept (fst c) l)) (source_key (snd c)) \<noteq> None \<or>
      length (rl_sources (swept (fst c) l)) < max_sources cfg"
    "allow_call c l = (True, (swept (fst c) l)
      \<lparr>rl_sources := map_put (source_key (snd c)) (b\<lparr>bk_count := bk_count b + 1\<rparr>) (rl_sources (swept (fst c) l)),
       rl_global := (rl_global (swept (fst c) l))\<lparr>bk_count := bk_count (rl_global (swept (fst c) l)) + 1\<rparr>\<rparr>)"
proof -
  have e: "rl_config (swept (fst c) l) = cfg" using swept_ok [OF assms, of "fst c"] by (simp add: limiter_ok_def)
  note d = allow_call_def allow_handshake_def Let_def swept_def [symmetric] e
  show thesis
  proof (cases "fst (allow_call c l)")
    case True
    then show thesis
      by (intro admitted [OF refl]) (auto simp: d split: option.splits if_splits)
  next
    case False
    then show thesis by (intro refused) (auto simp: d split: option.splits if_splits)
  qed
qed

lemma allow_ok:
  assumes "limiter_ok cfg l" "0 < per_source_limit cfg"
  shows "limiter_ok cfg (snd (allow_call c l))"
  using assms(1)
proof (cases rule: allow_cases [where c = c])
  case refused
  then show ?thesis using swept_ok [OF assms(1)] by simp
next
  case (admitted b)
  then show ?thesis
    using swept_ok [OF assms(1), of "fst c"] assms(2)
    by (auto simp: limiter_ok_def length_put map_contains_iff split: option.splits if_splits)
qed

interpretation global_budget:
  window_budget allow_call fst "\<lambda>c. True" "\<lambda>l. Some (rl_global l)"
    "\<lambda>l. limiter_ok cfg l \<and> 0 < per_source_limit cfg" "global_limit cfg" "window cfg" for cfg
proof
  fix l :: HandshakeRateLimiter and c l'
  assume ok: "limiter_ok cfg l \<and> 0 < per_source_limit cfg" and c: "allow_call c l = (True, l')" "True"
  from ok have ok: "limiter_ok cfg l" by simp
  then show "case live_bucket (window cfg) (fst c) (Some (rl_global l)) of
      None \<Rightarrow> Some (rl_global l') = Some \<lparr>window_start = fst c, bk_count = 1\<rparr>
    | Some b \<Rightarrow> Some (rl_global l') = Some (b\<lparr>bk_count := bk_count b + 1\<rparr>)"
    by (cases rule: allow_cases [where c = c]) (use c swept_global [OF ok] in \<open>auto split: option.splits\<close>)
next
  fix l :: HandshakeRateLimiter and c r l'
  assume ok: "limiter_ok cfg l \<and> 0 < per_source_limit cfg" and c: "allow_call c l = (r, l')" "\<not> (r \<and> True)"
  from ok have ok: "limiter_ok cfg l" by simp
  then show "Some (rl_global l') = live_bucket (window cfg) (fst c) (Some (rl_global l)) \<or>
      live_bucket (window cfg) (fst c) (Some (rl_global l)) = None \<and>
      Some (rl_global l') = Some \<lparr>window_start = fst c, bk_count = 0\<rparr>"
    by (cases rule: allow_cases [where c = c]) (use c swept_global [OF ok] in \<open>auto split: option.splits\<close>)
qed (auto simp: allow_ok, simp add: limiter_ok_def)

interpretation source_budget:
  window_budget allow_call fst "\<lambda>c. source_key (snd c) = k" "\<lambda>l. map_of (rl_sources l) k"
    "\<lambda>l. limiter_ok cfg l \<and> 0 < per_source_limit cfg" "per_source_limit cfg" "window cfg" for cfg k
proof
  fix l :: HandshakeRateLimiter and c l'
  assume ok: "limiter_ok cfg l \<and> 0 < per_source_limit cfg"
    and c: "allow_call c l = (True, l')" "source_key (snd c) = k"
  from ok have ok: "limiter_ok cfg l" by simp
  then show "case live_bucket (window cfg) (fst c) (map_of (rl_sources l) k) of
      None \<Rightarrow> map_of (rl_sources l') k = Some \<lparr>window_start = fst c, bk_count = 1\<rparr>
    | Some b \<Rightarrow> map_of (rl_sources l') k = Some (b\<lparr>bk_count := bk_count b + 1\<rparr>)"
    by (cases rule: allow_cases [where c = c]) (use c swept_sources [OF ok] in \<open>auto split: option.splits\<close>)
next
  fix l :: HandshakeRateLimiter and c r l'
  assume ok: "limiter_ok cfg l \<and> 0 < per_source_limit cfg"
    and c: "allow_call c l = (r, l')" "\<not> (r \<and> source_key (snd c) = k)"
  from ok have ok: "limiter_ok cfg l" by simp
  then show "map_of (rl_sources l') k = live_bucket (window cfg) (fst c) (map_of (rl_sources l) k) \<or>
      live_bucket (window cfg) (fst c) (map_of (rl_sources l) k) = None \<and>
      map_of (rl_sources l') k = Some \<lparr>window_start = fst c, bk_count = 0\<rparr>"
    by (cases rule: allow_cases [where c = c]) (use c swept_sources [OF ok] in \<open>auto split: option.splits\<close>)
qed (auto simp: allow_ok limiter_ok_bucket)

lemma run_limiter_ok:
  assumes "0 < per_source_limit cfg" "0 < window cfg"
  shows "limiter_ok cfg (snd (counted_run allow_call P cs (new_HandshakeRateLimiter now cfg)))"
proof -
  have "limiter_ok cfg l \<Longrightarrow> limiter_ok cfg (snd (counted_run allow_call P cs l))" for l
  proof (induction cs arbitrary: l)
    case (Cons c cs)
    then show ?case
      using allow_ok [OF Cons.prems assms(1), of c] by (auto split: prod.splits) (metis snd_conv)
  qed simp
  moreover have "limiter_ok cfg (new_HandshakeRateLimiter now cfg)"
    using assms by (simp add: limiter_ok_def new_HandshakeRateLimiter_def)
  ultimately show ?thesis by blast
qed

text \<open>C19: the limiter bounds unauthenticated handshake work: whatever calls came
  before, among calls whose times lie within one window length it admits at
  most twice the global limit in total, and at most twice the per-source limit
  from all the endpoints that share a source key, whatever ports or, for IPv6,
  whatever addresses of a /64 they use.  (Fixed windows: a burst may straddle
  two of them.)\<close>

theorem handshake_rate_bounded:
  assumes "0 < per_source_limit cfg" "0 < window cfg" "sorted (map fst calls)"
    and "\<forall>c \<in> set calls. t0 \<le> fst c \<and> fst c < t0 + window cfg"
  shows "fst (counted_run allow_call (\<lambda>c. True) calls
        (snd (counted_run allow_call (\<lambda>c. True) before (new_HandshakeRateLimiter start cfg)))) \<le> 2 * global_limit cfg \<and>
    fst (counted_run allow_call (\<lambda>c. source_key (snd c) = k) calls
        (snd (counted_run allow_call (\<lambda>c. True) before (new_HandshakeRateLimiter start cfg)))) \<le> 2 * per_source_limit cfg"
  using run_limiter_ok [OF assms(1,2)] assms
  by (intro conjI global_budget.window_bound [where ?t0.0 = t0] source_budget.window_bound [where ?t0.0 = t0]) simp_all

theorem handshake_rate_bounded_witness:
  "fst (counted_run allow_call (\<lambda>c. True) [(5, \<lparr>ep_address = from_ipv4 1, ep_port = 9\<rparr>)]
        (snd (counted_run allow_call (\<lambda>c. True) [] (new_HandshakeRateLimiter 0 default_rate_config)))) \<le> 2 * 64"
  using handshake_rate_bounded [of default_rate_config "[(5, \<lparr>ep_address = from_ipv4 1, ep_port = 9\<rparr>)]" 5 "[]" 0]
  by (simp add: default_rate_config_def)

section \<open>Retry cookies\<close>

abbreviation HANDSHAKE_COOKIE_SIZE :: nat where "HANDSHAKE_COOKIE_SIZE \<equiv> 32"

definition COOKIE_DOMAIN :: bytes where
  "COOKIE_DOMAIN = ascii ''aegis-retry-cookie-v1''"

record cookie_api =
  blake2s_hash :: "bytes \<Rightarrow> bytes option"
  blake2s_hmac :: "bytes \<Rightarrow> bytes \<Rightarrow> bytes option"

record HandshakeCookieManager =
  rotation_interval :: time
  current_secret :: "bytes option"
  previous_secret :: "bytes option"
  rotated_at :: time

definition new_HandshakeCookieManager :: "time \<Rightarrow> HandshakeCookieManager" where
  "new_HandshakeCookieManager interval =
    \<lparr>rotation_interval = (if interval \<le> 0 then 1 else interval),
     current_secret = None, previous_secret = None, rotated_at = 0\<rparr>"

text \<open>\<open>fresh\<close> is what the random source delivers, \<open>None\<close> when it fails.\<close>

definition rotate_if_needed ::
    "time \<Rightarrow> bytes option \<Rightarrow> HandshakeCookieManager \<Rightarrow> bool \<times> HandshakeCookieManager" where
  "rotate_if_needed now fresh m =
    (if current_secret m \<noteq> None \<and> now \<ge> rotated_at m \<and> now - rotated_at m < rotation_interval m then (True, m)
     else case fresh of
       None \<Rightarrow> (False, m)
     | Some replacement \<Rightarrow>
         (True, m\<lparr>previous_secret :=
             (if current_secret m \<noteq> None \<and> now \<ge> rotated_at m \<and>
                 now - rotated_at m < 2 * rotation_interval m
              then current_secret m else None),
           current_secret := Some replacement, rotated_at := now\<rparr>))"

definition derive_cookie :: "cookie_api \<Rightarrow> bytes \<Rightarrow> Endpoint \<Rightarrow> u32 \<Rightarrow> bytes \<Rightarrow> bytes option" where
  "derive_cookie api secret source session_id init_frame = do {
     init_hash \<leftarrow> blake2s_hash api init_frame;
     w \<leftarrow> write_bytes COOKIE_DOMAIN (WireWriter (replicate (21 + 1 + 16 + 2 + 4 + 32) 0));
     w \<leftarrow> write_u8 (addr_family (ep_address source)) w;
     w \<leftarrow> write_bytes (addr_bytes (ep_address source)) w;
     w \<leftarrow> write_u16 (ntohs (ep_port source)) w;
     w \<leftarrow> write_u32 session_id w;
     w \<leftarrow> write_bytes init_hash w;
     if wr_finished w then blake2s_hmac api secret (wr_bytes w) else None }"

definition issue_cookie ::
    "cookie_api \<Rightarrow> time \<Rightarrow> bytes option \<Rightarrow> Endpoint \<Rightarrow> u32 \<Rightarrow> bytes \<Rightarrow> HandshakeCookieManager
     \<Rightarrow> bytes option \<times> HandshakeCookieManager" where
  "issue_cookie api now fresh source session_id init_frame m =
    (let (ok, m) = rotate_if_needed now fresh m in
     if \<not> ok then (None, m)
     else (Option.bind (current_secret m) (\<lambda>s. derive_cookie api s source session_id init_frame), m))"

definition verify_cookie ::
    "cookie_api \<Rightarrow> time \<Rightarrow> bytes option \<Rightarrow> bytes \<Rightarrow> Endpoint \<Rightarrow> u32 \<Rightarrow> bytes \<Rightarrow> HandshakeCookieManager
     \<Rightarrow> bool \<times> HandshakeCookieManager" where
  "verify_cookie api now fresh cookie source session_id init_frame m =
    (let (ok, m) = rotate_if_needed now fresh m in
     if \<not> ok then (False, m)
     else if Option.bind (current_secret m) (\<lambda>s. derive_cookie api s source session_id init_frame) = Some cookie
     then (True, m)
     else (Option.bind (previous_secret m) (\<lambda>s. derive_cookie api s source session_id init_frame) = Some cookie, m))"

datatype cookie_call =
    Issue time "bytes option" Endpoint u32 bytes
  | Verify time "bytes option" bytes Endpoint u32 bytes

fun cookie_time :: "cookie_call \<Rightarrow> time" where
  "cookie_time (Issue now fresh source sid frame) = now"
| "cookie_time (Verify now fresh cookie source sid frame) = now"

fun cookie_step :: "cookie_api \<Rightarrow> cookie_call \<Rightarrow> HandshakeCookieManager \<Rightarrow> HandshakeCookieManager" where
  "cookie_step api (Issue now fresh source sid frame) m = snd (issue_cookie api now fresh source sid frame m)"
| "cookie_step api (Verify now fresh cookie source sid frame) m =
    snd (verify_cookie api now fresh cookie source sid frame m)"

subsection \<open>Lifetime\<close>

lemma cookie_state:
  "snd (issue_cookie api now fresh source sid frame m) = snd (rotate_if_needed now fresh m)"
  "snd (verify_cookie api now fresh c source sid frame m) = snd (rotate_if_needed now fresh m)"
  by (simp_all add: issue_cookie_def verify_cookie_def split: prod.splits)

lemma cookie_step_rotate:
  obtains fresh where "cookie_step api c m = snd (rotate_if_needed (cookie_time c) fresh m)"
  by (cases c) (auto simp: cookie_state)

lemma rotation_interval_rotate [simp]:
  "rotation_interval (snd (rotate_if_needed now fresh m)) = rotation_interval m"
  by (simp add: rotate_if_needed_def split: option.splits)

lemma rotation_interval_run: "rotation_interval (fold (cookie_step api) cs m) = rotation_interval m"
proof (induction cs arbitrary: m)
  case (Cons c cs)
  have "rotation_interval (cookie_step api c m) = rotation_interval m"
    by (rule cookie_step_rotate [of api c m]) simp
  then show ?case using Cons by simp
qed simp

text \<open>A secret made current at time \<open>r\<close> is usable at time \<open>now\<close>.\<close>

definition keeps_secret :: "bytes \<Rightarrow> time \<Rightarrow> time \<Rightarrow> HandshakeCookieManager \<Rightarrow> bool" where
  "keeps_secret s r now m \<longleftrightarrow> rotated_at m \<le> now \<and>
     (current_secret m = Some s \<and> rotated_at m = r \<or>
      previous_secret m = Some s \<and> current_secret m \<noteq> None \<and> r + rotation_interval m \<le> rotated_at m)"

lemma keeps_secret_rotate:
  assumes "keeps_secret s r t m" "t \<le> now" "now < r + 2 * rotation_interval m"
  shows "keeps_secret s r now (snd (rotate_if_needed now fresh m))"
  using assms by (auto simp: keeps_secret_def rotate_if_needed_def split: option.splits)

lemma keeps_secret_run:
  "keeps_secret s r t m \<Longrightarrow> sorted (t # map cookie_time cs) \<Longrightarrow>
    \<forall>c \<in> set cs. cookie_time c < r + 2 * rotation_interval m \<Longrightarrow>
    keeps_secret s r (last (t # map cookie_time cs)) (fold (cookie_step api) cs m)"
proof (induction cs arbitrary: t m)
  case (Cons c cs)
  obtain fresh where f: "cookie_step api c m = snd (rotate_if_needed (cookie_time c) fresh m)"
    by (rule cookie_step_rotate)
  have "keeps_secret s r (cookie_time c) (cookie_step api c m)"
    unfolding f using Cons.prems by (intro keeps_secret_rotate [of s r t]) auto
  then have "keeps_secret s r (last (cookie_time c # map cookie_time cs)) (fold (cookie_step api) cs (cookie_step api c m))"
    using Cons.prems by (intro Cons.IH) (auto simp: f)
  then show ?case by simp
qed simp

lemma rotate_current:
  assumes "rotate_if_needed now fresh m = (True, m')" "0 < rotation_interval m"
  obtains s where "current_secret m' = Some s" "keeps_secret s (rotated_at m') now m'"
    "now < rotated_at m' + rotation_interval m'" "rotation_interval m' = rotation_interval m"
proof -
  have "\<exists>s. current_secret m' = Some s \<and> rotated_at m' \<le> now" "now < rotated_at m' + rotation_interval m'"
    "rotation_interval m' = rotation_interval m"
    using assms by (auto simp: rotate_if_needed_def split: if_splits option.splits)
  then show thesis using that by (auto simp: keeps_secret_def)
qed

lemma issue_SomeD:
  assumes "issue_cookie api t fresh source sid frame m = (Some c, m')" "0 < rotation_interval m"
  obtains s where "derive_cookie api s source sid frame = Some c" "keeps_secret s (rotated_at m') t m'"
    "t < rotated_at m' + rotation_interval m'" "rotation_interval m' = rotation_interval m"
proof -
  obtain ok m1 where m1: "rotate_if_needed t fresh m = (ok, m1)" by fastforce
  then have ok: "ok" "m1 = m'" "Option.bind (current_secret m') (\<lambda>s. derive_cookie api s source sid frame) = Some c"
    using assms(1) by (auto simp: issue_cookie_def split: if_splits)
  obtain s where s: "current_secret m' = Some s" "keeps_secret s (rotated_at m') t m'"
    "t < rotated_at m' + rotation_interval m'" "rotation_interval m' = rotation_interval m"
    using rotate_current [of t fresh m m'] m1 ok assms(2) by auto
  show thesis using that [OF _ s(2-4)] ok(3) s(1) by simp
qed

lemma verify_keeps_secret:
  assumes "keeps_secret s r t m" "t \<le> now" "now < r + 2 * rotation_interval m" "fresh \<noteq> None"
    and "derive_cookie api s source sid frame = Some c"
  shows "fst (verify_cookie api now fresh c source sid frame m)"
proof -
  have "keeps_secret s r now (snd (rotate_if_needed now fresh m))" using assms(1-3) by (rule keeps_secret_rotate)
  moreover have "fst (rotate_if_needed now fresh m)" using assms(4) by (auto simp: rotate_if_needed_def)
  ultimately show ?thesis
    using assms(5) by (auto simp: verify_cookie_def keeps_secret_def split: prod.splits)
qed

text \<open>C20: a retry cookie lives for at least one full rotation interval: presented
  again for the same endpoint, session id and init frame within that time of
  its issue, it is accepted, however many other cookies were issued or verified
  in between and whenever the secret rotated.\<close>

theorem cookie_accepted_for_interval:
  assumes "issue_cookie api t fresh source sid frame
      (fold (cookie_step api) before (new_HandshakeCookieManager interval)) = (Some c, m)"
    and "0 < interval" "sorted (t # map cookie_time between)" "\<forall>x \<in> set between. cookie_time x \<le> now"
    and "t \<le> now" "now \<le> t + interval" "fresh' \<noteq> None"
  shows "fst (verify_cookie api now fresh' c source sid frame (fold (cookie_step api) between m))"
proof -
  have "rotation_interval (fold (cookie_step api) before (new_HandshakeCookieManager interval)) = interval"
    using assms(2) by (simp add: rotation_interval_run new_HandshakeCookieManager_def)
  with assms(1,2) obtain s where s: "derive_cookie api s source sid frame = Some c"
    "keeps_secret s (rotated_at m) t m" "t < rotated_at m + interval" "rotation_interval m = interval"
    by (auto elim: issue_SomeD)
  have "keeps_secret s (rotated_at m) (last (t # map cookie_time between)) (fold (cookie_step api) between m)"
    using s assms(3,4,6) by (intro keeps_secret_run) force+
  moreover have "last (t # map cookie_time between) \<le> now"
    using assms(4,5) by (cases between rule: rev_cases) simp_all
  ultimately show ?thesis
    using s assms(6,7) by (intro verify_keeps_secret) (auto simp: rotation_interval_run)
qed

definition demo_cookie :: cookie_api where
  "demo_cookie = \<lparr>blake2s_hash = (\<lambda>f. if length f = 32 then Some f else None),
     blake2s_hmac = (\<lambda>k m. Some (m @ [hd k]))\<rparr>"

definition demo_source :: "u16 \<Rightarrow> Endpoint" where
  "demo_source port = \<lparr>ep_address = from_ipv4 0x0A000001, ep_port = port\<rparr>"

lemma length_COOKIE_DOMAIN [simp]: "length COOKIE_DOMAIN = 21"
  by (simp add: COOKIE_DOMAIN_def)

definition cookie_context :: "Endpoint \<Rightarrow> u32 \<Rightarrow> bytes \<Rightarrow> bytes" where
  "cookie_context source sid h = COOKIE_DOMAIN @ [addr_family (ep_address source)] @
     addr_bytes (ep_address source) @ be16 (ntohs (ep_port source)) @ be32 sid @ h"

lemma derive_cookie_eq:
  assumes "length (addr_bytes (ep_address source)) = 16"
  shows "derive_cookie api s source sid frame = (case blake2s_hash api frame of None \<Rightarrow> None
    | Some h \<Rightarrow> if length h = 32 then blake2s_hmac api s (cookie_context source sid h) else None)"
  using assms by (auto simp: derive_cookie_def wire_simps cookie_context_def split: option.splits)

lemma demo_issue:
  "issue_cookie demo_cookie 1000 (Some [1]) (demo_source 9) 7 (replicate 32 0) (new_HandshakeCookieManager 120000) =
    (Some (cookie_context (demo_source 9) 7 (replicate 32 0) @ [1]),
     \<lparr>rotation_interval = 120000, current_secret = Some [1], previous_secret = None, rotated_at = 1000\<rparr>)"
proof -
  have "length (addr_bytes (ep_address (demo_source 9))) = 16" by (simp add: demo_source_def from_ipv4_def)
  then show ?thesis
    by (simp add: issue_cookie_def rotate_if_needed_def new_HandshakeCookieManager_def derive_cookie_eq demo_cookie_def)
qed

theorem cookie_accepted_for_interval_witness:
  "fst (verify_cookie demo_cookie 121000 (Some [3])
     (cookie_context (demo_source 9) 7 (replicate 32 0) @ [1])
     (demo_source 9) 7 (replicate 32 0)
     (fold (cookie_step demo_cookie) [Issue 120999 (Some [2]) (demo_source 8) 1 []]
       \<lparr>rotation_interval = 120000, current_secret = Some [1], previous_secret = None, rotated_at = 1000\<rparr>))"
  by (rule cookie_accepted_for_interval [where before = "[]" and interval = 120000 and t = 1000 and fresh = "Some [1]"]) (simp_all add: demo_issue)

subsection \<open>Binding\<close>

definition collision_free :: "cookie_api \<Rightarrow> bool" where
  "collision_free api \<longleftrightarrow>
     (\<forall>a b h. blake2s_hash api a = Some h \<and> blake2s_hash api b = Some h \<longrightarrow> a = b) \<and>
     (\<forall>k k' a b h. blake2s_hmac api k a = Some h \<and> blake2s_hmac api k' b = Some h \<longrightarrow> a = b)"



end
