(* ===== verification/Relay_Limiter.thy ===== *)
theory Relay_Limiter
  imports Std_Map Complex_Main
begin

text \<open>
  \<open>src/packet/relay_limiter.cpp\<close>: the token buckets that bound what a relay
  forwards for one sender and in total.  Tokens are rationals, so that the
  arithmetic is exact where the code rounds to \<open>double\<close>; rates are finite by
  construction, which leaves the positivity tests of \<open>valid_config\<close>.
\<close>

section \<open>Definitions\<close>

record RelayQuotaConfig =
  per_peer_packets_per_second :: rat
  per_peer_packet_burst :: nat
  per_peer_bytes_per_second :: rat
  per_peer_byte_burst :: nat
  global_packets_per_second :: rat
  global_packet_burst :: nat
  global_bytes_per_second :: rat
  global_byte_burst :: nat
  rq_max_peers :: nat
  idle_ttl :: time

definition default_quota :: RelayQuotaConfig where
  "default_quota =
    \<lparr>per_peer_packets_per_second = 200, per_peer_packet_burst = 400,
     per_peer_bytes_per_second = 512 * 1024, per_peer_byte_burst = 1024 * 1024,
     global_packets_per_second = 1000, global_packet_burst = 2000,
     global_bytes_per_second = 4 * 1024 * 1024, global_byte_burst = 8 * 1024 * 1024,
     rq_max_peers = 256, idle_ttl = 300000\<rparr>"

datatype RelayQuotaResult = Allowed | InvalidRequest | PeerLimited | GlobalLimited | CapacityLimited

record RelayQuotaStats =
  admitted_packets :: u64
  admitted_bytes :: u64
  peer_drops :: u64
  global_drops :: u64
  capacity_drops :: u64

definition no_stats :: RelayQuotaStats where
  "no_stats = \<lparr>admitted_packets = 0, admitted_bytes = 0, peer_drops = 0, global_drops = 0, capacity_drops = 0\<rparr>"

definition total_drops :: "RelayQuotaStats \<Rightarrow> u64" where
  "total_drops s = peer_drops s + global_drops s + capacity_drops s"

record TokenBucket =
  packet_tokens :: rat
  byte_tokens :: rat
  updated_at :: time

record PeerBucket =
  pb_bucket :: TokenBucket
  pb_last_seen :: time

record RelayForwardLimiter =
  rf_config :: RelayQuotaConfig
  rf_global :: TokenBucket
  rf_peers :: "(node_id, PeerBucket) std_map"
  rf_stats :: RelayQuotaStats

definition valid_config :: "RelayQuotaConfig \<Rightarrow> bool" where
  "valid_config c \<longleftrightarrow>
     per_peer_packets_per_second c > 0 \<and> per_peer_packet_burst c > 0 \<and>
     per_peer_bytes_per_second c > 0 \<and> per_peer_byte_burst c > 0 \<and>
     global_packets_per_second c > 0 \<and> global_packet_burst c > 0 \<and>
     global_bytes_per_second c > 0 \<and> global_byte_burst c > 0 \<and>
     rq_max_peers c > 0 \<and> idle_ttl c > 0"

definition make_bucket :: "rat \<Rightarrow> rat \<Rightarrow> time \<Rightarrow> TokenBucket" where
  "make_bucket packet_burst byte_burst now =
    \<lparr>packet_tokens = packet_burst, byte_tokens = byte_burst, updated_at = now\<rparr>"

definition refill :: "time \<Rightarrow> rat \<Rightarrow> rat \<Rightarrow> rat \<Rightarrow> rat \<Rightarrow> TokenBucket \<Rightarrow> TokenBucket" where
  "refill now packets_per_second packet_burst bytes_per_second byte_burst b =
    (if now \<le> updated_at b then b
     else let elapsed = of_int (now - updated_at b) / 1000 in
       \<lparr>packet_tokens = min packet_burst (packet_tokens b + elapsed * packets_per_second),
        byte_tokens = min byte_burst (byte_tokens b + elapsed * bytes_per_second),
        updated_at = now\<rparr>)"

definition purge_idle :: "time \<Rightarrow> RelayForwardLimiter \<Rightarrow> RelayForwardLimiter" where
  "purge_idle now l = l\<lparr>rf_peers := map_erase_if (\<lambda>e. now \<ge> pb_last_seen (snd e) \<and>
     now - pb_last_seen (snd e) \<ge> idle_ttl (rf_config l)) (rf_peers l)\<rparr>"

definition drop_global :: "RelayForwardLimiter \<Rightarrow> RelayQuotaResult \<times> RelayForwardLimiter" where
  "drop_global l = (GlobalLimited, l\<lparr>rf_stats := (rf_stats l)\<lparr>global_drops := global_drops (rf_stats l) + 1\<rparr>\<rparr>)"

definition drop_peer :: "RelayForwardLimiter \<Rightarrow> RelayQuotaResult \<times> RelayForwardLimiter" where
  "drop_peer l = (PeerLimited, l\<lparr>rf_stats := (rf_stats l)\<lparr>peer_drops := peer_drops (rf_stats l) + 1\<rparr>\<rparr>)"

definition drop_capacity :: "RelayForwardLimiter \<Rightarrow> RelayQuotaResult \<times> RelayForwardLimiter" where
  "drop_capacity l = (CapacityLimited, l\<lparr>rf_stats := (rf_stats l)\<lparr>capacity_drops := capacity_drops (rf_stats l) + 1\<rparr>\<rparr>)"

text \<open>\<open>bucket.packet_tokens -= 1; bucket.byte_tokens -= byte_cost\<close>.\<close>

definition take_tokens :: "rat \<Rightarrow> TokenBucket \<Rightarrow> TokenBucket" where
  "take_tokens cost b = b\<lparr>packet_tokens := packet_tokens b - 1, byte_tokens := byte_tokens b - cost\<rparr>"

definition refill_global :: "time \<Rightarrow> RelayForwardLimiter \<Rightarrow> RelayForwardLimiter" where
  "refill_global now l = (let c = rf_config l in
     l\<lparr>rf_global := refill now (global_packets_per_second c) (of_nat (global_packet_burst c))
         (global_bytes_per_second c) (of_nat (global_byte_burst c)) (rf_global l)\<rparr>)"

text \<open>Lines 93 to 114: the bucket of the sender, created when there is room.\<close>

definition sender_bucket :: "time \<Rightarrow> node_id \<Rightarrow> RelayForwardLimiter \<Rightarrow> TokenBucket option \<times> RelayForwardLimiter" where
  "sender_bucket now sender l = (let c = rf_config l in
     case map_of (rf_peers l) sender of
       None \<Rightarrow>
         (let l = (if length (rf_peers l) \<ge> rq_max_peers c then purge_idle now l else l) in
          if length (rf_peers l) \<ge> rq_max_peers c then (None, l)
          else let b = make_bucket (of_nat (per_peer_packet_burst c)) (of_nat (per_peer_byte_burst c)) now in
            (Some b, l\<lparr>rf_peers := map_put sender \<lparr>pb_bucket = b, pb_last_seen = now\<rparr> (rf_peers l)\<rparr>))
     | Some p \<Rightarrow>
         let b = refill now (per_peer_packets_per_second c) (of_nat (per_peer_packet_burst c))
               (per_peer_bytes_per_second c) (of_nat (per_peer_byte_burst c)) (pb_bucket p) in
         (Some b, l\<lparr>rf_peers := map_put sender \<lparr>pb_bucket = b, pb_last_seen = now\<rparr> (rf_peers l)\<rparr>))"

definition allow_forward ::
    "time \<Rightarrow> node_id \<Rightarrow> nat \<Rightarrow> RelayForwardLimiter \<Rightarrow> RelayQuotaResult \<times> RelayForwardLimiter" where
  "allow_forward now sender forwarded_bytes l =
    (let c = rf_config l; cost = of_nat forwarded_bytes in
     if \<not> valid_config c \<or> forwarded_bytes = 0 then (InvalidRequest, l)
     else if cost > (of_nat (global_byte_burst c) :: rat) then drop_global l
     else if cost > (of_nat (per_peer_byte_burst c) :: rat) then drop_peer l
     else
       let l = refill_global now l in
       if packet_tokens (rf_global l) < 1 \<or> byte_tokens (rf_global l) < cost then drop_global l
       else case sender_bucket now sender l of
         (None, l) \<Rightarrow> drop_capacity l
       | (Some b, l) \<Rightarrow>
           if packet_tokens b < 1 \<or> byte_tokens b < cost then drop_peer l
           else (Allowed, l\<lparr>rf_global := take_tokens cost (rf_global l),
              rf_peers := map_put sender \<lparr>pb_bucket = take_tokens cost b, pb_last_seen = now\<rparr> (rf_peers l),
              rf_stats := (rf_stats l)\<lparr>admitted_packets := admitted_packets (rf_stats l) + 1,
                admitted_bytes := admitted_bytes (rf_stats l) + of_nat forwarded_bytes\<rparr>\<rparr>))"

definition reset_limiter :: "time \<Rightarrow> RelayForwardLimiter \<Rightarrow> RelayForwardLimiter" where
  "reset_limiter now l = l\<lparr>
     rf_global := make_bucket (of_nat (global_packet_burst (rf_config l))) (of_nat (global_byte_burst (rf_config l))) now,
     rf_peers := [], rf_stats := no_stats\<rparr>"

definition new_RelayForwardLimiter :: "time \<Rightarrow> RelayQuotaConfig \<Rightarrow> RelayForwardLimiter" where
  "new_RelayForwardLimiter now cfg = reset_limiter now
     \<lparr>rf_config = cfg, rf_global = \<lparr>packet_tokens = 0, byte_tokens = 0, updated_at = 0\<rparr>, rf_peers = [], rf_stats = no_stats\<rparr>"

definition tracked_peers :: "RelayForwardLimiter \<Rightarrow> nat" where
  "tracked_peers l = length (rf_peers l)"

section \<open>Token budgets\<close>

text \<open>
  \<open>token_budget\<close> is what a bucket promises: its level at a time stays within
  the burst, grows no faster than the rate, and every admitted call is paid from
  it.  Whatever is paid over a run is then bounded by the burst plus what the
  rate earns in that time.
\<close>

fun spent_run :: "('c \<Rightarrow> 's \<Rightarrow> bool \<times> 's) \<Rightarrow> ('c \<Rightarrow> rat) \<Rightarrow> 'c list \<Rightarrow> 's \<Rightarrow> rat" where
  "spent_run call cost [] s = 0"
| "spent_run call cost (c # cs) s =
    (let (ok, s') = call c s in (if ok then cost c else 0) + spent_run call cost cs s')"

locale token_budget =
  fixes call :: "'c \<Rightarrow> 's \<Rightarrow> bool \<times> 's"
    and tm :: "'c \<Rightarrow> time"
    and cost :: "'c \<Rightarrow> rat"
    and level :: "time \<Rightarrow> 's \<Rightarrow> rat"
    and invar :: "time \<Rightarrow> 's \<Rightarrow> bool"
    and rate :: rat
    and burst :: rat
  assumes call_invar: "invar now s \<Longrightarrow> now \<le> tm c \<Longrightarrow> invar (tm c) (snd (call c s))"
    and level_nonneg: "invar now s \<Longrightarrow> 0 \<le> level now s"
    and level_burst: "invar now s \<Longrightarrow> level now s \<le> burst"
    and advance: "invar now s \<Longrightarrow> now \<le> t \<Longrightarrow> level t s \<le> level now s + of_int (t - now) / 1000 * rate"
    and charge: "invar now s \<Longrightarrow> now \<le> tm c \<Longrightarrow> call c s = (ok, s') \<Longrightarrow>
      (if ok then cost c else 0) + level (tm c) s' \<le> level (tm c) s"
    and rate_nonneg: "invar now s \<Longrightarrow> 0 \<le> rate"
begin

lemma spent_level:
  "invar now s \<Longrightarrow> sorted (now # map tm cs) \<Longrightarrow> \<forall>c \<in> set cs. tm c \<le> t \<Longrightarrow> now \<le> t \<Longrightarrow>
    spent_run call cost cs s \<le> level now s + of_int (t - now) / 1000 * rate"
proof (induction cs arbitrary: now s)
  case Nil
  then show ?case using level_nonneg [OF Nil(1)] rate_nonneg [OF Nil(1)] by simp
next
  case (Cons c cs)
  obtain ok s' where s': "call c s = (ok, s')" by fastforce
  have now: "now \<le> tm c" "tm c \<le> t" using Cons.prems by simp_all
  have i: "invar (tm c) s'" using call_invar [OF Cons.prems(1) now(1)] s' by simp
  have "spent_run call cost cs s' \<le> level (tm c) s' + of_int (t - tm c) / 1000 * rate"
    using Cons.prems by (intro Cons.IH [OF i]) auto
  moreover have "(if ok then cost c else 0) + level (tm c) s' \<le> level now s + of_int (tm c - now) / 1000 * rate"
    using charge [OF Cons.prems(1) now(1) s'] advance [OF Cons.prems(1) now(1)] by linarith
  moreover have "of_int (tm c - now) / 1000 * rate + of_int (t - tm c) / 1000 * rate = of_int (t - now) / 1000 * rate"
    by (simp add: field_simps)
  ultimately show ?case using s' by simp
qed

lemma spent_bounded:
  assumes "invar now s" "sorted (now # map tm cs)" "\<forall>c \<in> set cs. tm c \<le> t" "now \<le> t"
  shows "spent_run call cost cs s \<le> burst + of_int (t - now) / 1000 * rate"
  using spent_level [OF assms] level_burst [OF assms(1)] by linarith

end

section \<open>The limiter's buckets\<close>

definition forward_call :: "time \<times> node_id \<times> nat \<Rightarrow> RelayForwardLimiter \<Rightarrow> bool \<times> RelayForwardLimiter" where
  "forward_call = (\<lambda>(now, sender, n) l. let (r, l) = allow_forward now sender n l in (r = Allowed, l))"

text \<open>The level a bucket will be refilled to when it is next used.\<close>

definition level :: "rat \<Rightarrow> rat \<Rightarrow> time \<Rightarrow> rat \<Rightarrow> time \<Rightarrow> rat" where
  "level burst rate now tokens updated = min burst (tokens + of_int (now - updated) / 1000 * rate)"

text \<open>The two resources a bucket holds, so that both are treated at once.\<close>

datatype resource = Packets | Bytes

fun tokens :: "resource \<Rightarrow> TokenBucket \<Rightarrow> rat" where
  "tokens Packets b = packet_tokens b"
| "tokens Bytes b = byte_tokens b"

fun sender_burst :: "resource \<Rightarrow> RelayQuotaConfig \<Rightarrow> rat" where
  "sender_burst Packets c = of_nat (per_peer_packet_burst c)"
| "sender_burst Bytes c = of_nat (per_peer_byte_burst c)"

fun sender_rate :: "resource \<Rightarrow> RelayQuotaConfig \<Rightarrow> rat" where
  "sender_rate Packets c = per_peer_packets_per_second c"
| "sender_rate Bytes c = per_peer_bytes_per_second c"

fun global_burst :: "resource \<Rightarrow> RelayQuotaConfig \<Rightarrow> rat" where
  "global_burst Packets c = of_nat (global_packet_burst c)"
| "global_burst Bytes c = of_nat (global_byte_burst c)"

fun global_rate :: "resource \<Rightarrow> RelayQuotaConfig \<Rightarrow> rat" where
  "global_rate Packets c = global_packets_per_second c"
| "global_rate Bytes c = global_bytes_per_second c"

fun cost :: "resource \<Rightarrow> nat \<Rightarrow> rat" where
  "cost Packets n = 1"
| "cost Bytes n = of_nat n"

definition bucket_ok :: "(resource \<Rightarrow> rat) \<Rightarrow> time \<Rightarrow> TokenBucket \<Rightarrow> bool" where
  "bucket_ok burst now b \<longleftrightarrow> updated_at b \<le> now \<and> (\<forall>r. 0 \<le> tokens r b \<and> tokens r b \<le> burst r)"

lemma refill_level:
  assumes "bucket_ok burst t b" "t \<le> now"
  shows "tokens r (refill now (rate Packets) (burst Packets) (rate Bytes) (burst Bytes) b) =
      level (burst r) (rate r) now (tokens r b) (updated_at b)"
    "updated_at (refill now (rate Packets) (burst Packets) (rate Bytes) (burst Bytes) b) = now"
proof -
  have "packet_tokens b \<le> burst Packets" "byte_tokens b \<le> burst Bytes" "updated_at b \<le> t"
    using assms(1) by (auto simp: bucket_ok_def dest: spec [of _ Packets] spec [of _ Bytes])
  then show "tokens r (refill now (rate Packets) (burst Packets) (rate Bytes) (burst Bytes) b) =
      level (burst r) (rate r) now (tokens r b) (updated_at b)"
    "updated_at (refill now (rate Packets) (burst Packets) (rate Bytes) (burst Bytes) b) = now"
    using assms(2) by (cases r; cases "now = updated_at b"; simp add: refill_def level_def Let_def)+
qed

lemma level_bounds:
  "0 \<le> n \<Longrightarrow> n \<le> burst \<Longrightarrow> 0 \<le> rate \<Longrightarrow> updated \<le> now \<Longrightarrow>
    0 \<le> level burst rate now n updated \<and> level burst rate now n updated \<le> burst"
  by (auto simp: level_def)

lemma level_advance:
  assumes "0 \<le> rate" "now \<le> t"
  shows "level burst rate t n updated \<le> level burst rate now n updated + of_int (t - now) / 1000 * rate"
proof -
  have "of_int (t - updated) / 1000 * rate = of_int (now - updated) / 1000 * rate + of_int (t - now) / (1000::rat) * rate"
    by (simp add: field_simps)
  moreover have "0 \<le> of_int (t - now) / (1000::rat) * rate" using assms by simp
  moreover have "min burst (x + y) \<le> min burst x + y" if "0 \<le> y" for x y :: rat using that by auto
  ultimately show ?thesis unfolding level_def by (metis add.assoc)
qed

lemma level_now [simp]: "level burst rate now n now = min burst n"
  by (simp add: level_def)

lemma idle_full:
  assumes "0 \<le> n" "burst \<le> of_int ttl / 1000 * rate" "ttl \<le> now - updated" "0 \<le> rate"
  shows "level burst rate now n updated = burst"
proof -
  have "(of_int ttl :: rat) \<le> of_int (now - updated)" using assms(3) by (simp only: of_int_le_iff)
  then have "of_int ttl / 1000 * rate \<le> of_int (now - updated) / 1000 * rate"
    using assms(4) by (intro mult_right_mono divide_right_mono) simp_all
  then show ?thesis using assms(1,2) by (simp add: level_def)
qed

subsection \<open>Invariant\<close>

definition peer_ok :: "RelayQuotaConfig \<Rightarrow> time \<Rightarrow> PeerBucket \<Rightarrow> bool" where
  "peer_ok cfg now p \<longleftrightarrow> pb_last_seen p = updated_at (pb_bucket p) \<and>
     bucket_ok (\<lambda>r. sender_burst r cfg) now (pb_bucket p)"

definition quota_ok :: "RelayQuotaConfig \<Rightarrow> time \<Rightarrow> RelayForwardLimiter \<Rightarrow> bool" where
  "quota_ok cfg now l \<longleftrightarrow> rf_config l = cfg \<and> valid_config cfg \<and> map_ok (rf_peers l) \<and>
     length (rf_peers l) \<le> rq_max_peers cfg \<and> bucket_ok (\<lambda>r. global_burst r cfg) now (rf_global l) \<and>
     (\<forall>k p. map_of (rf_peers l) k = Some p \<longrightarrow> peer_ok cfg now p)"

definition global_level :: "resource \<Rightarrow> RelayQuotaConfig \<Rightarrow> time \<Rightarrow> RelayForwardLimiter \<Rightarrow> rat" where
  "global_level r cfg now l =
     level (global_burst r cfg) (global_rate r cfg) now (tokens r (rf_global l)) (updated_at (rf_global l))"

definition sender_level :: "resource \<Rightarrow> RelayQuotaConfig \<Rightarrow> node_id \<Rightarrow> time \<Rightarrow> RelayForwardLimiter \<Rightarrow> rat" where
  "sender_level r cfg k now l =
    (case map_of (rf_peers l) k of None \<Rightarrow> sender_burst r cfg
     | Some p \<Rightarrow> level (sender_burst r cfg) (sender_rate r cfg) now (tokens r (pb_bucket p)) (updated_at (pb_bucket p)))"

text \<open>An idle sender's bucket is full again before it is forgotten.\<close>

definition idle_refills :: "RelayQuotaConfig \<Rightarrow> bool" where
  "idle_refills cfg \<longleftrightarrow> (\<forall>r. sender_burst r cfg \<le> of_int (idle_ttl cfg) / 1000 * sender_rate r cfg)"

lemma rates_positive:
  assumes "valid_config cfg"
  shows "0 < sender_rate r cfg" "0 < global_rate r cfg" "0 < sender_burst r cfg" "0 < global_burst r cfg"
  using assms by (cases r; simp add: valid_config_def)+

lemma quota_ok_mono: "quota_ok cfg t l \<Longrightarrow> t \<le> now \<Longrightarrow> quota_ok cfg now l"
  by (fastforce simp: quota_ok_def peer_ok_def bucket_ok_def)

lemma quota_ok_peer: "quota_ok cfg now l \<Longrightarrow> map_of (rf_peers l) k = Some p \<Longrightarrow> peer_ok cfg now p"
  by (simp add: quota_ok_def)

lemma purge_idle_ok: "quota_ok cfg now l \<Longrightarrow> quota_ok cfg now (purge_idle now l)"
  by (auto simp: quota_ok_def purge_idle_def dest: map_of_erase_if_SomeD intro: le_trans [OF length_erase_if_le])

lemma purge_idle_level:
  assumes "quota_ok cfg now l" "idle_refills cfg"
  shows "sender_level r cfg k now (purge_idle now l) = sender_level r cfg k now l"
proof (cases "map_of (rf_peers l) k")
  case (Some p)
  have "map_of (rf_peers (purge_idle now l)) k =
      (if now \<ge> pb_last_seen p \<and> now - pb_last_seen p \<ge> idle_ttl cfg then None else Some p)"
    using assms(1) Some by (simp add: purge_idle_def quota_ok_def map_of_erase_if)
  moreover have "level (sender_burst r cfg) (sender_rate r cfg) now (tokens r (pb_bucket p)) (updated_at (pb_bucket p)) =
      sender_burst r cfg" if "now - pb_last_seen p \<ge> idle_ttl cfg"
    using that assms quota_ok_peer [OF assms(1) Some] rates_positive(1) [of cfg r]
    by (intro idle_full [where ttl = "idle_ttl cfg"])
      (auto simp: peer_ok_def bucket_ok_def idle_refills_def quota_ok_def)
  ultimately show ?thesis using Some by (simp add: sender_level_def)
next
  case None
  then have "map_of (rf_peers (purge_idle now l)) k = None"
    using assms(1) by (simp add: purge_idle_def quota_ok_def map_of_erase_if)
  then show ?thesis using None by (simp add: sender_level_def)
qed

lemma put_peer_ok:
  assumes "quota_ok cfg now l" "peer_ok cfg now p"
    and "map_of (rf_peers l) k \<noteq> None \<or> length (rf_peers l) < rq_max_peers cfg"
  shows "quota_ok cfg now (l\<lparr>rf_peers := map_put k p (rf_peers l)\<rparr>)"
  using assms by (auto simp: quota_ok_def length_put map_contains_iff)

lemma refill_ok:
  assumes "bucket_ok burst now b" "\<And>r. 0 \<le> rate r"
  shows "bucket_ok burst now (refill now (rate Packets) (burst Packets) (rate Bytes) (burst Bytes) b)"
  using assms level_bounds unfolding bucket_ok_def [of burst now "refill _ _ _ _ _ _"]
    refill_level [OF assms(1) order_refl]
  by (auto simp: bucket_ok_def)

text \<open>Finding or creating the sender's bucket changes no level.\<close>

lemma rf_global_purge [simp]: "rf_global (purge_idle now l) = rf_global l"
  by (simp add: purge_idle_def)

definition same_levels :: "RelayQuotaConfig \<Rightarrow> time \<Rightarrow> RelayForwardLimiter \<Rightarrow> RelayForwardLimiter \<Rightarrow> bool" where
  "same_levels cfg now l l' \<longleftrightarrow> quota_ok cfg now l' \<and> rf_global l' = rf_global l \<and>
     (idle_refills cfg \<longrightarrow> (\<forall>x k. sender_level x cfg k now l' = sender_level x cfg k now l))"

lemma sender_bucket_new:
  assumes "quota_ok cfg now l" "sender_bucket now k l = (r, l')" "map_of (rf_peers l) k = None"
  shows "same_levels cfg now l l' \<and>
    (\<forall>b. r = Some b \<longrightarrow> map_of (rf_peers l') k = Some \<lparr>pb_bucket = b, pb_last_seen = now\<rparr> \<and> updated_at b = now)"
proof -
  define l1 where "l1 = (if length (rf_peers l) \<ge> rq_max_peers cfg then purge_idle now l else l)"
  have c: "rf_config l = cfg" "valid_config cfg" using assms(1) by (simp_all add: quota_ok_def)
  have l1: "quota_ok cfg now l1" "rf_global l1 = rf_global l"
    "idle_refills cfg \<Longrightarrow> sender_level x cfg k' now l1 = sender_level x cfg k' now l" for x k'
    using assms(1) purge_idle_ok purge_idle_level by (auto simp: l1_def)
  have n: "map_of (rf_peers l1) k = None"
    using assms(3,1) by (simp add: l1_def purge_idle_def quota_ok_def map_of_erase_if)
  let ?b = "make_bucket (of_nat (per_peer_packet_burst cfg)) (of_nat (per_peer_byte_burst cfg)) now"
  have t: "tokens x ?b = sender_burst x cfg" for x by (cases x) (simp_all add: make_bucket_def)
  have u: "updated_at ?b = now" by (simp add: make_bucket_def)
  have b: "peer_ok cfg now \<lparr>pb_bucket = ?b, pb_last_seen = now\<rparr>"
    using rates_positive(3) [OF c(2)] by (simp add: peer_ok_def bucket_ok_def t u less_imp_le)
  show ?thesis
  proof (cases "length (rf_peers l1) \<ge> rq_max_peers cfg")
    case True
    then have "r = None" "l' = l1" using assms(2) assms(3) c by (auto simp: sender_bucket_def Let_def simp flip: l1_def)
    then show ?thesis unfolding same_levels_def using l1 by simp
  next
    case False
    then have e: "r = Some ?b" "l' = l1\<lparr>rf_peers := map_put k \<lparr>pb_bucket = ?b, pb_last_seen = now\<rparr> (rf_peers l1)\<rparr>"
      using assms(2) assms(3) c by (auto simp: sender_bucket_def Let_def simp flip: l1_def)
    have "sender_level x cfg k' now l' = sender_level x cfg k' now l1" for x k'
      using n by (simp add: e(2) sender_level_def t u)
    then show ?thesis unfolding same_levels_def using put_peer_ok [OF l1(1) b, of k] False l1(2,3) u by (simp add: e)
  qed
qed

lemma sender_bucket_known:
  assumes "quota_ok cfg now l" "sender_bucket now k l = (r, l')" "map_of (rf_peers l) k = Some p"
  shows "same_levels cfg now l l' \<and>
    (\<forall>b. r = Some b \<longrightarrow> map_of (rf_peers l') k = Some \<lparr>pb_bucket = b, pb_last_seen = now\<rparr> \<and> updated_at b = now)"
proof -
  let ?b = "refill now (per_peer_packets_per_second cfg) (of_nat (per_peer_packet_burst cfg))
     (per_peer_bytes_per_second cfg) (of_nat (per_peer_byte_burst cfg)) (pb_bucket p)"
  have c: "rf_config l = cfg" "valid_config cfg" using assms(1) by (simp_all add: quota_ok_def)
  have p: "bucket_ok (\<lambda>x. sender_burst x cfg) now (pb_bucket p)"
    using quota_ok_peer [OF assms(1,3)] by (simp add: peer_ok_def)
  have e: "r = Some ?b" "l' = l\<lparr>rf_peers := map_put k \<lparr>pb_bucket = ?b, pb_last_seen = now\<rparr> (rf_peers l)\<rparr>"
    using assms(2,3) c(1) by (simp_all add: sender_bucket_def Let_def)
  have b: "tokens x ?b = level (sender_burst x cfg) (sender_rate x cfg) now (tokens x (pb_bucket p)) (updated_at (pb_bucket p))"
    "updated_at ?b = now" for x
    using refill_level(1) [OF p order_refl, of x "\<lambda>x. sender_rate x cfg"]
      refill_level(2) [OF p order_refl, of "\<lambda>x. sender_rate x cfg"] by simp_all
  have ok: "bucket_ok (\<lambda>x. sender_burst x cfg) now ?b"
    using refill_ok [OF p, of "\<lambda>x. sender_rate x cfg"] rates_positive(1) [OF c(2)] by (simp add: less_imp_le)
  have "sender_level x cfg k' now l' = sender_level x cfg k' now l" for x k'
  proof (cases "k' = k")
    case True
    have "tokens x ?b \<le> sender_burst x cfg" using ok by (simp add: bucket_ok_def)
    then show ?thesis using assms(3) True by (simp add: e(2) sender_level_def b)
  qed (simp add: e(2) sender_level_def)
  then show ?thesis unfolding same_levels_def using put_peer_ok [OF assms(1), of _ k] assms(3) ok b(2) by (simp add: e peer_ok_def)
qed

lemma sender_bucket_law:
  assumes "quota_ok cfg now l" "sender_bucket now k l = (r, l')"
  shows "same_levels cfg now l l'"
    "r = Some b \<Longrightarrow> map_of (rf_peers l') k = Some \<lparr>pb_bucket = b, pb_last_seen = now\<rparr> \<and> updated_at b = now"
  using sender_bucket_new [OF assms] sender_bucket_known [OF assms] by (cases "map_of (rf_peers l) k"; blast)+

lemma refill_global_law:
  assumes "quota_ok cfg t l" "t \<le> now"
  shows "quota_ok cfg now (refill_global now l)" "global_level x cfg now (refill_global now l) = global_level x cfg now l"
    "rf_peers (refill_global now l) = rf_peers l" "updated_at (rf_global (refill_global now l)) = now"
    "sender_level x cfg k now (refill_global now l) = sender_level x cfg k now l"
proof -
  have q: "quota_ok cfg now l" using assms by (rule quota_ok_mono)
  then have c: "rf_config l = cfg" "valid_config cfg" "bucket_ok (\<lambda>x. global_burst x cfg) now (rf_global l)"
    by (simp_all add: quota_ok_def)
  let ?g = "refill now (global_packets_per_second cfg) (of_nat (global_packet_burst cfg))
     (global_bytes_per_second cfg) (of_nat (global_byte_burst cfg)) (rf_global l)"
  have e: "refill_global now l = l\<lparr>rf_global := ?g\<rparr>" using c(1) by (simp add: refill_global_def Let_def)
  have g: "tokens x ?g = level (global_burst x cfg) (global_rate x cfg) now (tokens x (rf_global l)) (updated_at (rf_global l))"
    "updated_at ?g = now" for x
    using refill_level(1) [OF c(3) order_refl, of x "\<lambda>x. global_rate x cfg"]
      refill_level(2) [OF c(3) order_refl, of "\<lambda>x. global_rate x cfg"] by simp_all
  have ok: "bucket_ok (\<lambda>x. global_burst x cfg) now ?g"
    using refill_ok [OF c(3), of "\<lambda>x. global_rate x cfg"] rates_positive(2) [OF c(2)] by (simp add: less_imp_le)
  then show "quota_ok cfg now (refill_global now l)" using q by (simp add: e quota_ok_def)
  have "tokens x ?g \<le> global_burst x cfg" using ok by (simp add: bucket_ok_def)
  then show "global_level x cfg now (refill_global now l) = global_level x cfg now l" by (simp add: e global_level_def g)
  show "rf_peers (refill_global now l) = rf_peers l" "updated_at (rf_global (refill_global now l)) = now"
    "sender_level x cfg k now (refill_global now l) = sender_level x cfg k now l"
    using g(2) by (simp_all add: e sender_level_def)
qed

lemma take_tokens_fields [simp]:
  "tokens x (take_tokens (of_nat n) b) = tokens x b - cost x n"
  "updated_at (take_tokens c b) = updated_at b"
  by (cases x; simp add: take_tokens_def)+

text \<open>One call: whatever it answers, the invariant stays, and an admitted packet is
  paid for in the sender's bucket and in the global one.\<close>

definition charged :: "RelayQuotaConfig \<Rightarrow> bool \<Rightarrow> time \<times> node_id \<times> nat \<Rightarrow> RelayForwardLimiter \<Rightarrow> RelayForwardLimiter \<Rightarrow> bool" where
  "charged cfg ok c l l' \<longleftrightarrow> quota_ok cfg (fst c) l' \<and>
     (\<forall>x. global_level x cfg (fst c) l' = global_level x cfg (fst c) l - (if ok then cost x (snd (snd c)) else 0)) \<and>
     (idle_refills cfg \<longrightarrow> (\<forall>x k. sender_level x cfg k (fst c) l' =
        sender_level x cfg k (fst c) l - (if ok \<and> k = fst (snd c) then cost x (snd (snd c)) else 0)))"

lemma charged_stats: "charged cfg ok c l l' \<Longrightarrow> charged cfg ok c l (l'\<lparr>rf_stats := s\<rparr>)"
  by (simp add: charged_def quota_ok_def global_level_def sender_level_def)

lemma charged_drop:
  assumes "charged cfg False c l l'"
  shows "charged cfg False c l (snd (drop_global l'))" "charged cfg False c l (snd (drop_peer l'))"
    "charged cfg False c l (snd (drop_capacity l'))"
  using charged_stats [OF assms] by (simp_all add: drop_global_def drop_peer_def drop_capacity_def)

lemma charged_admit:
  assumes q: "quota_ok cfg now l" and m: "map_of (rf_peers l) k = Some \<lparr>pb_bucket = b, pb_last_seen = now\<rparr>"
    and u: "updated_at b = now" "updated_at (rf_global l) = now"
    and t: "\<And>x. cost x n \<le> tokens x b" "\<And>x. cost x n \<le> tokens x (rf_global l)"
  shows "charged cfg True (now, k, n) l (l\<lparr>rf_global := take_tokens (of_nat n) (rf_global l),
    rf_peers := map_put k \<lparr>pb_bucket = take_tokens (of_nat n) b, pb_last_seen = now\<rparr> (rf_peers l)\<rparr>)"
proof -
  have c: "0 \<le> cost x n" for x by (cases x) simp_all
  have b: "tokens x b \<le> sender_burst x cfg" for x
    using quota_ok_peer [OF q m] by (simp add: peer_ok_def bucket_ok_def)
  have g: "tokens x (rf_global l) \<le> global_burst x cfg" for x using q by (simp add: quota_ok_def bucket_ok_def)
  have sb: "tokens x b - cost x n \<le> sender_burst x cfg" for x using b [of x] c [of x] by linarith
  have gb: "tokens x (rf_global l) - cost x n \<le> global_burst x cfg" for x
    using g [of x] c [of x] by linarith
  have "peer_ok cfg now \<lparr>pb_bucket = take_tokens (of_nat n) b, pb_last_seen = now\<rparr>"
    using t(1) sb u(1) by (simp add: peer_ok_def bucket_ok_def)
  with q m gb t(2) u(2) have "quota_ok cfg now (l\<lparr>rf_global := take_tokens (of_nat n) (rf_global l),
      rf_peers := map_put k \<lparr>pb_bucket = take_tokens (of_nat n) b, pb_last_seen = now\<rparr> (rf_peers l)\<rparr>)"
    by (auto simp: quota_ok_def bucket_ok_def length_put map_contains_iff)
  then show ?thesis
    using m u b g sb gb
    by (simp add: charged_def global_level_def sender_level_def)
qed

lemma charged_trans:
  "charged cfg False c l l1 \<Longrightarrow> charged cfg ok c l1 l2 \<Longrightarrow> charged cfg ok c l l2"
  by (simp add: charged_def)

lemma allow_forward_cases:
  assumes "allow_forward now k n l = (r, l')" "sender_bucket now k (refill_global now l) = (bo, l2)"
  obtains "r \<noteq> Allowed" "l' \<in> {l, snd (drop_global l), snd (drop_peer l), snd (drop_global (refill_global now l)),
      snd (drop_capacity l2), snd (drop_peer l2)}"
    | b where "r = Allowed" "bo = Some b" "\<And>x. cost x n \<le> tokens x b"
      "\<And>x. cost x n \<le> tokens x (rf_global (refill_global now l))"
      "\<exists>s. l' = l2\<lparr>rf_global := take_tokens (of_nat n) (rf_global l2),
        rf_peers := map_put k \<lparr>pb_bucket = take_tokens (of_nat n) b, pb_last_seen = now\<rparr> (rf_peers l2), rf_stats := s\<rparr>"
proof (cases "r = Allowed")
  case True
  then obtain b where b: "bo = Some b" "1 \<le> packet_tokens b" "of_nat n \<le> byte_tokens b"
    "1 \<le> packet_tokens (rf_global (refill_global now l))" "of_nat n \<le> byte_tokens (rf_global (refill_global now l))"
    "\<exists>s. l' = l2\<lparr>rf_global := take_tokens (of_nat n) (rf_global l2),
      rf_peers := map_put k \<lparr>pb_bucket = take_tokens (of_nat n) b, pb_last_seen = now\<rparr> (rf_peers l2), rf_stats := s\<rparr>"
    using assms
    by (auto simp: allow_forward_def Let_def drop_global_def drop_peer_def drop_capacity_def not_less
        split: if_splits option.splits)
  have "cost x n \<le> tokens x b" "cost x n \<le> tokens x (rf_global (refill_global now l))" for x
    using b(2-5) by (cases x; simp)+
  then show thesis using that(2) True b(1,6) by blast
next
  case False
  then show thesis
    using assms that(1)
    by (auto simp: allow_forward_def Let_def drop_global_def drop_peer_def drop_capacity_def
        split: if_splits option.splits)
qed

lemma forward_charged:
  assumes "quota_ok cfg t l" "t \<le> fst c" "forward_call c l = (ok, l')"
  shows "charged cfg ok c l l'"
proof -
  obtain now k n where c: "c = (now, k, n)" by (cases c)
  obtain r where r: "allow_forward now k n l = (r, l')" "ok = (r = Allowed)"
    using assms(3) by (auto simp: c forward_call_def split: prod.splits)
  have cfg: "rf_config l = cfg" using assms(1) by (simp add: quota_ok_def)
  let ?l1 = "refill_global now l"
  note R = refill_global_law [OF assms(1), of now]
  have q: "quota_ok cfg now l" using assms(1,2) quota_ok_mono by (simp add: c)
  have l: "charged cfg False c l l" "charged cfg False c l ?l1"
    using q R assms(2) by (simp_all add: charged_def c)
  obtain bo l2 where l2: "sender_bucket now k ?l1 = (bo, l2)" by fastforce
  have q1: "quota_ok cfg now ?l1" "updated_at (rf_global ?l1) = now" using R assms(2) by (simp_all add: c)
  note L = sender_bucket_law [OF q1(1) l2]
  have c2: "charged cfg False c l l2"
    using L(1) by (intro charged_trans [OF l(2)]) (simp add: charged_def same_levels_def c global_level_def)
  from r(1) l2 show ?thesis
  proof (cases rule: allow_forward_cases)
    case 1
    then show ?thesis using charged_drop [OF l(1)] charged_drop [OF l(2)] charged_drop [OF c2] l(1) r(2) by auto
  next
    case (2 b)
    have g: "rf_global l2 = rf_global ?l1" "quota_ok cfg now l2" using L(1) by (simp_all add: same_levels_def)
    have "charged cfg True c l2 (l2\<lparr>rf_global := take_tokens (of_nat n) (rf_global l2),
      rf_peers := map_put k \<lparr>pb_bucket = take_tokens (of_nat n) b, pb_last_seen = now\<rparr> (rf_peers l2)\<rparr>)"
      using L(2) [OF 2(2)] 2(3,4) q1(2) g unfolding c by (intro charged_admit) simp_all
    from charged_trans [OF c2 charged_stats [OF this]] 2(1,5) r(2) show ?thesis by auto
  qed
qed

interpretation global_quota:
  token_budget forward_call fst "\<lambda>c. cost x (snd (snd c))" "global_level x cfg" "quota_ok cfg"
    "global_rate x cfg" "global_burst x cfg" for x cfg
proof
  fix now l c
  assume q: "quota_ok cfg now l"
  then have v: "valid_config cfg" "bucket_ok (\<lambda>x. global_burst x cfg) now (rf_global l)" by (simp_all add: quota_ok_def)
  note pos = rates_positive [OF v(1), of x]
  show "0 \<le> global_rate x cfg" using pos by simp
  show "0 \<le> global_level x cfg now l" "global_level x cfg now l \<le> global_burst x cfg"
    using level_bounds [of "tokens x (rf_global l)"] v(2) pos by (simp_all add: global_level_def bucket_ok_def)
  show "global_level x cfg t l \<le> global_level x cfg now l + of_int (t - now) / 1000 * global_rate x cfg" if "now \<le> t" for t
    using that pos unfolding global_level_def by (intro level_advance) simp_all
  show "quota_ok cfg (fst c) (snd (forward_call c l))" if "now \<le> fst c"
    using forward_charged [OF q that, of "fst (forward_call c l)"] by (simp add: charged_def)
  show "(if ok then cost x (snd (snd c)) else 0) + global_level x cfg (fst c) l' \<le> global_level x cfg (fst c) l"
    if "now \<le> fst c" "forward_call c l = (ok, l')" for ok l'
    using forward_charged [OF q that] by (simp add: charged_def)
qed

interpretation sender_quota:
  token_budget forward_call fst "\<lambda>c. if fst (snd c) = k then cost x (snd (snd c)) else 0" "sender_level x cfg k"
    "\<lambda>now l. quota_ok cfg now l \<and> idle_refills cfg" "sender_rate x cfg" "sender_burst x cfg" for x cfg k
proof
  fix now l c
  assume "quota_ok cfg now l \<and> idle_refills cfg"
  then have q: "quota_ok cfg now l" "idle_refills cfg" by simp_all
  then have v: "valid_config cfg" by (simp add: quota_ok_def)
  note pos = rates_positive [OF v, of x]
  have p: "updated_at (pb_bucket p) \<le> now \<and> 0 \<le> tokens x (pb_bucket p) \<and> tokens x (pb_bucket p) \<le> sender_burst x cfg"
    if "map_of (rf_peers l) k = Some p" for p
    using quota_ok_peer [OF q(1) that] by (simp add: peer_ok_def bucket_ok_def)
  show "0 \<le> sender_rate x cfg" using pos by simp
  show "0 \<le> sender_level x cfg k now l" "sender_level x cfg k now l \<le> sender_burst x cfg"
    using level_bounds p pos by (auto simp: sender_level_def split: option.splits)
  show "sender_level x cfg k t l \<le> sender_level x cfg k now l + of_int (t - now) / 1000 * sender_rate x cfg"
    if "now \<le> t" for t
    using that pos level_advance [of "sender_rate x cfg" now t] by (auto simp: sender_level_def split: option.splits)
  show "quota_ok cfg (fst c) (snd (forward_call c l)) \<and> idle_refills cfg" if "now \<le> fst c"
    using forward_charged [OF q(1) that, of "fst (forward_call c l)"] q(2) by (simp add: charged_def)
  show "(if ok then if fst (snd c) = k then cost x (snd (snd c)) else 0 else 0) + sender_level x cfg k (fst c) l' \<le>
      sender_level x cfg k (fst c) l" if "now \<le> fst c" "forward_call c l = (ok, l')" for ok l'
    using forward_charged [OF q(1) that] q(2) by (auto simp: charged_def)
qed

lemma new_quota_ok: "valid_config cfg \<Longrightarrow> quota_ok cfg now (new_RelayForwardLimiter now cfg)"
proof -
  assume v: "valid_config cfg"
  have "tokens x (make_bucket (of_nat (global_packet_burst cfg)) (of_nat (global_byte_burst cfg)) now) = global_burst x cfg" for x
    by (cases x) (simp_all add: make_bucket_def)
  then show ?thesis
    using v rates_positive(4) [OF v]
    by (simp add: quota_ok_def new_RelayForwardLimiter_def reset_limiter_def bucket_ok_def less_imp_le)
      (simp add: make_bucket_def)
qed



end
