(* ===== verification/Transport.thy ===== *)
theory Transport
  imports Queue_Properties Net_Codec
begin

text \<open>
  \<open>src/transport/transport.cpp\<close>: the UDP socket with its send queue and its two
  worker loops.  What Winsock returns is an argument of each operation; a call
  of \<open>sendto\<close> is the datagram an operation returns.  A worker loop is one step
  per iteration, under the lock the loop holds.
\<close>

section \<open>Socket addresses\<close>

abbreviation AF_INET :: u16 where "AF_INET \<equiv> 2"
abbreviation AF_INET6 :: u16 where "AF_INET6 \<equiv> 23"
abbreviation SOCKADDR_IN_SIZE :: nat where "SOCKADDR_IN_SIZE \<equiv> 16"
abbreviation SOCKADDR_IN6_SIZE :: nat where "SOCKADDR_IN6_SIZE \<equiv> 28"

text \<open>The fields of a \<open>sockaddr_in\<close> or \<open>sockaddr_in6\<close> the code reads; the address is
  the bytes of \<open>sin_addr\<close> or \<open>sin6_addr\<close> in memory order.\<close>

record sockaddr =
  sa_family :: u16
  sa_addr :: bytes
  sa_port :: u16

definition mapped_prefix :: bytes where
  "mapped_prefix = replicate 10 0 @ [0xFF, 0xFF]"

definition ipv4_endpoint :: "bytes \<Rightarrow> u16 \<Rightarrow> Endpoint" where
  "ipv4_endpoint bs port = \<lparr>ep_address = from_ipv4 (be_word bs), ep_port = port\<rparr>"

definition endpoint_from_sockaddr :: "sockaddr option \<Rightarrow> nat \<Rightarrow> Endpoint option" where
  "endpoint_from_sockaddr address len =
    (case address of None \<Rightarrow> None
     | Some a \<Rightarrow>
         if sa_family a = AF_INET \<and> len \<ge> SOCKADDR_IN_SIZE then Some (ipv4_endpoint (take 4 (sa_addr a)) (sa_port a))
         else if sa_family a = AF_INET6 \<and> len \<ge> SOCKADDR_IN6_SIZE then
           (if take 12 (sa_addr a) = mapped_prefix then Some (ipv4_endpoint (drop 12 (sa_addr a)) (sa_port a))
            else Some \<lparr>ep_address = from_ipv6 (sa_addr a), ep_port = sa_port a\<rparr>)
         else None)"

text \<open>The filled address and its length; \<open>None\<close> is the result 0.\<close>

definition endpoint_to_sockaddr :: "Endpoint \<Rightarrow> bool \<Rightarrow> (sockaddr \<times> nat) option" where
  "endpoint_to_sockaddr e ipv6_socket =
    (if is_ipv4 e \<and> \<not> ipv6_socket
     then Some (\<lparr>sa_family = AF_INET, sa_addr = be32 (ipv4_value (ep_address e)), sa_port = ep_port e\<rparr>, SOCKADDR_IN_SIZE)
     else if \<not> ipv6_socket then None
     else if \<not> is_ipv4 e \<and> \<not> is_ipv6 e then None
     else Some (\<lparr>sa_family = AF_INET6,
         sa_addr = (if is_ipv4 e then replicate 10 0 @ [0xFF, 0xFF] @ take 4 (addr_bytes (ep_address e))
                    else addr_bytes (ep_address e)),
         sa_port = ep_port e\<rparr>, SOCKADDR_IN6_SIZE))"

section \<open>The transport\<close>

abbreviation IPV4_UDP_MAX_DATAGRAM_SIZE :: nat where "IPV4_UDP_MAX_DATAGRAM_SIZE \<equiv> 65507"

record TransportQueueMetrics =
  data_drops :: u64
  control_drops :: u64

definition reset_metrics :: TransportQueueMetrics where
  "reset_metrics = \<lparr>data_drops = 0, control_drops = 0\<rparr>"

fun record_drop :: "SendPriority \<Rightarrow> TransportQueueMetrics \<Rightarrow> TransportQueueMetrics" where
  "record_drop Control m = m\<lparr>control_drops := control_drops m + 1\<rparr>"
| "record_drop Data m = m\<lparr>data_drops := data_drops m + 1\<rparr>"

record SocketOptions =
  so_broadcast :: bool
  so_reuseaddr :: bool
  so_dual_stack :: bool

record Transport =
  tp_open :: bool
  tp_local_port :: u16
  tp_ipv6 :: bool
  tp_send_running :: bool
  tp_running :: bool
  tp_max :: nat
  tp_oversize_send :: u64
  tp_oversize_receive :: u64
  tp_metrics :: TransportQueueMetrics
  tp_queue :: "Endpoint SendQueue"

definition new_Transport :: Transport where
  "new_Transport = \<lparr>tp_open = False, tp_local_port = 0, tp_ipv6 = False, tp_send_running = False,
     tp_running = False, tp_max = IPV4_UDP_MAX_DATAGRAM_SIZE, tp_oversize_send = 0, tp_oversize_receive = 0,
     tp_metrics = reset_metrics, tp_queue = new_SendQueue default_limits\<rparr>"

definition stop_receive :: "Transport \<Rightarrow> Transport" where
  "stop_receive t = t\<lparr>tp_running := False\<rparr>"

definition close_transport :: "Transport \<Rightarrow> Transport" where
  "close_transport t = (stop_receive t)\<lparr>tp_send_running := False, tp_queue := clear_queue (tp_queue t),
     tp_open := False, tp_local_port := 0, tp_ipv6 := False\<rparr>"

text \<open>What the operating system answers: whether the dual-stack socket could be
  opened, configured and bound, whether an IPv4 socket could be opened, and
  whether it could be bound.\<close>

record bind_answers =
  v6_configured :: bool
  v4_socket :: bool
  v4_bound :: bool

definition bind_transport :: "u16 \<Rightarrow> SocketOptions \<Rightarrow> bind_answers \<Rightarrow> Transport \<Rightarrow> bool \<times> Transport" where
  "bind_transport port opts os t =
    (let t1 = (if tp_open t then close_transport t else t);
         t2 = t1\<lparr>tp_oversize_send := 0, tp_oversize_receive := 0, tp_metrics := reset_metrics,
                tp_ipv6 := so_dual_stack opts \<and> \<not> so_broadcast opts \<and> v6_configured os\<rparr> in
     if \<not> tp_ipv6 t2 \<and> \<not> v4_socket os then (False, t2\<lparr>tp_open := False\<rparr>)
     else if \<not> tp_ipv6 t2 \<and> \<not> v4_bound os then (False, close_transport t2)
     else (True, t2\<lparr>tp_open := True, tp_local_port := port, tp_queue := clear_queue (tp_queue t2),
        tp_send_running := True\<rparr>))"

definition set_max_datagram_size :: "nat \<Rightarrow> Transport \<Rightarrow> bool \<times> Transport" where
  "set_max_datagram_size maximum t =
    (if maximum = 0 \<or> maximum > IPV4_UDP_MAX_DATAGRAM_SIZE then (False, t) else (True, t\<lparr>tp_max := maximum\<rparr>))"

text \<open>\<open>data\<close> is \<open>None\<close> for a null pointer; \<open>len\<close> is then the length passed with it.\<close>

definition send_datagram ::
    "bytes option \<Rightarrow> nat \<Rightarrow> Endpoint \<Rightarrow> SendPriority \<Rightarrow> Transport \<Rightarrow> bool \<times> Transport" where
  "send_datagram data len dest priority t =
    (if len > tp_max t then (False, t\<lparr>tp_oversize_send := tp_oversize_send t + 1\<rparr>)
     else if len > 0 \<and> data = None then (False, t)
     else if is_ipv6 dest \<and> \<not> tp_ipv6 t then (False, t)
     else if \<not> tp_open t \<or> \<not> tp_send_running t then (False, t)
     else
       let (r, q) = enqueue dest (Some (case data of None \<Rightarrow> [] | Some bs \<Rightarrow> take len bs)) priority (tp_queue t) in
       if r \<noteq> Queued then (False, t\<lparr>tp_queue := q, tp_metrics := record_drop priority (tp_metrics t)\<rparr>)
       else (True, t\<lparr>tp_queue := q\<rparr>))"

text \<open>One iteration of \<open>send_loop\<close>: \<open>None\<close> while it waits or once it returned;
  otherwise what is passed to \<open>sendto\<close>, if anything.\<close>

definition send_loop_step :: "Transport \<Rightarrow> (sockaddr \<times> nat \<times> bytes) option \<times> Transport" where
  "send_loop_step t =
    (if \<not> tp_send_running t \<or> queue_empty (tp_queue t) then (None, t)
     else
       let (d, q) = pop (tp_queue t) in
       case d of
         None \<Rightarrow> (None, t\<lparr>tp_queue := q\<rparr>)
       | Some d \<Rightarrow>
           (case endpoint_to_sockaddr (qd_peer_key d) (tp_ipv6 t) of
              None \<Rightarrow> (None, t\<lparr>tp_queue := q\<rparr>)
            | Some (a, n) \<Rightarrow> (Some (a, n, qd_bytes d), t\<lparr>tp_queue := q\<rparr>)))"

definition start_receive :: "Transport \<Rightarrow> bool \<times> Transport" where
  "start_receive t = (if \<not> tp_open t \<or> tp_running t then (False, t) else (True, t\<lparr>tp_running := True\<rparr>))"

datatype receive_error = TimedOut | ConnectionReset | NetworkReset | MessageSize | OtherError

datatype receive_event = ReceiveFailed receive_error | Received bytes "sockaddr option" nat

datatype loop_control = Continue | Break

text \<open>One iteration of \<open>recv_loop\<close>, with the arguments of the callback if it is called.\<close>

definition recv_loop_step ::
    "receive_event \<Rightarrow> Transport \<Rightarrow> loop_control \<times> (bytes \<times> Endpoint) option \<times> Transport" where
  "recv_loop_step ev t =
    (case ev of
       ReceiveFailed err \<Rightarrow>
         (if err = TimedOut \<or> err = ConnectionReset \<or> err = NetworkReset then Continue else Break, None, t)
     | Received bs sender from_len \<Rightarrow>
         if length bs > tp_max t then (Continue, None, t\<lparr>tp_oversize_receive := tp_oversize_receive t + 1\<rparr>)
         else case endpoint_from_sockaddr sender from_len of
           None \<Rightarrow> (Continue, None, t)
         | Some ep \<Rightarrow> (Continue, Some (bs, ep), t))"

text \<open>The waiting loop of \<open>exchange\<close>.  Each element is one iteration: the clock at
  the loop condition, whether the receive timeout could be set, and what
  \<open>recvfrom\<close> returned.  The deadline ends the loop at the latest when the
  iterations run out.\<close>

fun exchange_loop :: "Endpoint \<Rightarrow> time \<Rightarrow> (time \<times> bool \<times> receive_event) list \<Rightarrow> (bytes \<times> Endpoint) option" where
  "exchange_loop dest deadline [] = None"
| "exchange_loop dest deadline ((now, timeout_set, ev) # rest) =
    (if \<not> now < deadline then None
     else if \<not> timeout_set then None
     else case ev of
       ReceiveFailed err \<Rightarrow>
         (if err = TimedOut then None
          else if err = ConnectionReset \<or> err = NetworkReset \<or> err = MessageSize
          then exchange_loop dest deadline rest
          else None)
     | Received bs sender n \<Rightarrow>
         (case endpoint_from_sockaddr sender n of
            None \<Rightarrow> exchange_loop dest deadline rest
          | Some source \<Rightarrow> if source \<noteq> dest then exchange_loop dest deadline rest else Some (bs, source)))"

definition exchange ::
    "bytes option \<Rightarrow> Endpoint \<Rightarrow> time \<Rightarrow> time \<Rightarrow> bool \<Rightarrow> (time \<times> bool \<times> receive_event) list \<Rightarrow> Transport
     \<Rightarrow> (bytes \<times> Endpoint) option \<times> Transport" where
  "exchange data dest timeout_ms now sent_all events t =
    (case data of None \<Rightarrow> (None, t)
     | Some bs \<Rightarrow>
         if \<not> tp_open t \<or> tp_running t \<or> bs = [] \<or> timeout_ms \<le> 0 then (None, t)
         else if length bs > tp_max t then (None, t\<lparr>tp_oversize_send := tp_oversize_send t + 1\<rparr>)
         else if endpoint_to_sockaddr dest (tp_ipv6 t) = None then (None, t)
         else if \<not> sent_all then (None, t)
         else (exchange_loop dest (now + timeout_ms) events, t))"

section \<open>Addresses round trip\<close>

text \<open>An endpoint survives the conversion to a socket address and back on
  either kind of socket, IPv4 endpoints through the v4-mapped form on a
  dual-stack one.  The only endpoints that cannot are those written as v4-mapped
  IPv6 addresses: they come back as IPv4.\<close>

theorem sockaddr_roundtrip:
  assumes "canonical_address (ep_address e)" "endpoint_to_sockaddr e ipv6_socket = Some (a, n)"
    and "\<not> (is_ipv6 e \<and> take 12 (addr_bytes (ep_address e)) = mapped_prefix)"
  shows "endpoint_from_sockaddr (Some a) n = Some e"
proof -
  have len: "length (addr_bytes (ep_address e)) = 16"
    using assms(1) by (simp add: canonical_address_def wf_address_def)
  have v4: "ipv4_endpoint (take 4 (addr_bytes (ep_address e))) (ep_port e) = e" if "is_ipv4 e"
  proof -
    have f: "addr_family (ep_address e) = IPv4" using that by (simp add: is_ipv4_def)
    show ?thesis
      using be32_ipv4_value [OF assms(1) f, symmetric] canonical_ipv4 [OF assms(1) f]
      by (intro Endpoint.equality) (simp_all add: ipv4_endpoint_def)
  qed
  have v6: "\<lparr>ep_address = from_ipv6 (addr_bytes (ep_address e)), ep_port = ep_port e\<rparr> = e" if "is_ipv6 e"
    using that by (intro Endpoint.equality IPAddress.equality) (simp_all add: is_ipv6_def from_ipv6_def)
  show ?thesis
  proof (cases "is_ipv4 e")
    case True
    then have "be32 (ipv4_value (ep_address e)) = take 4 (addr_bytes (ep_address e))"
      using be32_ipv4_value [OF assms(1)] by (simp add: is_ipv4_def)
    then show ?thesis
      using True assms(2) v4 len
      by (auto simp: endpoint_to_sockaddr_def endpoint_from_sockaddr_def mapped_prefix_def split: if_splits)
  next
    case False
    then show ?thesis
      using assms(2,3) v6 by (auto simp: endpoint_to_sockaddr_def endpoint_from_sockaddr_def split: if_splits)
  qed
qed

theorem sockaddr_roundtrip_witness:
  "endpoint_from_sockaddr (Some \<lparr>sa_family = AF_INET6,
      sa_addr = replicate 10 0 @ [0xFF, 0xFF] @ take 4 (addr_bytes (from_ipv4 0x0A000001)), sa_port = 7\<rparr>) SOCKADDR_IN6_SIZE =
    Some \<lparr>ep_address = from_ipv4 0x0A000001, ep_port = 7\<rparr>"
  by (rule sockaddr_roundtrip [where ipv6_socket = True])
    (simp_all add: endpoint_to_sockaddr_def is_ipv4_def is_ipv6_def)

section \<open>What reaches the socket\<close>

datatype transport_call =
    Bind u16 SocketOptions bind_answers
  | Close
  | Send "bytes option" nat Endpoint SendPriority
  | SendLoop
  | StartReceive
  | StopReceive
  | RecvLoop receive_event

text \<open>A call, with what it passes to \<open>sendto\<close> and to the receive callback.\<close>

fun transport_step ::
    "transport_call \<Rightarrow> Transport \<Rightarrow> (sockaddr \<times> nat \<times> bytes) list \<times> (bytes \<times> Endpoint) list \<times> Transport" where
  "transport_step (Bind port opts os) t = ([], [], snd (bind_transport port opts os t))"
| "transport_step Close t = ([], [], close_transport t)"
| "transport_step (Send data len dest p) t = ([], [], snd (send_datagram data len dest p t))"
| "transport_step SendLoop t = (let (out, t) = send_loop_step t in (case out of None \<Rightarrow> [] | Some d \<Rightarrow> [d], [], t))"
| "transport_step StartReceive t = ([], [], snd (start_receive t))"
| "transport_step StopReceive t = ([], [], stop_receive t)"
| "transport_step (RecvLoop ev) t =
    (let (_, d, t) = recv_loop_step ev t in ([], case d of None \<Rightarrow> [] | Some x \<Rightarrow> [x], t))"

fun transport_run ::
    "transport_call list \<Rightarrow> Transport \<Rightarrow> (sockaddr \<times> nat \<times> bytes) list \<times> (bytes \<times> Endpoint) list \<times> Transport" where
  "transport_run [] t = ([], [], t)"
| "transport_run (c # cs) t =
    (let (out, inp, t) = transport_step c t; (outs, inps, t) = transport_run cs t in (out @ outs, inp @ inps, t))"

definition transport_ok :: "nat \<Rightarrow> Transport \<Rightarrow> bool" where
  "transport_ok n t \<longleftrightarrow> tp_max t = n \<and> sq_ok (tp_queue t) \<and>
     (\<forall>p k. \<forall>bs \<in> set (content (tp_queue t) p k). length bs \<le> n)"

lemma content_clear [simp]: "content (clear_queue q) p k = []"
  by (simp add: content_def peer_queue_def clear_queue_def)

lemma transport_ok_clear:
  "transport_ok n t \<Longrightarrow> transport_ok n (t\<lparr>tp_queue := clear_queue (tp_queue t)\<rparr>)"
  by (simp add: transport_ok_def new_ok)

lemma close_transport_ok: "transport_ok n t \<Longrightarrow> transport_ok n (close_transport t)"
  by (simp add: transport_ok_def close_transport_def stop_receive_def new_ok)

lemma bind_transport_ok: "transport_ok n t \<Longrightarrow> transport_ok n (snd (bind_transport port opts os t))"
  by (auto simp: transport_ok_def bind_transport_def close_transport_def stop_receive_def new_ok Let_def)

lemma send_datagram_ok:
  assumes "transport_ok n t"
  shows "transport_ok n (snd (send_datagram data len dest p t))"
proof -
  define bs where "bs = (case data of None \<Rightarrow> [] | Some bs \<Rightarrow> take len bs)"
  have q: "sq_ok (tp_queue t)" using assms by (simp add: transport_ok_def)
  have "length bs \<le> len" by (simp add: bs_def split: option.split)
  moreover obtain r q' where e: "enqueue dest (Some bs) p (tp_queue t) = (r, q')" by fastforce
  moreover have "sq_ok q'" using enqueue_ok [OF q, of dest "Some bs" p] e by simp
  moreover have "content q' p' k = content (tp_queue t) p' k @ (if r = Queued \<and> p' = p \<and> k = dest then [bs] else [])" for p' k
    using enqueue_content [OF q, of dest "Some bs" p q' bs p' k] e enqueue_cases [of dest "Some bs" p "tp_queue t"]
    by (cases "r = Queued") auto
  ultimately show ?thesis
    using assms by (auto simp: send_datagram_def transport_ok_def simp flip: bs_def)
qed

lemma send_loop_step_ok:
  assumes "transport_ok n t" "send_loop_step t = (out, t')"
  shows "transport_ok n t' \<and> (\<forall>a m bs. out = Some (a, m, bs) \<longrightarrow> length bs \<le> n)"
proof -
  have q: "sq_ok (tp_queue t)" using assms(1) by (simp add: transport_ok_def)
  obtain d q' where d: "pop (tp_queue t) = (d, q')" by fastforce
  have ok: "sq_ok q'" using pop_ok [OF q] d by simp
  have sub: "set (content q' p k) \<subseteq> set (content (tp_queue t) p k)" for p k
    using pop_content [OF q] d by (cases d) auto
  have mem: "qd_bytes x \<in> set (content (tp_queue t) (qd_priority x) (qd_peer_key x))" if "d = Some x" for x
    using pop_content [OF q] d that by simp
  have q': "transport_ok n (t\<lparr>tp_queue := q'\<rparr>)" using assms(1) ok sub by (fastforce simp: transport_ok_def)
  have len: "length (qd_bytes x) \<le> n" if "d = Some x" for x
    using assms(1) mem [OF that] by (auto simp: transport_ok_def)
  show ?thesis
    using assms q' len d by (auto simp: send_loop_step_def split: if_splits option.splits)
qed

lemma transport_step_ok:
  assumes "transport_ok n t" "transport_step c t = (outs, inps, t')"
  shows "transport_ok n t' \<and> (\<forall>(a, m, bs) \<in> set outs. length bs \<le> n) \<and> (\<forall>(bs, e) \<in> set inps. length bs \<le> n)"
proof (cases c)
  case SendLoop
  obtain out t1 where "send_loop_step t = (out, t1)" by fastforce
  then show ?thesis using send_loop_step_ok [OF assms(1)] assms(2) SendLoop by (auto split: option.splits)
next
  case (RecvLoop ev)
  then show ?thesis
    using assms
    by (cases ev) (auto simp: recv_loop_step_def transport_ok_def split: if_splits option.splits)
qed (use assms in \<open>auto simp: bind_transport_ok close_transport_ok send_datagram_ok start_receive_def stop_receive_def
       transport_ok_def [of _ "_\<lparr>tp_running := _\<rparr>"] transport_ok_def [of _ t]\<close>)

lemma transport_run_ok:
  "transport_ok n t \<Longrightarrow> transport_run cs t = (outs, inps, t') \<Longrightarrow>
    (\<forall>(a, m, bs) \<in> set outs. length bs \<le> n) \<and> (\<forall>(bs, e) \<in> set inps. length bs \<le> n)"
proof (induction cs arbitrary: t outs inps)
  case (Cons c cs)
  obtain o1 i1 t1 where s: "transport_step c t = (o1, i1, t1)" by (metis prod_cases3)
  obtain o2 i2 where r: "transport_run cs t1 = (o2, i2, t')" "outs = o1 @ o2" "inps = i1 @ i2"
    using Cons.prems(2) s by (auto split: prod.splits)
  show ?case using transport_step_ok [OF Cons.prems(1) s] Cons.IH [OF _ r(1)] r(2,3) by auto
qed simp



end
