(* ===== verification/Peer_Manager.thy ===== *)
theory Peer_Manager
  imports Endpoint_Candidates Std_Map Session
begin

text \<open>
  \<open>src/peer/peer.cpp\<close>: the table of known peers.  Clock readings are arguments;
  the default-constructed time point is 0.
\<close>

section \<open>Definitions\<close>

datatype PeerState = StateUnknown | Discovering | Connecting | Established | Dead

datatype PeerPath = PathUnknown | PathDirect | HolePunched

datatype PeerUpsertResult = Inserted | Updated | IdentityBound | IdentityConflict | CapacityRejected

record Peer =
  pe_node_id :: node_id
  pe_public_key :: public_key
  pe_endpoint :: "Endpoint option"
  pe_endpoint_candidates :: "EndpointCandidate list"
  pe_state :: PeerState
  pe_path :: PeerPath
  pe_created_at :: time
  pe_last_seen :: time
  pe_last_keepalive :: time
  pe_connected_since :: time
  pe_connect_attempts :: u32
  pe_trusted :: bool

record PeerManager =
  pm_peers :: "(node_id, Peer) std_map"
  pm_max_peers :: nat
  pm_keepalive_interval :: time
  pm_dead_timeout :: time

abbreviation PEER_MANAGER_MAX_PEERS :: nat where "PEER_MANAGER_MAX_PEERS \<equiv> 256"

definition new_PeerManager :: "nat \<Rightarrow> PeerManager" where
  "new_PeerManager max_peers = \<lparr>pm_peers = [], pm_max_peers = max_peers,
     pm_keepalive_interval = 25000, pm_dead_timeout = 180000\<rparr>"

definition is_empty_key :: "public_key \<Rightarrow> bool" where
  "is_empty_key key \<longleftrightarrow> key = replicate PUBLIC_KEY_SIZE 0"

definition new_peer :: "node_id \<Rightarrow> public_key \<Rightarrow> Endpoint option \<Rightarrow> bool \<Rightarrow> time \<Rightarrow> Peer" where
  "new_peer node_id public_key endpoint trusted now =
    \<lparr>pe_node_id = node_id, pe_public_key = public_key, pe_endpoint = endpoint, pe_endpoint_candidates = [],
     pe_state = StateUnknown, pe_path = PathUnknown, pe_created_at = now, pe_last_seen = 0, pe_last_keepalive = 0,
     pe_connected_since = 0, pe_connect_attempts = 0, pe_trusted = trusted\<rparr>"

definition upsert ::
    "time \<Rightarrow> node_id \<Rightarrow> public_key \<Rightarrow> Endpoint option \<Rightarrow> bool \<Rightarrow> PeerManager \<Rightarrow> PeerUpsertResult \<times> PeerManager" where
  "upsert now node_id public_key endpoint trusted pm =
    (case map_of (pm_peers pm) node_id of
       Some p \<Rightarrow>
         if \<not> is_empty_key (pe_public_key p) \<and> \<not> is_empty_key public_key \<and> pe_public_key p \<noteq> public_key
         then (IdentityConflict, pm)
         else
           let bind_key = is_empty_key (pe_public_key p) \<and> \<not> is_empty_key public_key;
               p1 = (if bind_key then p\<lparr>pe_public_key := public_key\<rparr> else p);
               p2 = (if endpoint \<noteq> None then p1\<lparr>pe_endpoint := endpoint\<rparr> else p1);
               p3 = p2\<lparr>pe_trusted := pe_trusted p2 \<or> trusted\<rparr>
           in (if bind_key then IdentityBound else Updated, pm\<lparr>pm_peers := map_put node_id p3 (pm_peers pm)\<rparr>)
     | None \<Rightarrow>
         if length (pm_peers pm) \<ge> pm_max_peers pm then (CapacityRejected, pm)
         else (Inserted, pm\<lparr>pm_peers := map_put node_id (new_peer node_id public_key endpoint trusted now) (pm_peers pm)\<rparr>))"

definition add_peer :: "Peer \<Rightarrow> PeerManager \<Rightarrow> bool \<times> PeerManager" where
  "add_peer peer pm =
    (if \<not> map_contains (pe_node_id peer) (pm_peers pm) \<and> length (pm_peers pm) \<ge> pm_max_peers pm then (False, pm)
     else (True, pm\<lparr>pm_peers := map_put (pe_node_id peer) peer (pm_peers pm)\<rparr>))"

definition remove_peer :: "node_id \<Rightarrow> PeerManager \<Rightarrow> PeerManager" where
  "remove_peer node_id pm = pm\<lparr>pm_peers := map_erase node_id (pm_peers pm)\<rparr>"

definition get_peer :: "node_id \<Rightarrow> PeerManager \<Rightarrow> Peer option" where
  "get_peer node_id pm = map_of (pm_peers pm) node_id"

definition has_peer :: "node_id \<Rightarrow> PeerManager \<Rightarrow> bool" where
  "has_peer node_id pm = map_contains node_id (pm_peers pm)"

definition peers_size :: "PeerManager \<Rightarrow> nat" where
  "peers_size pm = length (pm_peers pm)"

definition all_peers :: "PeerManager \<Rightarrow> Peer list" where
  "all_peers pm = map snd (pm_peers pm)"

text \<open>\<open>auto it = peers_.find(node_id); if (it == end) return; change it->second\<close>.\<close>

definition modify_peer :: "node_id \<Rightarrow> (Peer \<Rightarrow> Peer) \<Rightarrow> PeerManager \<Rightarrow> PeerManager" where
  "modify_peer node_id f pm = (case map_of (pm_peers pm) node_id of None \<Rightarrow> pm
     | Some p \<Rightarrow> pm\<lparr>pm_peers := map_put node_id (f p) (pm_peers pm)\<rparr>)"

definition seen_now :: "time \<Rightarrow> Peer \<Rightarrow> Peer" where
  "seen_now now p = (if pe_state p \<noteq> Established then p\<lparr>pe_connected_since := now\<rparr> else p)
     \<lparr>pe_last_keepalive := now, pe_last_seen := now, pe_state := Established\<rparr>"

definition mark_seen :: "time \<Rightarrow> node_id \<Rightarrow> Endpoint option \<Rightarrow> PeerManager \<Rightarrow> PeerManager" where
  "mark_seen now node_id endpoint = modify_peer node_id (\<lambda>p.
     seen_now now (if endpoint = None then p
       else p\<lparr>pe_endpoint := endpoint,
              pe_path := (if pe_endpoint p \<noteq> endpoint \<or> pe_path p = PathUnknown then PathDirect else pe_path p)\<rparr>))"

definition mark_hole_punched :: "time \<Rightarrow> node_id \<Rightarrow> Endpoint \<Rightarrow> PeerManager \<Rightarrow> PeerManager" where
  "mark_hole_punched now node_id endpoint = modify_peer node_id (\<lambda>p.
     seen_now now (p\<lparr>pe_endpoint := Some endpoint, pe_path := HolePunched\<rparr>))"

definition mark_connecting :: "node_id \<Rightarrow> PeerManager \<Rightarrow> PeerManager" where
  "mark_connecting node_id = modify_peer node_id (\<lambda>p.
     p\<lparr>pe_state := Connecting, pe_connect_attempts := pe_connect_attempts p + 1\<rparr>)"

definition mark_dead :: "node_id \<Rightarrow> PeerManager \<Rightarrow> PeerManager" where
  "mark_dead node_id = modify_peer node_id (\<lambda>p. p\<lparr>pe_state := Dead, pe_path := PathUnknown\<rparr>)"

definition update_endpoint :: "time \<Rightarrow> node_id \<Rightarrow> Endpoint \<Rightarrow> PeerManager \<Rightarrow> PeerManager" where
  "update_endpoint now node_id endpoint = modify_peer node_id (\<lambda>p.
     (if pe_endpoint p \<noteq> Some endpoint then p\<lparr>pe_path := PathUnknown\<rparr> else p)
       \<lparr>pe_endpoint := Some endpoint, pe_last_seen := now\<rparr>)"

definition set_endpoint_candidates :: "node_id \<Rightarrow> EndpointCandidate list \<Rightarrow> PeerManager \<Rightarrow> bool \<times> PeerManager" where
  "set_endpoint_candidates node_id candidates pm =
    (if candidates = [] \<or> length candidates > ENDPOINT_CANDIDATE_MAX_COUNT then (False, pm)
     else if \<not> list_all valid_endpoint_candidate candidates \<or> \<not> distinct (map ec_endpoint candidates) then (False, pm)
     else if \<not> has_peer node_id pm then (False, pm)
     else (True, modify_peer node_id (\<lambda>p. p\<lparr>pe_endpoint_candidates := candidates\<rparr>) pm))"

text \<open>\<open>session_manager\<close> is \<open>None\<close> until \<open>set_session_manager\<close> was called.\<close>

definition peer_session :: "node_id \<Rightarrow> 'hs SessionManager option \<Rightarrow> PeerManager \<Rightarrow> SessionSnapshot option" where
  "peer_session node_id session_manager pm =
    (case session_manager of None \<Rightarrow> None
     | Some sm \<Rightarrow> if \<not> has_peer node_id pm then None else get_session node_id sm)"

definition set_keepalive_interval :: "time \<Rightarrow> PeerManager \<Rightarrow> PeerManager" where
  "set_keepalive_interval interval pm = pm\<lparr>pm_keepalive_interval := interval\<rparr>"

definition set_dead_timeout :: "time \<Rightarrow> PeerManager \<Rightarrow> PeerManager" where
  "set_dead_timeout timeout pm = pm\<lparr>pm_dead_timeout := timeout\<rparr>"

definition stale_peers :: "time \<Rightarrow> PeerManager \<Rightarrow> Peer list" where
  "stale_peers now pm = filter (\<lambda>p. pe_state p \<noteq> Dead \<and>
     now - (if pe_last_seen p \<noteq> 0 then pe_last_seen p else pe_created_at p) \<ge> pm_dead_timeout pm) (all_peers pm)"

definition peers_needing_keepalive :: "time \<Rightarrow> PeerManager \<Rightarrow> Peer list" where
  "peers_needing_keepalive now pm = filter (\<lambda>p. pe_state p = Established \<and>
     now - pe_last_keepalive p \<ge> pm_keepalive_interval pm) (all_peers pm)"

section \<open>Invariant\<close>

text \<open>The table is a bounded map keyed by the node ids of its entries.\<close>

definition peers_ok :: "PeerManager \<Rightarrow> bool" where
  "peers_ok pm \<longleftrightarrow> map_ok (pm_peers pm) \<and> length (pm_peers pm) \<le> pm_max_peers pm \<and>
     (\<forall>k p. map_of (pm_peers pm) k = Some p \<longrightarrow> pe_node_id p = k)"

text \<open>What every operation but \<open>remove_peer\<close> and \<open>add_peer\<close> keeps of a known peer: a
  bound key stays, and trust is never lost.\<close>

definition identity_kept :: "Peer \<Rightarrow> Peer \<Rightarrow> bool" where
  "identity_kept p p' \<longleftrightarrow> pe_node_id p' = pe_node_id p \<and>
     (\<not> is_empty_key (pe_public_key p) \<longrightarrow> pe_public_key p' = pe_public_key p) \<and>
     (pe_trusted p \<longrightarrow> pe_trusted p')"

lemma seen_now_fields [simp]:
  "pe_node_id (seen_now now p) = pe_node_id p" "pe_public_key (seen_now now p) = pe_public_key p"
  "pe_trusted (seen_now now p) = pe_trusted p" "pe_endpoint (seen_now now p) = pe_endpoint p"
  "pe_path (seen_now now p) = pe_path p" "pe_state (seen_now now p) = Established"
  "pe_last_seen (seen_now now p) = now" "pe_last_keepalive (seen_now now p) = now"
  by (simp_all add: seen_now_def)

lemma modify_peer_ok:
  assumes "peers_ok pm" "\<And>p. pe_node_id (f p) = pe_node_id p"
  shows "peers_ok (modify_peer k f pm)"
  using assms by (auto simp: modify_peer_def peers_ok_def length_put map_contains_iff split: option.splits)

lemma modify_peer_lookup:
  "map_of (pm_peers (modify_peer k f pm)) k' = (if k' = k then map_option f (map_of (pm_peers pm) k) else map_of (pm_peers pm) k')"
  by (auto simp: modify_peer_def split: option.splits)

lemma upsert_ok: "peers_ok pm \<Longrightarrow> peers_ok (snd (upsert now k key e tr pm))"
  by (auto simp: upsert_def peers_ok_def length_put map_contains_iff Let_def new_peer_def split: option.splits)

lemma add_peer_ok: "peers_ok pm \<Longrightarrow> peers_ok (snd (add_peer p pm))"
  by (auto simp: add_peer_def peers_ok_def length_put)

lemma remove_peer_ok: "peers_ok pm \<Longrightarrow> peers_ok (remove_peer k pm)"
  by (auto simp: remove_peer_def peers_ok_def intro: le_trans [OF length_erase_le] split: if_splits)

lemma upsert_lookup_other: "k' \<noteq> k \<Longrightarrow> map_of (pm_peers (snd (upsert now k key e tr pm))) k' = map_of (pm_peers pm) k'"
  by (auto simp: upsert_def Let_def split: option.splits)

lemma upsert_keeps:
  assumes "map_of (pm_peers pm) k' = Some p"
  shows "\<exists>p'. map_of (pm_peers (snd (upsert now k key e tr pm))) k' = Some p' \<and> identity_kept p p'"
proof (cases "k' = k")
  case True
  then show ?thesis using assms by (auto simp: upsert_def Let_def identity_kept_def)
next
  case False
  then show ?thesis using assms by (simp add: upsert_lookup_other identity_kept_def)
qed

datatype peer_call =
    Upsert time node_id public_key "Endpoint option" bool
  | MarkSeen time node_id "Endpoint option"
  | MarkHolePunched time node_id Endpoint
  | MarkConnecting node_id
  | MarkDead node_id
  | UpdateEndpoint time node_id Endpoint
  | SetCandidates node_id "EndpointCandidate list"
  | SetKeepalive time
  | SetDeadTimeout time

fun peer_step :: "peer_call \<Rightarrow> PeerManager \<Rightarrow> PeerManager" where
  "peer_step (Upsert now k key e tr) pm = snd (upsert now k key e tr pm)"
| "peer_step (MarkSeen now k e) pm = mark_seen now k e pm"
| "peer_step (MarkHolePunched now k e) pm = mark_hole_punched now k e pm"
| "peer_step (MarkConnecting k) pm = mark_connecting k pm"
| "peer_step (MarkDead k) pm = mark_dead k pm"
| "peer_step (UpdateEndpoint now k e) pm = update_endpoint now k e pm"
| "peer_step (SetCandidates k cs) pm = snd (set_endpoint_candidates k cs pm)"
| "peer_step (SetKeepalive t) pm = set_keepalive_interval t pm"
| "peer_step (SetDeadTimeout t) pm = set_dead_timeout t pm"

lemmas marks_def = mark_seen_def mark_hole_punched_def mark_connecting_def mark_dead_def update_endpoint_def
  set_endpoint_candidates_def

lemma set_timeouts_ok:
  "peers_ok pm \<Longrightarrow> peers_ok (set_keepalive_interval t pm)" "peers_ok pm \<Longrightarrow> peers_ok (set_dead_timeout t pm)"
  by (simp_all add: set_keepalive_interval_def set_dead_timeout_def peers_ok_def)

lemma peer_step_ok: "peers_ok pm \<Longrightarrow> peers_ok (peer_step c pm)"
  by (cases c) (auto simp: upsert_ok set_timeouts_ok marks_def intro!: modify_peer_ok)

lemma modify_peer_keeps:
  assumes "map_of (pm_peers pm) k = Some p" "\<And>q. identity_kept q (f q)"
  shows "\<exists>p'. map_of (pm_peers (modify_peer k' f pm)) k = Some p' \<and> identity_kept p p'"
  using assms by (auto simp: modify_peer_lookup identity_kept_def)

lemma peer_step_keeps:
  assumes "map_of (pm_peers pm) k = Some p"
  shows "\<exists>p'. map_of (pm_peers (peer_step c pm)) k = Some p' \<and> identity_kept p p'"
proof -
  have m: "\<exists>p'. map_of (pm_peers (modify_peer k' f pm)) k = Some p' \<and> identity_kept p p'"
    if "\<And>q. identity_kept q (f q)" for k' f
    using modify_peer_keeps [OF assms that] .
  have same: "identity_kept p p" by (simp add: identity_kept_def)
  show ?thesis
  proof (cases c)
    case (Upsert now k' key e tr)
    then show ?thesis using upsert_keeps [OF assms] by simp
  next
    case (SetCandidates k' cs)
    have "snd (set_endpoint_candidates k' cs pm) \<in> {pm, modify_peer k' (\<lambda>p. p\<lparr>pe_endpoint_candidates := cs\<rparr>) pm}"
      by (simp add: set_endpoint_candidates_def)
    then show ?thesis
      using SetCandidates assms same m [of "\<lambda>p. p\<lparr>pe_endpoint_candidates := cs\<rparr>" k'] by (auto simp: identity_kept_def)
  next
    case (SetKeepalive t)
    then show ?thesis using assms same by (simp add: set_keepalive_interval_def)
  next
    case (SetDeadTimeout t)
    then show ?thesis using assms same by (simp add: set_dead_timeout_def)
  qed (simp_all only: peer_step.simps marks_def, (rule m, simp add: identity_kept_def)+)
qed

lemma identity_kept_trans: "identity_kept p q \<Longrightarrow> identity_kept q r \<Longrightarrow> identity_kept p r"
  by (auto simp: identity_kept_def)

lemma peer_run_keeps:
  "map_of (pm_peers pm) k = Some p \<Longrightarrow>
    \<exists>p'. map_of (pm_peers (fold peer_step cs pm)) k = Some p' \<and> identity_kept p p'"
proof (induction cs arbitrary: pm p)
  case (Cons c cs)
  from peer_step_keeps [OF Cons.prems, of c] Cons.IH identity_kept_trans show ?case by fastforce
qed (simp add: identity_kept_def)

end
