(* ===== verification/Peer_Table.thy ===== *)
theory Peer_Table
  imports Peer_Manager Routing Wire_List
begin

text \<open>
  \<open>src/peer/peer_table.cpp\<close>: the gossip message that advertises peers by node
  id, key, hop list and prefixes, its codec, and the merge of a received table
  into the peer and routing tables.
\<close>

section \<open>Message\<close>

abbreviation PEER_TABLE_MAX_WIRE_BYTES :: nat where "PEER_TABLE_MAX_WIRE_BYTES \<equiv> 61440"
abbreviation PEER_TABLE_MAX_PEERS :: nat where "PEER_TABLE_MAX_PEERS \<equiv> 128"
abbreviation PEER_TABLE_MAX_PATH_HOPS :: nat where "PEER_TABLE_MAX_PATH_HOPS \<equiv> 8"
abbreviation PEER_TABLE_MAX_PREFIXES :: nat where "PEER_TABLE_MAX_PREFIXES \<equiv> 16"
abbreviation PEER_TABLE_VERSION :: byte where "PEER_TABLE_VERSION \<equiv> 4"
abbreviation PEER_TABLE_PREFIX_BYTES :: nat where "PEER_TABLE_PREFIX_BYTES \<equiv> 34"

record AdvertisedPrefix =
  av_prefix :: IPAddress
  av_prefix_length :: byte
  av_sequence_number :: u64
  av_lease_seconds :: u32
  av_metric :: u32

record AdvertisedPeer =
  ad_node_id :: node_id
  ad_public_key :: public_key
  ad_path :: "node_id list"
  ad_prefixes :: "AdvertisedPrefix list"

definition peer_bytes :: "AdvertisedPeer \<Rightarrow> nat" where
  "peer_bytes p = (32 + 32 + 1 + 1 + 1) + length (ad_path p) * 32 + length (ad_prefixes p) * PEER_TABLE_PREFIX_BYTES"

fun encoded_size :: "nat \<Rightarrow> AdvertisedPeer list \<Rightarrow> nat option" where
  "encoded_size n [] = Some n"
| "encoded_size n (p # ps) =
    (if length (ad_path p) > PEER_TABLE_MAX_PATH_HOPS \<or> length (ad_prefixes p) > PEER_TABLE_MAX_PREFIXES then None
     else if peer_bytes p > PEER_TABLE_MAX_WIRE_BYTES - n then None
     else encoded_size (n + peer_bytes p) ps)"

definition prefix_fields_ok :: "AdvertisedPrefix \<Rightarrow> bool" where
  "prefix_fields_ok a \<longleftrightarrow> unat (av_prefix_length a) \<le> bit_width (av_prefix a) \<and> av_sequence_number a \<noteq> 0 \<and>
     av_lease_seconds a \<noteq> 0 \<and> uint (av_lease_seconds a) \<le> ROUTE_MAX_LEASE \<and> av_metric a \<le> ROUTE_MAX_METRIC"

definition write_prefix :: "AdvertisedPrefix \<Rightarrow> wire_writer \<Rightarrow> wire_writer option" where
  "write_prefix a w =
    (if \<not> valid_family (av_prefix a) \<or> \<not> prefix_fields_ok a then None
     else do {
       w \<leftarrow> write_u8 (addr_family (av_prefix a)) w;
       w \<leftarrow> write_bytes (addr_bytes (pfx_address (make_prefix (av_prefix a) (av_prefix_length a)))) w;
       w \<leftarrow> write_u8 (av_prefix_length a) w;
       w \<leftarrow> write_u64 (av_sequence_number a) w;
       w \<leftarrow> write_u32 (av_lease_seconds a) w;
       write_u32 (av_metric a) w })"

definition write_peer :: "AdvertisedPeer \<Rightarrow> wire_writer \<Rightarrow> wire_writer option" where
  "write_peer p w = do {
     w \<leftarrow> write_bytes (ad_node_id p) w;
     w \<leftarrow> write_bytes (ad_public_key p) w;
     w \<leftarrow> write_u8 (of_nat (length (ad_path p))) w;
     w \<leftarrow> write_each write_bytes (ad_path p) w;
     w \<leftarrow> write_u8 0 w;
     w \<leftarrow> write_u8 (of_nat (length (ad_prefixes p))) w;
     write_each write_prefix (ad_prefixes p) w }"

definition serialize_peer_table :: "AdvertisedPeer list \<Rightarrow> bytes option" where
  "serialize_peer_table peers =
    (if length peers > PEER_TABLE_MAX_PEERS then None
     else do {
       n \<leftarrow> encoded_size 3 peers;
       w \<leftarrow> write_u8 PEER_TABLE_VERSION (WireWriter (replicate n 0));
       w \<leftarrow> write_u16 (of_nat (length peers)) w;
       w \<leftarrow> write_each write_peer peers w;
       if wr_finished w then Some (wr_bytes w) else None })"

definition read_prefix_address :: "byte \<Rightarrow> wire_reader \<Rightarrow> (IPAddress \<times> wire_reader) option" where
  "read_prefix_address version r =
    (if version = 3 then do {
       (legacy, r) \<leftarrow> read_u32 r;
       Some (from_ipv4 legacy, r) }
     else do {
       (family, r) \<leftarrow> read_u8 r;
       (bs, r) \<leftarrow> read_bytes 16 r;
       if family \<noteq> IPv4 \<and> family \<noteq> IPv6 then None
       else if family = IPv4 \<and> (\<exists>b \<in> set (drop 4 bs). b \<noteq> 0) then None
       else Some (\<lparr>addr_family = family, addr_bytes = bs\<rparr>, r) })"

definition read_prefix :: "byte \<Rightarrow> wire_reader \<Rightarrow> (AdvertisedPrefix \<times> wire_reader) option" where
  "read_prefix version r = do {
     (pfx, r) \<leftarrow> read_prefix_address version r;
     (prefix_length, r) \<leftarrow> read_u8 r;
     (sequence_number, r) \<leftarrow> read_u64 r;
     (lease_seconds, r) \<leftarrow> read_u32 r;
     (metric, r) \<leftarrow> read_u32 r;
     let a = \<lparr>av_prefix = pfx, av_prefix_length = prefix_length, av_sequence_number = sequence_number,
              av_lease_seconds = lease_seconds, av_metric = metric\<rparr>;
     if prefix_fields_ok a then Some (a, r) else None }"

definition read_peer :: "byte \<Rightarrow> wire_reader \<Rightarrow> (AdvertisedPeer \<times> wire_reader) option" where
  "read_peer version r = do {
     (node_id, r) \<leftarrow> read_bytes 32 r;
     (public_key, r) \<leftarrow> read_bytes 32 r;
     (path_count, r) \<leftarrow> read_u8 r;
     if unat path_count > PEER_TABLE_MAX_PATH_HOPS then None
     else do {
       (path, r) \<leftarrow> read_count (read_bytes 32) (unat path_count) r;
       (flags, r) \<leftarrow> read_u8 r;
       (prefix_count, r) \<leftarrow> read_u8 r;
       if flags \<noteq> 0 \<or> unat prefix_count > PEER_TABLE_MAX_PREFIXES then None
       else do {
         (prefixes, r) \<leftarrow> read_count (read_prefix version) (unat prefix_count) r;
         Some (\<lparr>ad_node_id = node_id, ad_public_key = public_key, ad_path = path, ad_prefixes = prefixes\<rparr>, r) } } }"

text \<open>\<open>data\<close> is \<open>None\<close> for a null pointer.\<close>

definition deserialize_peer_table :: "bytes option \<Rightarrow> AdvertisedPeer list option" where
  "deserialize_peer_table data =
    (case data of None \<Rightarrow> None
     | Some bs \<Rightarrow>
         if length bs < 3 \<or> length bs > PEER_TABLE_MAX_WIRE_BYTES then None
         else do {
           (version, r) \<leftarrow> read_u8 (WireReader bs);
           (count, r) \<leftarrow> read_u16 r;
           if (version \<noteq> 3 \<and> version \<noteq> PEER_TABLE_VERSION) \<or> unat count > PEER_TABLE_MAX_PEERS then None
           else do {
             (peers, r) \<leftarrow> read_count (read_peer version) (unat count) r;
             if rd_finished r then Some peers else None } })"

section \<open>Merge\<close>

record PeerTableMergeStats =
  ms_accepted :: nat
  ms_peers_changed :: nat
  ms_routes_installed :: nat
  ms_malformed :: nat
  ms_stale_rejected :: nat
  ms_conflicting :: nat
  ms_capacity_rejected :: nat

definition no_merge_stats :: PeerTableMergeStats where
  "no_merge_stats = \<lparr>ms_accepted = 0, ms_peers_changed = 0, ms_routes_installed = 0, ms_malformed = 0,
     ms_stale_rejected = 0, ms_conflicting = 0, ms_capacity_rejected = 0\<rparr>"

definition merge_changed :: "PeerTableMergeStats \<Rightarrow> bool" where
  "merge_changed s \<longleftrightarrow> ms_peers_changed s > 0 \<or> ms_routes_installed s > 0"

definition merge_path :: "node_id \<Rightarrow> AdvertisedPeer \<Rightarrow> node_id list" where
  "merge_path sender p = (sender # ad_path p) @ (if ad_path p = [] then [ad_node_id p] else [])"

definition merge_path_ok :: "node_id \<Rightarrow> node_id \<Rightarrow> AdvertisedPeer \<Rightarrow> bool" where
  "merge_path_ok sender self p \<longleftrightarrow> last (merge_path sender p) = ad_node_id p \<and>
     self \<notin> set (merge_path sender p) \<and> distinct (merge_path sender p)"

definition learned_route :: "node_id \<Rightarrow> AdvertisedPeer \<Rightarrow> time \<Rightarrow> AdvertisedPrefix \<Rightarrow> Route" where
  "learned_route sender p validated_at a = default_route
     \<lparr>rt_prefix := av_prefix a, rt_prefix_length := ucast (av_prefix_length a), rt_type := Relay,
      rt_next_hop := sender, rt_destination := ad_node_id p, rt_path := merge_path sender p,
      rt_origin := ad_node_id p, rt_advertiser := sender, rt_sequence_number := av_sequence_number a,
      rt_lease := uint (av_lease_seconds a), rt_metric := av_metric a + 1, rt_validated_at := validated_at\<rparr>"

definition highest_sequence :: "node_id \<Rightarrow> IPAddress \<Rightarrow> u32 \<Rightarrow> Route list \<Rightarrow> u64" where
  "highest_sequence origin canonical len routes =
     fold (\<lambda>r h. if rt_type r = Relay \<and> rt_prefix r = canonical \<and> rt_prefix_length r = len \<and> rt_origin r = origin
       then max h (rt_sequence_number r) else h) routes 0"

text \<open>One prefix of an accepted peer; the flag is \<open>malformed_routing\<close>.\<close>

definition merge_prefix ::
    "node_id \<Rightarrow> bool \<Rightarrow> AdvertisedPeer \<Rightarrow> time \<Rightarrow> AdvertisedPrefix
     \<Rightarrow> bool \<times> PeerTableMergeStats \<times> RoutingEngine \<Rightarrow> bool \<times> PeerTableMergeStats \<times> RoutingEngine" where
  "merge_prefix sender path_ok p validated_at a = (\<lambda>(malformed, st, re).
    (if unat (av_prefix_length a) > bit_width (av_prefix a) \<or> av_sequence_number a = 0 \<or> av_lease_seconds a = 0 \<or>
        uint (av_lease_seconds a) > ROUTE_MAX_LEASE \<or> av_metric a \<ge> ROUTE_MAX_METRIC then (True, st, re)
     else if \<not> path_ok then (malformed, st, re)
     else
       let route = learned_route sender p validated_at a;
           canonical = pfx_address (make_prefix (av_prefix a) (av_prefix_length a));
           highest = highest_sequence (ad_node_id p) canonical (rt_prefix_length route) (re_routes re);
           existing = find (\<lambda>c. rt_prefix c = canonical \<and> rt_prefix_length c = rt_prefix_length route \<and>
             rt_type c = Relay \<and> rt_next_hop c = sender \<and> rt_destination c = ad_node_id p) (re_routes re)
       in if rt_sequence_number route < highest
          then (malformed, st\<lparr>ms_stale_rejected := ms_stale_rejected st + 1\<rparr>, re)
          else if (case existing of None \<Rightarrow> False
              | Some e \<Rightarrow> rt_sequence_number route = rt_sequence_number e \<and>
                  (rt_path route \<noteq> rt_path e \<or> rt_metric route \<noteq> rt_metric e)) then (True, st, re)
          else if (case existing of None \<Rightarrow> False | Some e \<Rightarrow> rt_sequence_number route = rt_sequence_number e)
          then (malformed, st, snd (add_route route re))
          else
            let re = (if rt_sequence_number route > highest
                then snd (remove_older_learned_routes (rt_origin route) (rt_prefix route) (rt_prefix_length route)
                   (rt_sequence_number route) re) else re);
              (added, re) = add_route route re
            in (malformed, if added then st\<lparr>ms_routes_installed := ms_routes_installed st + 1\<rparr>
                  else st\<lparr>ms_capacity_rejected := ms_capacity_rejected st + 1\<rparr>, re)))"

text \<open>\<open>hash\<close> is \<open>hash_public_key\<close>, the truncated BLAKE2b digest of the key.\<close>

definition merge_peer ::
    "(public_key \<Rightarrow> node_id) \<Rightarrow> time \<Rightarrow> node_id \<Rightarrow> node_id \<Rightarrow> time \<Rightarrow> AdvertisedPeer
     \<Rightarrow> PeerTableMergeStats \<times> PeerManager \<times> RoutingEngine \<Rightarrow> PeerTableMergeStats \<times> PeerManager \<times> RoutingEngine" where
  "merge_peer hash now sender self validated_at p = (\<lambda>(st, pm, re).
    (if ad_node_id p = self \<or> ad_node_id p = sender then (st, pm, re)
     else if length (ad_path p) > PEER_TABLE_MAX_PATH_HOPS \<or> length (ad_prefixes p) > PEER_TABLE_MAX_PREFIXES
     then (st\<lparr>ms_malformed := ms_malformed st + 1\<rparr>, pm, re)
     else if is_empty_key (ad_public_key p) \<or> hash (ad_public_key p) \<noteq> ad_node_id p
     then (st\<lparr>ms_malformed := ms_malformed st + 1\<rparr>, pm, re)
     else
       let (result, pm) = upsert now (ad_node_id p) (ad_public_key p) None False pm in
       if result = IdentityConflict then (st\<lparr>ms_conflicting := ms_conflicting st + 1\<rparr>, pm, re)
       else if result = CapacityRejected then (st\<lparr>ms_capacity_rejected := ms_capacity_rejected st + 1\<rparr>, pm, re)
       else
         let st = st\<lparr>ms_accepted := ms_accepted st + 1,
               ms_peers_changed := ms_peers_changed st + (if result = Inserted \<or> result = IdentityBound then 1 else 0)\<rparr>;
             path_ok = merge_path_ok sender self p;
             (malformed, st, re) = fold (merge_prefix sender path_ok p validated_at) (ad_prefixes p) (\<not> path_ok, st, re)
         in (if malformed then st\<lparr>ms_malformed := ms_malformed st + 1\<rparr> else st, pm, re)))"

definition merge_peer_table ::
    "(public_key \<Rightarrow> node_id) \<Rightarrow> time \<Rightarrow> PeerManager \<Rightarrow> RoutingEngine \<Rightarrow> AdvertisedPeer list \<Rightarrow> node_id \<Rightarrow> node_id
     \<Rightarrow> time \<Rightarrow> PeerTableMergeStats \<times> PeerManager \<times> RoutingEngine" where
  "merge_peer_table hash now pm re advertised sender self validated_at =
     fold (merge_peer hash now sender self validated_at) advertised (no_merge_stats, pm, re)"

end
