(* ===== verification/Peer_Table_Codec.thy ===== *)
theory Peer_Table_Codec
  imports Peer_Table
begin

text \<open>
  The peer table on the wire: whatever is serialized, every receiver accepts,
  and reads the same peers with their prefixes in canonical form.
\<close>

section \<open>Entries\<close>

definition norm_prefix :: "AdvertisedPrefix \<Rightarrow> AdvertisedPrefix" where
  "norm_prefix a = a\<lparr>av_prefix := pfx_address (make_prefix (av_prefix a) (av_prefix_length a))\<rparr>"

definition norm_peer :: "AdvertisedPeer \<Rightarrow> AdvertisedPeer" where
  "norm_peer p = p\<lparr>ad_prefixes := map norm_prefix (ad_prefixes p)\<rparr>"

definition wf_prefix :: "AdvertisedPrefix \<Rightarrow> bool" where
  "wf_prefix a \<longleftrightarrow> valid_family (av_prefix a) \<and> prefix_fields_ok a \<and> length (addr_bytes (av_prefix a)) = 16"

definition prefix_bytes :: "AdvertisedPrefix \<Rightarrow> bytes" where
  "prefix_bytes a = addr_family (av_prefix a) # addr_bytes (av_prefix (norm_prefix a)) @
     av_prefix_length a # be64 (av_sequence_number a) @ be32 (av_lease_seconds a) @ be32 (av_metric a)"

lemma norm_prefix_fields [simp]:
  "addr_family (av_prefix (norm_prefix a)) = addr_family (av_prefix a)"
  "length (addr_bytes (av_prefix (norm_prefix a))) = length (addr_bytes (av_prefix a))"
  "av_prefix_length (norm_prefix a) = av_prefix_length a" "av_sequence_number (norm_prefix a) = av_sequence_number a"
  "av_lease_seconds (norm_prefix a) = av_lease_seconds a" "av_metric (norm_prefix a) = av_metric a"
  by (simp_all add: norm_prefix_def make_prefix_def)

lemma prefix_fields_ok_norm [simp]: "prefix_fields_ok (norm_prefix a) = prefix_fields_ok a"
  by (simp add: prefix_fields_ok_def bit_width_def)

lemma length_prefix_bytes: "wf_prefix a \<Longrightarrow> length (prefix_bytes a) = PEER_TABLE_PREFIX_BYTES"
  by (simp add: prefix_bytes_def wf_prefix_def)

lemma norm_prefix_tail:
  assumes "wf_prefix a" "addr_family (av_prefix a) = IPv4"
  shows "b \<in> set (drop 4 (addr_bytes (av_prefix (norm_prefix a)))) \<Longrightarrow> b = 0"
proof -
  let ?p = "\<lparr>pfx_address = av_prefix a, pfx_length = av_prefix_length a\<rparr>"
  have v: "valid_prefix ?p" "length (addr_bytes (av_prefix a)) = 16"
    using assms by (simp_all add: valid_prefix_def wf_prefix_def prefix_fields_ok_def)
  have n: "unat (av_prefix_length a) \<le> 32"
    using assms by (simp add: wf_prefix_def prefix_fields_ok_def bit_width_def)
  assume "b \<in> set (drop 4 (addr_bytes (av_prefix (norm_prefix a))))"
  then obtain i where i: "i < 12" "b = addr_bytes (av_prefix (norm_prefix a)) ! (i + 4)"
    using v(2) by (auto simp: in_set_conv_nth add.commute)
  have "unat (av_prefix_length a) div 8 \<le> 4" using n by simp
  moreover have "unat (av_prefix_length a) div 8 = 4 \<Longrightarrow> unat (av_prefix_length a) mod 8 = 0" using n by presburger
  ultimately show "b = 0"
    using i addr_bytes_canonicalize [OF v(1), of "i + 4"] v(2)
    by (auto simp: norm_prefix_def make_prefix_def)
qed

interpretation prefix_stream: entry_stream wf_prefix prefix_bytes write_prefix "read_prefix 4" norm_prefix
proof
  fix a and free out :: bytes
  assume w: "wf_prefix a" and l: "length (prefix_bytes a) \<le> length free"
  have "addr_bytes (pfx_address (make_prefix (av_prefix a) (av_prefix_length a))) = addr_bytes (av_prefix (norm_prefix a))"
    by (simp add: norm_prefix_def)
  then show "write_prefix a (writer_at out free) =
      Some (writer_at (out @ prefix_bytes a) (drop (length (prefix_bytes a)) free))"
    using w l length_prefix_bytes [OF w]
    by (simp add: write_prefix_def prefix_bytes_def wire_simps wf_prefix_def) arith
next
  fix a and pre t :: bytes
  assume w: "wf_prefix a"
  then have "length (addr_bytes (av_prefix (norm_prefix a))) = 16" by (simp add: wf_prefix_def)
  moreover have "addr_family (av_prefix a) = IPv4 \<or> addr_family (av_prefix a) = IPv6"
    using w by (simp add: wf_prefix_def valid_family_def)
  moreover have eta: "\<lparr>addr_family = addr_family (av_prefix a), addr_bytes = addr_bytes (av_prefix (norm_prefix a))\<rparr> =
      av_prefix (norm_prefix a)"
    by (rule IPAddress.equality) simp_all
  moreover have "\<lparr>av_prefix = av_prefix (norm_prefix a), av_prefix_length = av_prefix_length a,
      av_sequence_number = av_sequence_number a, av_lease_seconds = av_lease_seconds a, av_metric = av_metric a\<rparr> = norm_prefix a"
    by (rule AdvertisedPrefix.equality) simp_all
  moreover have "prefix_fields_ok a" using w by (simp add: wf_prefix_def)
  ultimately show "read_prefix 4 (reader_at pre (prefix_bytes a @ t)) = Some (norm_prefix a, reader_at (pre @ prefix_bytes a) t)"
    using norm_prefix_tail [OF w]
    by (auto simp: read_prefix_def read_prefix_address_def prefix_bytes_def wire_simps Let_def
        prefix_fields_ok_def bit_width_def)
qed

interpretation hop_stream: entry_stream "\<lambda>h. length h = 32" "\<lambda>h. h" write_bytes "read_bytes 32" "\<lambda>h. h"
  by unfold_locales (simp_all add: wire_simps)

definition wf_peer :: "AdvertisedPeer \<Rightarrow> bool" where
  "wf_peer p \<longleftrightarrow> length (ad_node_id p) = 32 \<and> length (ad_public_key p) = 32 \<and>
     (\<forall>h \<in> set (ad_path p). length h = 32) \<and> length (ad_path p) \<le> PEER_TABLE_MAX_PATH_HOPS \<and>
     (\<forall>a \<in> set (ad_prefixes p). wf_prefix a) \<and> length (ad_prefixes p) \<le> PEER_TABLE_MAX_PREFIXES"

definition peer_encoding :: "AdvertisedPeer \<Rightarrow> bytes" where
  "peer_encoding p = ad_node_id p @ ad_public_key p @ of_nat (length (ad_path p)) # hop_stream.enc_all (ad_path p) @
     0 # of_nat (length (ad_prefixes p)) # prefix_stream.enc_all (ad_prefixes p)"

lemma length_peer_encoding:
  assumes "wf_peer p"
  shows "length (peer_encoding p) = peer_bytes p"
proof -
  have "length (hop_stream.enc_all (ad_path p)) = length (ad_path p) * 32"
    "length (prefix_stream.enc_all (ad_prefixes p)) = length (ad_prefixes p) * PEER_TABLE_PREFIX_BYTES"
    using assms by (auto simp: wf_peer_def intro!: hop_stream.length_enc_all prefix_stream.length_enc_all length_prefix_bytes)
  then show ?thesis using assms by (simp add: peer_encoding_def peer_bytes_def wf_peer_def)
qed

lemma small_count: "n \<le> 16 \<Longrightarrow> unat (of_nat n :: byte) = n"
  by (simp add: unsigned_of_nat take_bit_nat_eq_self)

interpretation peer_stream: entry_stream wf_peer peer_encoding write_peer "read_peer 4" norm_peer
proof
  fix p and free out :: bytes
  assume w: "wf_peer p" and l: "length (peer_encoding p) \<le> length free"
  have h: "\<forall>h \<in> set (ad_path p). length h = 32" "\<forall>a \<in> set (ad_prefixes p). wf_prefix a"
    using w by (simp_all add: wf_peer_def)
  show "write_peer p (writer_at out free) =
      Some (writer_at (out @ peer_encoding p) (drop (length (peer_encoding p)) free))"
    using w l
    by (simp add: write_peer_def peer_encoding_def wire_simps wf_peer_def hop_stream.put_each_at [OF h(1)]
        prefix_stream.put_each_at [OF h(2)] add.commute add.left_commute) arith
next
  fix p and pre t :: bytes
  assume w: "wf_peer p"
  have h: "\<forall>h \<in> set (ad_path p). length h = 32" "\<forall>a \<in> set (ad_prefixes p). wf_prefix a"
    using w by (simp_all add: wf_peer_def)
  have n: "unat (of_nat (length (ad_path p)) :: byte) = length (ad_path p)"
    "unat (of_nat (length (ad_prefixes p)) :: byte) = length (ad_prefixes p)"
    using w by (simp_all add: wf_peer_def small_count)
  have "\<lparr>ad_node_id = ad_node_id p, ad_public_key = ad_public_key p, ad_path = ad_path p,
      ad_prefixes = map norm_prefix (ad_prefixes p)\<rparr> = norm_peer p"
    by (simp add: norm_peer_def)
  then show "read_peer 4 (reader_at pre (peer_encoding p @ t)) = Some (norm_peer p, reader_at (pre @ peer_encoding p) t)"
    using w by (simp add: read_peer_def peer_encoding_def wire_simps wf_peer_def n hop_stream.get_each_at [OF h(1)]
        prefix_stream.get_each_at [OF h(2)])
qed

section \<open>Tables\<close>

text \<open>What the fixed-size arrays of the sources guarantee.\<close>

definition sized_peer :: "AdvertisedPeer \<Rightarrow> bool" where
  "sized_peer p \<longleftrightarrow> length (ad_node_id p) = 32 \<and> length (ad_public_key p) = 32 \<and>
     (\<forall>h \<in> set (ad_path p). length h = 32) \<and> (\<forall>a \<in> set (ad_prefixes p). length (addr_bytes (av_prefix a)) = 16)"

lemma encoded_size_SomeD:
  "encoded_size n ps = Some m \<Longrightarrow> n \<le> PEER_TABLE_MAX_WIRE_BYTES \<Longrightarrow>
    m = n + sum_list (map peer_bytes ps) \<and> m \<le> PEER_TABLE_MAX_WIRE_BYTES \<and>
    (\<forall>p \<in> set ps. length (ad_path p) \<le> PEER_TABLE_MAX_PATH_HOPS \<and> length (ad_prefixes p) \<le> PEER_TABLE_MAX_PREFIXES)"
proof (induction ps arbitrary: n)
  case (Cons p ps)
  then have "encoded_size (n + peer_bytes p) ps = Some m" "n + peer_bytes p \<le> PEER_TABLE_MAX_WIRE_BYTES"
    "length (ad_path p) \<le> PEER_TABLE_MAX_PATH_HOPS" "length (ad_prefixes p) \<le> PEER_TABLE_MAX_PREFIXES"
    by (auto split: if_splits)
  with Cons.IH [of "n + peer_bytes p"] show ?case by simp
qed simp

lemma write_prefix_SomeD: "write_prefix a w = Some w' \<Longrightarrow> length (addr_bytes (av_prefix a)) = 16 \<Longrightarrow> wf_prefix a"
  by (auto simp: write_prefix_def wf_prefix_def split: if_splits)

lemma write_peer_SomeD:
  assumes "write_peer p w = Some w'" "sized_peer p"
    and "length (ad_path p) \<le> PEER_TABLE_MAX_PATH_HOPS" "length (ad_prefixes p) \<le> PEER_TABLE_MAX_PREFIXES"
  shows "wf_peer p"
proof -
  obtain v where "write_each write_prefix (ad_prefixes p) v = Some w'"
    using assms(1) by (auto simp: write_peer_def bind_eq_Some_conv)
  then have "\<forall>a \<in> set (ad_prefixes p). wf_prefix a"
    using write_each_SomeD write_prefix_SomeD assms(2) by (fastforce simp: sized_peer_def)
  then show ?thesis using assms by (simp add: wf_peer_def sized_peer_def)
qed

lemma length_table:
  "\<forall>p \<in> set peers. wf_peer p \<Longrightarrow> length (peer_stream.enc_all peers) = sum_list (map peer_bytes peers)"
  by (induction peers) (simp_all add: length_peer_encoding)

lemma serialize_eq:
  assumes "\<forall>p \<in> set peers. wf_peer p" "length peers \<le> PEER_TABLE_MAX_PEERS" "encoded_size 3 peers = Some n"
  shows "serialize_peer_table peers =
    Some (PEER_TABLE_VERSION # be16 (of_nat (length peers)) @ peer_stream.enc_all peers)"
proof -
  have "n = 3 + length (peer_stream.enc_all peers)"
    using encoded_size_SomeD [OF assms(3)] length_table [OF assms(1)] by simp
  then show ?thesis
    using assms(2,3) by (simp add: serialize_peer_table_def wire_simps peer_stream.put_each_at [OF assms(1)])
qed

lemma serialize_SomeD:
  assumes "serialize_peer_table peers = Some bs" "\<forall>p \<in> set peers. sized_peer p"
  shows "(\<forall>p \<in> set peers. wf_peer p) \<and> length peers \<le> PEER_TABLE_MAX_PEERS \<and>
    length (peer_stream.enc_all peers) \<le> PEER_TABLE_MAX_WIRE_BYTES - 3 \<and>
    bs = PEER_TABLE_VERSION # be16 (of_nat (length peers)) @ peer_stream.enc_all peers"
proof -
  obtain n w v where n: "encoded_size 3 peers = Some n" and c: "length peers \<le> PEER_TABLE_MAX_PEERS"
    and v: "write_each write_peer peers v = Some w"
    using assms(1) by (auto simp: serialize_peer_table_def bind_eq_Some_conv split: if_splits)
  note N = encoded_size_SomeD [OF n]
  have wf: "\<forall>p \<in> set peers. wf_peer p"
    using write_each_SomeD [OF v] write_peer_SomeD assms(2) N by fastforce
  then show ?thesis using N length_table [OF wf] serialize_eq [OF wf c n] c assms(1) by simp
qed

text \<open>C24: every peer table that is serialized is within the wire limit and is
  accepted by the deserializer, which returns the same peers in the same order,
  with hop lists and freshness data unchanged and every prefix in canonical
  form.\<close>

theorem peer_table_roundtrip:
  assumes "serialize_peer_table peers = Some bs" "\<forall>p \<in> set peers. sized_peer p"
  shows "deserialize_peer_table (Some bs) = Some (map norm_peer peers)"
proof -
  note S = serialize_SomeD [OF assms]
  have n: "unat (of_nat (length peers) :: u16) = length peers"
    using S by (simp add: unsigned_of_nat take_bit_nat_eq_self)
  have "\<forall>p \<in> set peers. wf_peer p" using S by simp
  then show ?thesis
    using S peer_stream.get_each_at [of peers _ "[]"]
    by (simp add: deserialize_peer_table_def wire_simps n)
qed

definition demo_advert :: AdvertisedPeer where
  "demo_advert = \<lparr>ad_node_id = replicate 32 1, ad_public_key = replicate 32 2, ad_path = [replicate 32 1],
     ad_prefixes = [\<lparr>av_prefix = from_ipv4 0x0A000005, av_prefix_length = 24, av_sequence_number = 3,
       av_lease_seconds = 90, av_metric = 1\<rparr>]\<rparr>"

theorem peer_table_roundtrip_witness:
  "\<exists>bs. serialize_peer_table [demo_advert] = Some bs \<and>
    deserialize_peer_table (Some bs) = Some (map norm_peer [demo_advert])"
proof -
  have "\<forall>p \<in> set [demo_advert]. wf_peer p"
    by (simp add: demo_advert_def wf_peer_def wf_prefix_def prefix_fields_ok_def valid_family_def bit_width_def)
  from serialize_eq [OF this] have "\<exists>bs. serialize_peer_table [demo_advert] = Some bs"
    by (simp add: demo_advert_def peer_bytes_def)
  moreover have "\<forall>p \<in> set [demo_advert]. sized_peer p" by (simp add: demo_advert_def sized_peer_def)
  ultimately show ?thesis using peer_table_roundtrip by blast
qed

end
