(* ===== verification/Gossip.thy ===== *)
theory Gossip
  imports Peer_Table "HOL-Library.Product_Lexorder"
begin

text \<open>
  \<open>src/peer/gossip.cpp\<close>: what of the peer table is sent to whom.  The delta
  tracker remembers the advertisements each recipient was sent; the batcher
  splits a logical update into messages that fit a datagram.
\<close>

section \<open>Delta tracker\<close>

definition same_advertisement :: "AdvertisedPeer \<Rightarrow> AdvertisedPeer \<Rightarrow> bool" where
  "same_advertisement a b \<longleftrightarrow> ad_node_id a = ad_node_id b \<and> ad_public_key a = ad_public_key b \<and>
     ad_path a = ad_path b \<and> ad_prefixes a = ad_prefixes b"

text \<open>The fields \<open>AdvertisedPrefix::operator<\<close> compares, in its order.\<close>

definition prefix_key :: "AdvertisedPrefix \<Rightarrow> byte \<times> bytes \<times> byte \<times> u64 \<times> u32 \<times> u32" where
  "prefix_key a = (addr_family (av_prefix a), addr_bytes (av_prefix a), av_prefix_length a,
     av_sequence_number a, av_lease_seconds a, av_metric a)"

definition canonicalize_peer :: "AdvertisedPeer \<Rightarrow> AdvertisedPeer" where
  "canonicalize_peer p = p\<lparr>ad_prefixes := remdups_adj (sort_key prefix_key (ad_prefixes p))\<rparr>"

record GossipUpdate =
  gu_peer :: AdvertisedPeer
  gu_revision :: u64

record GossipDeltaTracker =
  gd_current :: "(node_id, AdvertisedPeer \<times> u64) std_map"
  gd_sent :: "(node_id, (node_id, u64) std_map) std_map"
  gd_next_revision :: u64

definition new_GossipDeltaTracker :: GossipDeltaTracker where
  "new_GossipDeltaTracker = \<lparr>gd_current = [], gd_sent = [], gd_next_revision = 1\<rparr>"

definition canonical_table :: "AdvertisedPeer list \<Rightarrow> (node_id, AdvertisedPeer) std_map" where
  "canonical_table current = fold (\<lambda>p m. map_put (ad_node_id p) (canonicalize_peer p) m) current []"

definition refresh_entry ::
    "node_id \<times> AdvertisedPeer \<Rightarrow> (node_id, AdvertisedPeer \<times> u64) std_map \<times> u64
     \<Rightarrow> (node_id, AdvertisedPeer \<times> u64) std_map \<times> u64" where
  "refresh_entry = (\<lambda>(k, p) (m, nr).
     if (case map_of m k of None \<Rightarrow> True | Some (q, _) \<Rightarrow> \<not> same_advertisement q p)
     then (map_put k (p, nr) m, nr + 1) else (m, nr))"

definition refresh :: "AdvertisedPeer list \<Rightarrow> GossipDeltaTracker \<Rightarrow> GossipDeltaTracker" where
  "refresh current t =
    (let canonical = canonical_table current;
         kept = map_erase_if (\<lambda>e. \<not> map_contains (fst e) canonical) (gd_current t);
         (cur, nr) = fold refresh_entry canonical (kept, gd_next_revision t);
         sent = map (\<lambda>(r, revs). (r, map_erase_if (\<lambda>e. \<not> map_contains (fst e) cur) revs)) (gd_sent t)
     in \<lparr>gd_current = cur, gd_sent = sent, gd_next_revision = nr\<rparr>)"

definition already_sent :: "node_id \<Rightarrow> GossipDeltaTracker \<Rightarrow> node_id \<Rightarrow> u64 \<Rightarrow> bool" where
  "already_sent recipient t k r = (case map_of (gd_sent t) recipient of None \<Rightarrow> False
     | Some revs \<Rightarrow> map_of revs k = Some r)"

definition gossip_prepare ::
    "node_id \<Rightarrow> AdvertisedPeer list \<Rightarrow> bool \<Rightarrow> GossipDeltaTracker \<Rightarrow> GossipUpdate list \<times> GossipDeltaTracker" where
  "gossip_prepare recipient current force_full t =
    (let t = refresh current t in
     (map (\<lambda>(k, p, r). \<lparr>gu_peer = p, gu_revision = r\<rparr>)
        (filter (\<lambda>(k, p, r). force_full \<or> \<not> already_sent recipient t k r) (gd_current t)), t))"

definition gossip_commit :: "node_id \<Rightarrow> (node_id \<times> u64) list \<Rightarrow> GossipDeltaTracker \<Rightarrow> GossipDeltaTracker" where
  "gossip_commit recipient revisions t =
    (let revs = (case map_of (gd_sent t) recipient of None \<Rightarrow> [] | Some revs \<Rightarrow> revs);
         revs = fold (\<lambda>(k, r) m. map_put k (max (case map_of m k of None \<Rightarrow> 0 | Some c \<Rightarrow> c) r) m) revisions revs
     in t\<lparr>gd_sent := map_put recipient revs (gd_sent t)\<rparr>)"

definition retain_recipients :: "node_id list \<Rightarrow> GossipDeltaTracker \<Rightarrow> GossipDeltaTracker" where
  "retain_recipients recipients t = t\<lparr>gd_sent := map_erase_if (\<lambda>e. fst e \<notin> set recipients) (gd_sent t)\<rparr>"

definition reset_gossip :: "GossipDeltaTracker \<Rightarrow> GossipDeltaTracker" where
  "reset_gossip t = new_GossipDeltaTracker"

definition recipient_count :: "GossipDeltaTracker \<Rightarrow> nat" where
  "recipient_count t = length (gd_sent t)"

section \<open>Batches\<close>

record GossipBatch =
  gb_peers :: "AdvertisedPeer list"
  gb_completed :: "(node_id \<times> u64) list"

definition part_count :: "nat \<Rightarrow> nat" where
  "part_count prefix_count = max 1 ((prefix_count + PEER_TABLE_MAX_PREFIXES - 1) div PEER_TABLE_MAX_PREFIXES)"

definition peer_chunk :: "AdvertisedPeer \<Rightarrow> nat \<Rightarrow> AdvertisedPeer" where
  "peer_chunk p part =
    (let n = length (ad_prefixes p); begin = part * PEER_TABLE_MAX_PREFIXES;
         finish = min n (begin + PEER_TABLE_MAX_PREFIXES)
     in if begin < finish then p\<lparr>ad_prefixes := take (finish - begin) (drop begin (ad_prefixes p))\<rparr>
        else p\<lparr>ad_prefixes := []\<rparr>)"

definition fits :: "nat \<Rightarrow> AdvertisedPeer list \<Rightarrow> bool" where
  "fits max_payload peers = (case serialize_peer_table peers of None \<Rightarrow> False | Some bs \<Rightarrow> length bs \<le> max_payload)"

definition peer_chunks :: "AdvertisedPeer \<Rightarrow> AdvertisedPeer list" where
  "peer_chunks p = map (peer_chunk p) [0..<part_count (length (ad_prefixes p))]"

definition flush_batch :: "GossipBatch list \<times> GossipBatch \<Rightarrow> GossipBatch list \<times> GossipBatch" where
  "flush_batch = (\<lambda>(batches, current).
     if gb_peers current \<noteq> [] then (batches @ [current], \<lparr>gb_peers = [], gb_completed = []\<rparr>) else (batches, current))"

text \<open>The loop over the parts of one update; \<open>done\<close> is the revision to record with the last one.\<close>

fun pack_chunks ::
    "nat \<Rightarrow> node_id \<times> u64 \<Rightarrow> AdvertisedPeer list \<Rightarrow> GossipBatch list \<times> GossipBatch \<Rightarrow> GossipBatch list \<times> GossipBatch" where
  "pack_chunks max_payload r [] s = s"
| "pack_chunks max_payload r (chunk # chunks) (batches, current) =
    (let (batches, current) =
           (if fits max_payload (gb_peers current @ [chunk]) then (batches, current) else flush_batch (batches, current));
         current = \<lparr>gb_peers = gb_peers current @ [chunk],
           gb_completed = gb_completed current @ (if chunks = [] then [r] else [])\<rparr>
     in pack_chunks max_payload r chunks (batches, current))"

definition pack_update ::
    "nat \<Rightarrow> GossipUpdate \<Rightarrow> GossipBatch list \<times> GossipBatch \<Rightarrow> GossipBatch list \<times> GossipBatch" where
  "pack_update max_payload u s =
    (if length (ad_path (gu_peer u)) > PEER_TABLE_MAX_PATH_HOPS then s
     else if \<not> list_all (\<lambda>c. fits max_payload [c]) (peer_chunks (gu_peer u)) then s
     else pack_chunks max_payload (ad_node_id (gu_peer u), gu_revision u) (peer_chunks (gu_peer u)) s)"

definition make_gossip_batches :: "GossipUpdate list \<Rightarrow> nat \<Rightarrow> GossipBatch list" where
  "make_gossip_batches updates max_payload_bytes =
    (let m = min max_payload_bytes PEER_TABLE_MAX_WIRE_BYTES in
     if m < 3 then []
     else fst (flush_batch (fold (pack_update m) updates ([], \<lparr>gb_peers = [], gb_completed = []\<rparr>))))"

section \<open>Interval\<close>

abbreviation GOSSIP_BASE_INTERVAL :: time where "GOSSIP_BASE_INTERVAL \<equiv> 3000"
abbreviation GOSSIP_JITTER :: time where "GOSSIP_JITTER \<equiv> 600"
abbreviation GOSSIP_FULL_RESYNC_ROUNDS :: nat where "GOSSIP_FULL_RESYNC_ROUNDS \<equiv> 10"

definition jittered_gossip_interval :: "u64 option \<Rightarrow> time \<Rightarrow> time \<Rightarrow> time" where
  "jittered_gossip_interval sample base jitter =
    (case sample of None \<Rightarrow> base
     | Some s \<Rightarrow>
         if base \<le> 0 \<or> jitter < 0 \<or> jitter > base then base
         else if jitter > (2 ^ 64 - 1 - 1) div 2 then base
         else base + (uint s mod (jitter * 2 + 1) - jitter))"

lemma jittered_interval_bounds:
  "0 < base \<Longrightarrow> 0 \<le> jitter \<Longrightarrow> jitter \<le> base \<Longrightarrow>
    base - jitter \<le> jittered_gossip_interval sample base jitter \<and> jittered_gossip_interval sample base jitter \<le> base + jitter"
proof -
  assume a: "0 < base" "0 \<le> jitter" "jitter \<le> base"
  have "0 \<le> x mod (jitter * 2 + 1) \<and> x mod (jitter * 2 + 1) \<le> 2 * jitter" for x
    using a pos_mod_bound [of "jitter * 2 + 1" x] by simp
  then show ?thesis using a by (auto simp: jittered_gossip_interval_def split: option.split)
qed

section \<open>What the batches carry\<close>

text \<open>The reference: the parts of an update in order, the last one with the revision it
  completes.  Every batch is a segment of that stream.\<close>

fun tag_chunks :: "node_id \<times> u64 \<Rightarrow> AdvertisedPeer list \<Rightarrow> (AdvertisedPeer \<times> (node_id \<times> u64) option) list" where
  "tag_chunks r [] = []"
| "tag_chunks r (c # cs) = (c, if cs = [] then Some r else None) # tag_chunks r cs"

definition update_key :: "GossipUpdate \<Rightarrow> node_id \<times> u64" where
  "update_key u = (ad_node_id (gu_peer u), gu_revision u)"

definition tagged_update :: "GossipUpdate \<Rightarrow> (AdvertisedPeer \<times> (node_id \<times> u64) option) list" where
  "tagged_update u = tag_chunks (update_key u) (peer_chunks (gu_peer u))"

definition packable :: "nat \<Rightarrow> GossipUpdate \<Rightarrow> bool" where
  "packable m u \<longleftrightarrow> length (ad_path (gu_peer u)) \<le> PEER_TABLE_MAX_PATH_HOPS \<and>
     list_all (\<lambda>c. fits m [c]) (peer_chunks (gu_peer u))"

definition batch_of :: "(AdvertisedPeer \<times> (node_id \<times> u64) option) list \<Rightarrow> GossipBatch" where
  "batch_of part = \<lparr>gb_peers = map fst part, gb_completed = List.map_filter snd part\<rparr>"

definition packed ::
    "nat \<Rightarrow> (AdvertisedPeer \<times> (node_id \<times> u64) option) list \<Rightarrow> GossipBatch list \<times> GossipBatch \<Rightarrow> bool" where
  "packed m stream s \<longleftrightarrow> (\<exists>parts part. concat parts @ part = stream \<and>
     s = (map batch_of parts, batch_of part) \<and>
     (\<forall>p \<in> set parts. p \<noteq> [] \<and> fits m (map fst p)) \<and> (part = [] \<or> fits m (map fst part)))"

lemma batch_of_simps [simp]:
  "gb_peers (batch_of part) = map fst part"
  "gb_completed (batch_of part) = List.map_filter snd part"
  "batch_of [] = \<lparr>gb_peers = [], gb_completed = []\<rparr>"
  by (simp_all add: batch_of_def)

lemma packed_start: "packed m [] ([], \<lparr>gb_peers = [], gb_completed = []\<rparr>)"
  unfolding packed_def by (rule exI [of _ "[]"], rule exI [of _ "[]"]) simp

lemma packedE:
  assumes "packed m stream s"
  obtains parts part where "concat parts @ part = stream" "s = (map batch_of parts, batch_of part)"
    "\<forall>p \<in> set parts. p \<noteq> [] \<and> fits m (map fst p)" "part = [] \<or> fits m (map fst part)"
  using assms unfolding packed_def by blast

lemma flush_batch_packed:
  assumes "packed m stream s"
  obtains parts where "concat parts = stream" "flush_batch s = (map batch_of parts, batch_of [])"
    "\<forall>p \<in> set parts. p \<noteq> [] \<and> fits m (map fst p)"
proof -
  obtain parts part where p: "concat parts @ part = stream" "s = (map batch_of parts, batch_of part)"
    "\<forall>p \<in> set parts. p \<noteq> [] \<and> fits m (map fst p)" "part = [] \<or> fits m (map fst part)"
    using assms by (rule packedE)
  show thesis
  proof (cases "part = []")
    case True
    with p that [of parts] show ?thesis by (simp add: flush_batch_def)
  next
    case False
    with p that [of "parts @ [part]"] show ?thesis by (simp add: flush_batch_def)
  qed
qed

lemma append_packed:
  assumes "packed m stream s" "fits m [c]"
  shows "packed m (stream @ [(c, r)])
    (let (batches, current) = (if fits m (gb_peers (snd s) @ [c]) then s else flush_batch s)
     in (batches, \<lparr>gb_peers = gb_peers current @ [c],
           gb_completed = gb_completed current @ (case r of None \<Rightarrow> [] | Some x \<Rightarrow> [x])\<rparr>))"
proof (cases "fits m (gb_peers (snd s) @ [c])")
  case True
  obtain parts part where p: "concat parts @ part = stream" "s = (map batch_of parts, batch_of part)"
    "\<forall>p \<in> set parts. p \<noteq> [] \<and> fits m (map fst p)" "part = [] \<or> fits m (map fst part)"
    using assms(1) by (rule packedE)
  show ?thesis unfolding packed_def
    by (rule exI [of _ parts], rule exI [of _ "part @ [(c, r)]"])
      (use p True in \<open>auto simp: batch_of_def map_filter_def split: option.split\<close>)
next
  case False
  obtain parts where p: "concat parts = stream" "flush_batch s = (map batch_of parts, batch_of [])"
    "\<forall>p \<in> set parts. p \<noteq> [] \<and> fits m (map fst p)"
    using assms(1) by (rule flush_batch_packed)
  show ?thesis unfolding packed_def
    by (rule exI [of _ parts], rule exI [of _ "[(c, r)]"])
      (use p False assms(2) in \<open>auto simp: batch_of_def map_filter_def split: option.split\<close>)
qed

lemma pack_chunks_packed:
  "packed m stream s \<Longrightarrow> list_all (\<lambda>c. fits m [c]) chunks \<Longrightarrow>
    packed m (stream @ tag_chunks r chunks) (pack_chunks m r chunks s)"
proof (induction chunks arbitrary: s stream)
  case (Cons c chunks)
  obtain batches current where s: "s = (batches, current)" by fastforce
  have "fits m [c]" "list_all (\<lambda>c. fits m [c]) chunks" using Cons.prems by simp_all
  from Cons.IH [OF append_packed [OF Cons.prems(1) this(1), of "if chunks = [] then Some r else None"] this(2)]
  show ?case
    by (cases "chunks = []"; cases "fits m (gb_peers current @ [c])") (simp_all add: s Let_def split_beta)
qed simp

lemma pack_updates_packed:
  "packed m stream s \<Longrightarrow>
    packed m (stream @ concat (map tagged_update (filter (packable m) us))) (fold (pack_update m) us s)"
proof (induction us arbitrary: s stream)
  case (Cons u us)
  show ?case
  proof (cases "packable m u")
    case True
    then have "pack_update m u s = pack_chunks m (update_key u) (peer_chunks (gu_peer u)) s"
      by (simp add: pack_update_def packable_def update_key_def)
    moreover have "packed m (stream @ tagged_update u) (pack_chunks m (update_key u) (peer_chunks (gu_peer u)) s)"
      using pack_chunks_packed [OF Cons.prems] True by (simp add: tagged_update_def packable_def)
    ultimately show ?thesis using Cons.IH [of "stream @ tagged_update u"] True by simp
  next
    case False
    then have "pack_update m u s = s" by (auto simp: pack_update_def packable_def)
    with Cons False show ?thesis by simp
  qed
qed simp

lemma make_batches_parts:
  assumes "3 \<le> max_payload" "m = min max_payload PEER_TABLE_MAX_WIRE_BYTES"
  obtains parts where "make_gossip_batches us max_payload = map batch_of parts"
    "concat parts = concat (map tagged_update (filter (packable m) us))"
    "\<forall>p \<in> set parts. p \<noteq> [] \<and> fits m (map fst p)"
proof -
  have "packed m (concat (map tagged_update (filter (packable m) us)))
      (fold (pack_update m) us ([], \<lparr>gb_peers = [], gb_completed = []\<rparr>))"
    using pack_updates_packed [OF packed_start, of m us] by simp
  then obtain parts where "concat parts = concat (map tagged_update (filter (packable m) us))"
    "flush_batch (fold (pack_update m) us ([], \<lparr>gb_peers = [], gb_completed = []\<rparr>)) =
       (map batch_of parts, batch_of [])" "\<forall>p \<in> set parts. p \<noteq> [] \<and> fits m (map fst p)"
    by (rule flush_batch_packed)
  with that [of parts] assms show thesis
    by (simp add: make_gossip_batches_def Let_def min_less_iff_disj)
qed

text \<open>The parts of a peer carry its prefixes in order.\<close>

lemma chunk_prefixes:
  "ad_prefixes (peer_chunk p i) =
    take PEER_TABLE_MAX_PREFIXES (drop (i * PEER_TABLE_MAX_PREFIXES) (ad_prefixes p))"
  by (auto simp: peer_chunk_def Let_def min_def)

lemma chunks_cover: "concat (map ad_prefixes (peer_chunks p)) = ad_prefixes p"
proof -
  have "length (ad_prefixes p) \<le> part_count (length (ad_prefixes p)) * PEER_TABLE_MAX_PREFIXES"
    unfolding part_count_def by arith
  then show ?thesis
    by (simp add: peer_chunks_def comp_def chunk_prefixes concat_slices)
qed

end
