(* ===== verification/Gossip_Properties.thy ===== *)
theory Gossip_Properties
  imports Gossip Peer_Table_Codec
begin

text \<open>
  Properties of gossip: the delta tracker omits only what a recipient already
  has and settles once everything prepared was committed; the batches carry the
  prepared updates.
\<close>

section \<open>Refreshing the table\<close>

lemma same_advertisement_eq: "same_advertisement a b \<longleftrightarrow> a = b"
  by (cases a; cases b) (auto simp: same_advertisement_def)

lemma canonicalize_peer_id [simp]: "ad_node_id (canonicalize_peer p) = ad_node_id p"
  by (simp add: canonicalize_peer_def)

lemma fold_puts_ok:
  "map_ok m \<Longrightarrow> map_ok (fold (\<lambda>p m. map_put (f p) (g p) m) ps m) \<and>
    length (fold (\<lambda>p m. map_put (f p) (g p) m) ps m) \<le> length m + length ps"
proof (induction ps arbitrary: m)
  case (Cons p ps)
  then have "map_ok (map_put (f p) (g p) m)" "length (map_put (f p) (g p) m) \<le> Suc (length m)"
    by (auto simp: length_put)
  with Cons.IH [of "map_put (f p) (g p) m"] show ?case by simp
qed simp

lemma canonical_table_ok:
  "map_ok (canonical_table current)" "length (canonical_table current) \<le> length current"
  using fold_puts_ok [of "[]" ad_node_id canonicalize_peer current] by (simp_all add: canonical_table_def)

lemma keyed_put:
  "ad_node_id v = k \<Longrightarrow> \<forall>e \<in> set m. ad_node_id (snd e) = fst e \<Longrightarrow>
    \<forall>e \<in> set (map_put k v m). ad_node_id (snd e) = fst e"
  by (induction k v m rule: map_put.induct) auto

lemma canonical_table_keyed: "\<forall>e \<in> set (canonical_table current). ad_node_id (snd e) = fst e"
proof -
  have "\<forall>e \<in> set m. ad_node_id (snd e) = fst e \<Longrightarrow>
    \<forall>e \<in> set (fold (\<lambda>p m. map_put (ad_node_id p) (canonicalize_peer p) m) ps m). ad_node_id (snd e) = fst e" for ps m
  proof (induction ps arbitrary: m)
    case (Cons p ps)
    from Cons.IH [OF keyed_put [OF canonicalize_peer_id Cons.prems]] show ?case by simp
  qed simp
  from this [of "[]" current] show ?thesis by (simp add: canonical_table_def)
qed

text \<open>One pass over the canonical table: an unchanged advertisement keeps its revision, a
  new one takes a revision above every earlier one.\<close>

lemma refresh_entries:
  assumes "distinct (map fst cs)" "unat n + length cs < 2 ^ 64" "fold refresh_entry cs (m, n) = (m', n')" "map_ok m"
  shows "map_ok m' \<and> unat n \<le> unat n' \<and> unat n' \<le> unat n + length cs \<and>
    (\<forall>k. case map_of cs k of
       None \<Rightarrow> map_of m' k = map_of m k
     | Some p \<Rightarrow> (\<exists>r. map_of m' k = Some (p, r) \<and> (map_of m k = Some (p, r) \<or> unat n \<le> unat r \<and> unat r < unat n')))"
  using assms
proof (induction cs arbitrary: m n)
  case (Cons c cs)
  obtain k p where c: "c = (k, p)" by fastforce
  obtain m1 n1 where 1: "refresh_entry (k, p) (m, n) = (m1, n1)" by fastforce
  have u: "unat (n + 1) = unat n + 1" using Cons.prems(2) by (simp add: unat_word_ariths)
  have s: "map_ok m1 \<and> unat n \<le> unat n1 \<and> unat n1 \<le> unat n + 1 \<and> (\<forall>j. j \<noteq> k \<longrightarrow> map_of m1 j = map_of m j) \<and>
     (\<exists>r. map_of m1 k = Some (p, r) \<and> (map_of m k = Some (p, r) \<or> unat n \<le> unat r \<and> unat r < unat n1))"
    using 1 Cons.prems(4) u
    by (auto simp: refresh_entry_def same_advertisement_eq split: if_splits option.splits prod.splits)
  have nk: "map_of cs k = None" using Cons.prems(1) by (simp add: c map_of_eq_None_iff)
  have "distinct (map fst cs)" "unat n1 + length cs < 2 ^ 64" "fold refresh_entry cs (m1, n1) = (m', n')" "map_ok m1"
    using Cons.prems s by (simp_all add: c 1)
  note IH = Cons.IH [OF this]
  show ?case
  proof (intro conjI allI)
    fix j
    show "case map_of (c # cs) j of None \<Rightarrow> map_of m' j = map_of m j
      | Some p \<Rightarrow> \<exists>r. map_of m' j = Some (p, r) \<and> (map_of m j = Some (p, r) \<or> unat n \<le> unat r \<and> unat r < unat n')"
    proof (cases "j = k")
      case True
      with IH nk have "map_of m' k = map_of m1 k" "unat n1 \<le> unat n'" by (auto dest: spec [of _ k])
      with s True show ?thesis by (auto simp: c)
    next
      case False
      with s have "map_of m1 j = map_of m j" by blast
      with IH [THEN conjunct2, THEN conjunct2, THEN conjunct2, rule_format, of j] s False
      show ?thesis by (force simp: c split: option.splits)
    qed
  qed (use IH s in auto)
qed auto

lemma refresh_unchanged:
  "\<forall>(k, p) \<in> set cs. \<exists>r. map_of m k = Some (p, r) \<Longrightarrow> fold refresh_entry cs (m, n) = (m, n)"
  by (induction cs) (auto simp: refresh_entry_def same_advertisement_eq)

section \<open>Tracker invariant\<close>

text \<open>\<open>issued\<close> are the updates handed out by \<open>prepare\<close> so far, \<open>committed\<close> those recorded for a
  recipient.  A revision stands for one advertisement of its peer, and no
  issued revision is above the current one.\<close>

definition tracker_known ::
    "GossipDeltaTracker \<Rightarrow> GossipUpdate set \<Rightarrow> (node_id \<times> GossipUpdate) set \<Rightarrow> bool" where
  "tracker_known t issued committed \<longleftrightarrow>
     map_ok (gd_current t) \<and> (\<forall>e \<in> set (gd_sent t). map_ok (snd e)) \<and>
     (\<forall>k p r. map_of (gd_current t) k = Some (p, r) \<longrightarrow> ad_node_id p = k \<and> r < gd_next_revision t) \<and>
     (\<forall>u \<in> issued. gu_revision u < gd_next_revision t \<and>
        (\<forall>p r. map_of (gd_current t) (ad_node_id (gu_peer u)) = Some (p, r) \<longrightarrow>
           gu_revision u \<le> r \<and> (gu_revision u = r \<longrightarrow> gu_peer u = p))) \<and>
     (\<forall>recipient revs k r. map_of (gd_sent t) recipient = Some revs \<longrightarrow> map_of revs k = Some r \<longrightarrow>
        (\<exists>u. (recipient, u) \<in> committed \<and> update_key u = (k, r))) \<and>
     (\<forall>recipient u. (recipient, u) \<in> committed \<longrightarrow> u \<in> issued)"

lemma tracker_knownD:
  assumes "tracker_known t issued committed"
  shows "map_ok (gd_current t)" "e \<in> set (gd_sent t) \<Longrightarrow> map_ok (snd e)"
    "map_of (gd_current t) k = Some (p, r) \<Longrightarrow> ad_node_id p = k \<and> r < gd_next_revision t"
    "u \<in> issued \<Longrightarrow> gu_revision u < gd_next_revision t"
    "u \<in> issued \<Longrightarrow> map_of (gd_current t) (ad_node_id (gu_peer u)) = Some (p, r) \<Longrightarrow>
       gu_revision u \<le> r \<and> (gu_revision u = r \<longrightarrow> gu_peer u = p)"
    "map_of (gd_sent t) recipient = Some revs \<Longrightarrow> map_of revs k = Some r \<Longrightarrow>
       \<exists>u. (recipient, u) \<in> committed \<and> update_key u = (k, r)"
    "(recipient, u) \<in> committed \<Longrightarrow> u \<in> issued"
  using assms unfolding tracker_known_def by blast+

lemma refresh_current:
  assumes "map_ok (gd_current t)" "unat (gd_next_revision t) + length current < 2 ^ 64"
  shows "map_ok (gd_current (refresh current t)) \<and> gd_next_revision t \<le> gd_next_revision (refresh current t) \<and>
    (case map_of (canonical_table current) k of
       None \<Rightarrow> map_of (gd_current (refresh current t)) k = None
     | Some p \<Rightarrow> (\<exists>r. map_of (gd_current (refresh current t)) k = Some (p, r) \<and>
         (map_of (gd_current t) k = Some (p, r) \<or>
          gd_next_revision t \<le> r \<and> r < gd_next_revision (refresh current t))))"
proof -
  let ?cs = "canonical_table current"
  let ?kept = "map_erase_if (\<lambda>e. \<not> map_contains (fst e) ?cs) (gd_current t)"
  obtain m' n' where f: "fold refresh_entry ?cs (?kept, gd_next_revision t) = (m', n')" by fastforce
  have "distinct (map fst ?cs)" "unat (gd_next_revision t) + length ?cs < 2 ^ 64" "map_ok ?kept"
    using canonical_table_ok [of current] assms by (auto simp: map_ok_distinct)
  note R = refresh_entries [OF this(1,2) f this(3)]
  have t: "gd_current (refresh current t) = m'" "gd_next_revision (refresh current t) = n'"
    using f by (simp_all add: refresh_def Let_def)
  have k: "map_of ?kept k = (if map_contains k ?cs then map_of (gd_current t) k else None)"
    using assms(1) by (auto simp: map_of_erase_if split: option.splits)
  have "map_ok m'" "unat (gd_next_revision t) \<le> unat n'" using R by blast+
  with R [THEN conjunct2, THEN conjunct2, THEN conjunct2, rule_format, of k] k show ?thesis
    unfolding t map_contains_iff word_le_nat_alt word_less_nat_alt
    by (cases "map_of ?cs k") simp_all
qed

lemma refresh_sent:
  "map_of (gd_sent (refresh current t)) recipient =
    map_option (map_erase_if (\<lambda>e. \<not> map_contains (fst e) (gd_current (refresh current t)))) (map_of (gd_sent t) recipient)"
  by (simp add: refresh_def Let_def split_beta map_of_map)

lemma refresh_known:
  assumes "tracker_known t issued committed" "unat (gd_next_revision t) + length current < 2 ^ 64"
  shows "tracker_known (refresh current t) issued committed"
proof -
  note D = tracker_knownD [OF assms(1)]
  note R = refresh_current [OF D(1) assms(2)]
  have le: "gd_next_revision t \<le> gd_next_revision (refresh current t)" using R by blast
  have entry: "map_of (canonical_table current) k = Some p \<and> (map_of (gd_current t) k = Some (p, r) \<or>
      gd_next_revision t \<le> r \<and> r < gd_next_revision (refresh current t))"
    if "map_of (gd_current (refresh current t)) k = Some (p, r)" for k p r
    using that R [of k] by (auto split: option.splits)
  have key: "ad_node_id p = k" if "map_of (canonical_table current) k = Some p" for k p
    using canonical_table_keyed [of current] map_of_SomeD [OF that] by fastforce
  have sent: "\<exists>old. map_of (gd_sent t) recipient = Some old \<and> map_of old k = Some r"
    if s: "map_of (gd_sent (refresh current t)) recipient = Some revs" "map_of revs k = Some r" for recipient revs k r
  proof -
    obtain old where o: "map_of (gd_sent t) recipient = Some old"
      "revs = map_erase_if (\<lambda>e. \<not> map_contains (fst e) (gd_current (refresh current t))) old"
      using s(1) unfolding refresh_sent by auto
    have "map_ok old" using D(2) [OF map_of_SomeD [OF o(1)]] by simp
    with map_of_erase_if_SomeD [OF this s(2) [unfolded o(2)]] o(1) show ?thesis by blast
  qed
  have oks: "\<forall>e \<in> set (gd_sent (refresh current t)). map_ok (snd e)"
    using D(2) by (auto simp: refresh_def Let_def split_beta)
  show ?thesis unfolding tracker_known_def
  proof (intro conjI allI ballI impI)
    fix k p r assume "map_of (gd_current (refresh current t)) k = Some (p, r)"
    from entry [OF this] key D(3) [of k p r] le
    show "ad_node_id p = k" "r < gd_next_revision (refresh current t)" by auto
  next
    fix u assume u: "u \<in> issued"
    from D(4) [OF this] le show "gu_revision u < gd_next_revision (refresh current t)" by simp
    fix p r assume "map_of (gd_current (refresh current t)) (ad_node_id (gu_peer u)) = Some (p, r)"
    from entry [OF this] D(5) [OF u, of p r] D(4) [OF u]
    show "gu_revision u \<le> r" "gu_revision u = r \<Longrightarrow> gu_peer u = p" by auto
  next
    fix recipient revs k r
    assume "map_of (gd_sent (refresh current t)) recipient = Some revs" "map_of revs k = Some r"
    then show "\<exists>u. (recipient, u) \<in> committed \<and> update_key u = (k, r)"
      using sent D(6) by blast
  qed (use oks R D(7) in \<open>blast | force\<close>)+
qed

lemma selected_iff:
  "u \<in> set (map (\<lambda>(k, p, r). f p r) (filter (\<lambda>(k, p, r). P k r) xs)) \<longleftrightarrow>
    (\<exists>k p r. (k, p, r) \<in> set xs \<and> P k r \<and> u = f p r)"
  by (induction xs) auto

lemma prepare_eq:
  "gossip_prepare recipient current force t = (us, t') \<longleftrightarrow> t' = refresh current t \<and>
    us = map (\<lambda>(k, p, r). \<lparr>gu_peer = p, gu_revision = r\<rparr>)
      (filter (\<lambda>(k, p, r). force \<or> \<not> already_sent recipient t' k r) (gd_current t'))"
  by (auto simp: gossip_prepare_def Let_def)

lemma prepared_update:
  assumes "tracker_known (refresh current t) issued committed" "gossip_prepare recipient current force t = (us, t')"
  shows "u \<in> set us \<longleftrightarrow>
    map_of (gd_current t') (ad_node_id (gu_peer u)) = Some (gu_peer u, gu_revision u) \<and>
    (force \<or> \<not> already_sent recipient t' (ad_node_id (gu_peer u)) (gu_revision u))"
proof -
  have t': "t' = refresh current t" using assms(2) by (simp add: prepare_eq)
  note D = tracker_knownD [OF assms(1), folded t']
  have us: "us = map (\<lambda>(k, p, r). \<lparr>gu_peer = p, gu_revision = r\<rparr>)
      (filter (\<lambda>(k, p, r). force \<or> \<not> already_sent recipient t' k r) (gd_current t'))"
    using assms(2) unfolding prepare_eq by (rule conjunct2)
  have "u \<in> set us \<longleftrightarrow> (\<exists>k p r. (k, p, r) \<in> set (gd_current t') \<and>
      (force \<or> \<not> already_sent recipient t' k r) \<and> u = \<lparr>gu_peer = p, gu_revision = r\<rparr>)"
    unfolding us by (rule selected_iff)
  also have "\<dots> \<longleftrightarrow> (\<exists>k. map_of (gd_current t') k = Some (gu_peer u, gu_revision u) \<and>
      (force \<or> \<not> already_sent recipient t' k (gu_revision u)))"
    using D(1) by (cases u) (auto simp: map_ok_mem)
  also have "\<dots> \<longleftrightarrow> map_of (gd_current t') (ad_node_id (gu_peer u)) = Some (gu_peer u, gu_revision u) \<and>
    (force \<or> \<not> already_sent recipient t' (ad_node_id (gu_peer u)) (gu_revision u))"
    using D(3) by metis
  finally show ?thesis .
qed

lemma prepare_known:
  assumes "tracker_known t issued committed" "unat (gd_next_revision t) + length current < 2 ^ 64"
    and "gossip_prepare recipient current force t = (us, t')"
  shows "tracker_known t' (issued \<union> set us) committed"
proof -
  have t': "t' = refresh current t" using assms(3) by (simp add: prepare_eq)
  note K = refresh_known [OF assms(1,2)]
  note D = tracker_knownD [OF K, folded t']
  note U = prepared_update [OF K assms(3)]
  have "gu_revision u < gd_next_revision t'" if "u \<in> set us" for u
    using that D(3) unfolding U by blast
  moreover have "gu_revision u \<le> r \<and> (gu_revision u = r \<longrightarrow> gu_peer u = p)"
    if "u \<in> set us" "map_of (gd_current t') (ad_node_id (gu_peer u)) = Some (p, r)" for u p r
    using that unfolding U by simp
  ultimately show ?thesis
    using K [folded t'] unfolding tracker_known_def Un_iff by blast
qed

text \<open>The revisions a commit leaves for a recipient.\<close>

definition put_revision :: "node_id \<times> u64 \<Rightarrow> (node_id, u64) std_map \<Rightarrow> (node_id, u64) std_map" where
  "put_revision = (\<lambda>(k, r) m. map_put k (max (case map_of m k of None \<Rightarrow> 0 | Some c \<Rightarrow> c) r) m)"

lemma put_revisions:
  "map_ok m \<Longrightarrow> map_ok (fold put_revision revisions m) \<and>
    (map_of (fold put_revision revisions m) k = Some r \<longrightarrow> map_of m k = Some r \<or> (k, r) \<in> set revisions)"
proof (induction revisions arbitrary: m)
  case (Cons e revisions)
  obtain j c where e: "e = (j, c)" by fastforce
  have "map_ok (put_revision e m)" using Cons.prems by (auto simp: e put_revision_def)
  from Cons.IH [OF this] show ?case
    by (auto simp: e put_revision_def max_def split: if_splits option.splits)
qed simp

lemma put_revisions_distinct:
  "distinct (map fst revisions) \<Longrightarrow> map_of (fold put_revision revisions m) k =
    (case map_of revisions k of None \<Rightarrow> map_of m k
     | Some r \<Rightarrow> Some (max (case map_of m k of None \<Rightarrow> 0 | Some c \<Rightarrow> c) r))"
proof (induction revisions arbitrary: m)
  case (Cons e revisions)
  obtain j c where e: "e = (j, c)" by fastforce
  have "map_of revisions j = None" using Cons.prems by (simp add: e map_of_eq_None_iff)
  with Cons show ?case by (auto simp: e put_revision_def split: option.splits)
qed simp

lemma commit_eq:
  "gossip_commit recipient revisions t = t\<lparr>gd_sent := map_put recipient
     (fold put_revision revisions (case map_of (gd_sent t) recipient of None \<Rightarrow> [] | Some revs \<Rightarrow> revs)) (gd_sent t)\<rparr>"
  by (simp add: gossip_commit_def Let_def put_revision_def)

lemma commit_known:
  assumes "tracker_known t issued committed" "set us \<subseteq> issued"
  shows "tracker_known (gossip_commit recipient (map update_key us) t) issued (committed \<union> {recipient} \<times> set us)"
proof -
  let ?t = "gossip_commit recipient (map update_key us) t"
  let ?old = "case map_of (gd_sent t) recipient of None \<Rightarrow> [] | Some revs \<Rightarrow> revs"
  note D = tracker_knownD [OF assms(1)]
  have old: "map_ok ?old" using D(2) by (auto dest: map_of_SomeD split: option.splits)
  note P = put_revisions [OF old, of "map update_key us"]
  have same: "gd_current ?t = gd_current t" "gd_next_revision ?t = gd_next_revision t"
    "gd_sent ?t = map_put recipient (fold put_revision (map update_key us) ?old) (gd_sent t)"
    by (simp_all add: commit_eq)
  have oks: "\<forall>e \<in> set (gd_sent ?t). map_ok (snd e)"
    using D(2) P set_put_subset [of recipient "fold put_revision (map update_key us) ?old" "gd_sent t"]
    unfolding same by fastforce
  have sent: "\<exists>u. (rcp, u) \<in> committed \<union> {recipient} \<times> set us \<and> update_key u = (k, r)"
    if "map_of (gd_sent ?t) rcp = Some revs" "map_of revs k = Some r" for rcp revs k r
  proof (cases "rcp = recipient")
    case True
    with that have "map_of (fold put_revision (map update_key us) ?old) k = Some r" by (simp add: same)
    with P consider "map_of ?old k = Some r" | "(k, r) \<in> set (map update_key us)" by blast
    then show ?thesis
    proof cases
      case 1
      then obtain revs' where "map_of (gd_sent t) recipient = Some revs'" "map_of revs' k = Some r"
        by (auto split: option.splits)
      from D(6) [OF this] True show ?thesis by blast
    qed (use True in auto)
  next
    case False
    with that have "map_of (gd_sent t) rcp = Some revs" by (simp add: same)
    from D(6) [OF this that(2)] show ?thesis by blast
  qed
  show ?thesis using assms oks sent unfolding tracker_known_def same(1,2) by blast
qed

section \<open>Runs of the tracker\<close>

text \<open>A commit records updates that were prepared before, for any recipient, in any order
  and possibly after later calls of \<open>prepare\<close>.  The revision counter is taken
  not to run out: 2^64 changes.\<close>

inductive gossip_run :: "GossipDeltaTracker \<Rightarrow> GossipUpdate set \<Rightarrow> (node_id \<times> GossipUpdate) set \<Rightarrow> bool" where
  run_new: "gossip_run new_GossipDeltaTracker {} {}"
| run_prepare: "gossip_run t issued committed \<Longrightarrow>
    unat (gd_next_revision t) + length current < 2 ^ 64 \<Longrightarrow>
    gossip_prepare recipient current force t = (us, t') \<Longrightarrow> gossip_run t' (issued \<union> set us) committed"
| run_commit: "gossip_run t issued committed \<Longrightarrow> set us \<subseteq> issued \<Longrightarrow>
    gossip_run (gossip_commit recipient (map update_key us) t) issued (committed \<union> {recipient} \<times> set us)"
| run_retain: "gossip_run t issued committed \<Longrightarrow> gossip_run (retain_recipients recipients t) issued committed"
| run_reset: "gossip_run t issued committed \<Longrightarrow> gossip_run (reset_gossip t) {} {}"

lemma new_known: "tracker_known new_GossipDeltaTracker {} {}"
  by (simp add: tracker_known_def new_GossipDeltaTracker_def)

lemma retain_known:
  assumes "tracker_known t issued committed"
  shows "tracker_known (retain_recipients recipients t) issued committed"
proof -
  let ?t = "retain_recipients recipients t"
  have "map_of (filter (\<lambda>e. fst e \<in> A) xs) k = (if k \<in> A then map_of xs k else None)"
    for A and xs :: "(node_id \<times> (node_id, u64) std_map) list" and k
    by (induction xs) auto
  then have "map_of (gd_sent ?t) k = (if k \<in> set recipients then map_of (gd_sent t) k else None)" for k
    by (simp add: retain_recipients_def map_erase_if_def)
  moreover have "set (gd_sent ?t) \<subseteq> set (gd_sent t)" by (auto simp: retain_recipients_def map_erase_if_def)
  moreover have "gd_current ?t = gd_current t" "gd_next_revision ?t = gd_next_revision t"
    by (simp_all add: retain_recipients_def)
  ultimately show ?thesis using assms unfolding tracker_known_def by (auto split: if_splits)
qed

lemma gossip_run_known: "gossip_run t issued committed \<Longrightarrow> tracker_known t issued committed"
  by (induction rule: gossip_run.induct)
    (auto simp: reset_gossip_def intro: new_known prepare_known commit_known retain_known)

lemma commit_settles:
  assumes K: "tracker_known (refresh current t) issued committed"
    and P: "gossip_prepare recipient current force t = (us, t')"
    and e: "map_of (gd_current t') k = Some (p, r)"
  shows "already_sent recipient (gossip_commit recipient (map update_key us) t') k r"
proof -
  have t': "t' = refresh current t" using P by (simp add: prepare_eq)
  note D = tracker_knownD [OF K, folded t']
  note U = prepared_update [OF K P]
  let ?old = "case map_of (gd_sent t') recipient of None \<Rightarrow> [] | Some revs \<Rightarrow> revs"
  have keys: "map fst (map update_key us) =
      map fst (filter (\<lambda>(k, p, r). force \<or> \<not> already_sent recipient t' k r) (gd_current t'))"
    using P D(1,3) by (auto simp: prepare_eq update_key_def map_ok_mem)
  have dist: "distinct (map fst (map update_key us))"
    unfolding keys using map_ok_distinct [OF map_ok_filter [OF D(1)]] .
  have old: "c \<le> r" if "map_of ?old k = Some c" for c
  proof -
    obtain revs where "map_of (gd_sent t') recipient = Some revs" "map_of revs k = Some c"
      using \<open>map_of ?old k = Some c\<close> by (auto split: option.splits)
    from D(6) [OF this] obtain u where u: "(recipient, u) \<in> committed" "update_key u = (k, c)" by blast
    with D(5) [OF D(7) [OF u(1)], of p r] e show ?thesis by (simp add: update_key_def)
  qed
  let ?u = "\<lparr>gu_peer = p, gu_revision = r\<rparr>"
  have id: "ad_node_id p = k" using D(3) [OF e] by simp
  show ?thesis
  proof (cases "force \<or> \<not> already_sent recipient t' k r")
    case True
    then have "?u \<in> set us" using e id by (simp add: U)
    then have "(k, r) \<in> set (map update_key us)" using id by (force simp: update_key_def)
    then have "map_of (map update_key us) k = Some r" using dist by simp
    with old show ?thesis
      by (simp add: already_sent_def commit_eq put_revisions_distinct [OF dist] max_def split: option.splits)
  next
    case False
    have "(k, c) \<notin> set (map update_key us)" for c
    proof
      assume "(k, c) \<in> set (map update_key us)"
      then obtain u where u: "u \<in> set us" "update_key u = (k, c)" by auto
      with False e show False by (simp add: U update_key_def)
    qed
    then have "map_of (map update_key us) k = None" by (metis map_of_SomeD not_None_eq)
    with False show ?thesis
      by (simp add: already_sent_def commit_eq put_revisions_distinct [OF dist] split: option.splits)
  qed
qed

lemma refresh_again:
  assumes "tracker_known (refresh current t) issued committed" "map_ok (gd_current t)"
    and "unat (gd_next_revision t) + length current < 2 ^ 64" "gd_current t2 = gd_current (refresh current t)"
  shows "gd_current (refresh current t2) = gd_current t2"
proof -
  note R = refresh_current [OF assms(2,3)]
  have c: "\<forall>(k, p) \<in> set (canonical_table current). \<exists>r. map_of (gd_current t2) k = Some (p, r)"
  proof (clarify)
    fix k p assume "(k, p) \<in> set (canonical_table current)"
    then have "map_of (canonical_table current) k = Some p" by (simp add: map_ok_mem canonical_table_ok)
    with R [of k] assms(4) show "\<exists>r. map_of (gd_current t2) k = Some (p, r)" by auto
  qed
  have "map_contains k (canonical_table current)" if "k \<in> fst ` set (gd_current t2)" for k
  proof -
    have "map_of (gd_current t2) k \<noteq> None" using that by (simp add: map_of_eq_None_iff)
    with R [of k] assms(4) show ?thesis by (auto simp: map_contains_iff split: option.splits)
  qed
  then have "map_erase_if (\<lambda>e. \<not> map_contains (fst e) (canonical_table current)) (gd_current t2) = gd_current t2"
    by (auto simp: map_erase_if_def filter_id_conv)
  then show ?thesis by (simp add: refresh_def refresh_unchanged [OF c])
qed

lemma omitted_committed:
  assumes K0: "tracker_known t issued committed" and n: "unat (gd_next_revision t) + length current < 2 ^ 64"
    and P: "gossip_prepare recipient current force t = (us, t')"
    and "(k, p) \<in> set (canonical_table current)"
  shows "p \<in> gu_peer ` set us \<or> (\<exists>u. (recipient, u) \<in> committed \<and> gu_peer u = p)"
proof -
  note K = refresh_known [OF K0 n]
  have t': "t' = refresh current t" using P by (simp add: prepare_eq)
  note D = tracker_knownD [OF K, folded t']
  have "map_of (canonical_table current) k = Some p" using assms(4) by (simp add: map_ok_mem canonical_table_ok)
  with refresh_current [OF tracker_knownD(1) [OF K0] n, of k]
  obtain r where r: "map_of (gd_current t') k = Some (p, r)" unfolding t' by auto
  show ?thesis
  proof (cases "already_sent recipient t' k r")
    case True
    then obtain revs where "map_of (gd_sent t') recipient = Some revs" "map_of revs k = Some r"
      by (auto simp: already_sent_def split: option.splits)
    from D(6) [OF this] obtain u where u: "(recipient, u) \<in> committed" "update_key u = (k, r)" by blast
    with D(5) [OF D(7) [OF u(1)], of p r] r show ?thesis by (auto simp: update_key_def)
  next
    case False
    with r D(3) [OF r] have "\<lparr>gu_peer = p, gu_revision = r\<rparr> \<in> set us"
      by (simp add: prepared_update [OF K P])
    then show ?thesis by force
  qed
qed

lemma prepare_after_commit:
  assumes K0: "tracker_known t issued committed" and n: "unat (gd_next_revision t) + length current < 2 ^ 64"
    and P: "gossip_prepare recipient current force t = (us, t')"
  shows "fst (gossip_prepare recipient current False (gossip_commit recipient (map update_key us) t')) = []"
proof -
  note K = refresh_known [OF K0 n]
  have t': "t' = refresh current t" using P by (simp add: prepare_eq)
  note D = tracker_knownD [OF K, folded t']
  let ?t2 = "gossip_commit recipient (map update_key us) t'"
  have "gd_current ?t2 = gd_current t'" by (simp add: commit_eq)
  then have again: "gd_current (refresh current ?t2) = gd_current t'"
    using refresh_again [OF K tracker_knownD(1) [OF K0] n, of ?t2] by (simp add: t')
  have "already_sent recipient (refresh current ?t2) k r" if "(k, p, r) \<in> set (gd_current t')" for k p r
  proof -
    have m: "map_of (gd_current t') k = Some (p, r)" using that D(1) by (simp add: map_ok_mem)
    note S = commit_settles [OF K P m]
    have "map_ok revs" if "map_of (gd_sent ?t2) recipient = Some revs" for revs
      using commit_known [OF prepare_known [OF K0 n P], of us recipient]
        tracker_knownD(2) map_of_SomeD [OF that] by fastforce
    with S m show ?thesis
      unfolding already_sent_def refresh_sent again
      by (auto simp: map_of_erase_if map_contains_iff split: option.splits)
  qed
  with again show ?thesis by (auto simp: gossip_prepare_def Let_def filter_empty_conv)
qed

text \<open>C27: delta gossip loses nothing and settles.  In every run, an advertisement of the
  current table that \<open>prepare\<close> leaves out for a recipient was committed to
  that recipient with the same content; and once everything prepared for it
  has been committed, preparing the same table again yields nothing.\<close>

theorem gossip_deltas_converge:
  assumes "gossip_run t issued committed"
    and "unat (gd_next_revision t) + length current < 2 ^ 64"
    and "gossip_prepare recipient current force t = (us, t')"
  shows "(\<forall>p \<in> snd ` set (canonical_table current). p \<in> gu_peer ` set us \<or>
      (\<exists>u. (recipient, u) \<in> committed \<and> gu_peer u = p)) \<and>
    fst (gossip_prepare recipient current False (gossip_commit recipient (map update_key us) t')) = []"
  using omitted_committed [OF gossip_run_known [OF assms(1)] assms(2,3)]
    prepare_after_commit [OF gossip_run_known [OF assms(1)] assms(2,3)]
  by fastforce

definition demo_gossip_peer :: AdvertisedPeer where
  "demo_gossip_peer = \<lparr>ad_node_id = replicate 32 7, ad_public_key = replicate 32 8, ad_path = [], ad_prefixes = []\<rparr>"

theorem gossip_deltas_converge_witness:
  "case gossip_prepare [1] [demo_gossip_peer] False new_GossipDeltaTracker of (us, t') \<Rightarrow>
     us = [\<lparr>gu_peer = demo_gossip_peer, gu_revision = 1\<rparr>] \<and>
     fst (gossip_prepare [1] [demo_gossip_peer] False (gossip_commit [1] (map update_key us) t')) = []"
proof -
  obtain us t' where P: "gossip_prepare [1] [demo_gossip_peer] False new_GossipDeltaTracker = (us, t')" by fastforce
  have "unat (gd_next_revision new_GossipDeltaTracker) + length [demo_gossip_peer] < 2 ^ 64"
    by (simp add: new_GossipDeltaTracker_def)
  note c = gossip_deltas_converge [OF run_new this P]
  have "us = [\<lparr>gu_peer = demo_gossip_peer, gu_revision = 1\<rparr>]"
    using P by (simp add: prepare_eq refresh_def Let_def canonical_table_def canonicalize_peer_def
        demo_gossip_peer_def new_GossipDeltaTracker_def refresh_entry_def map_erase_if_def already_sent_def)
  with c P show ?thesis by simp
qed

text \<open>C28: what the batcher sends.  For a payload limit of at least three bytes the
  batches are consecutive segments of the parts of the sendable updates in
  order; each is a non-empty peer table that serializes within the limit; a
  revision is recorded in the very batch that carries the last part of its
  update; and the parts of an update carry its prefixes in order.\<close>

theorem gossip_batches_carry_updates:
  assumes "3 \<le> max_payload" "m = min max_payload PEER_TABLE_MAX_WIRE_BYTES"
  shows "(\<exists>parts. make_gossip_batches us max_payload = map batch_of parts \<and>
      concat parts = concat (map tagged_update (filter (packable m) us)) \<and>
      (\<forall>part \<in> set parts. part \<noteq> [] \<and> fits m (map fst part))) \<and>
    concat (map ad_prefixes (peer_chunks p)) = ad_prefixes p"
  using make_batches_parts [OF assms, of us] chunks_cover by metis

theorem gossip_batches_carry_updates_witness:
  "concat (map gb_peers (make_gossip_batches [\<lparr>gu_peer = demo_gossip_peer, gu_revision = 1\<rparr>] 1200)) = [demo_gossip_peer]"
proof -
  let ?u = "\<lparr>gu_peer = demo_gossip_peer, gu_revision = 1\<rparr>"
  have wf: "\<forall>p \<in> set [demo_gossip_peer]. wf_peer p" by (simp add: demo_gossip_peer_def wf_peer_def)
  have "fits 1200 [demo_gossip_peer]"
    using serialize_eq [OF wf] length_table [OF wf]
    by (simp add: fits_def demo_gossip_peer_def peer_bytes_def)
  moreover have c: "peer_chunks demo_gossip_peer = [demo_gossip_peer]"
    by (simp add: peer_chunks_def peer_chunk_def part_count_def demo_gossip_peer_def)
  ultimately have p: "packable 1200 ?u" by (simp add: packable_def c) (simp add: demo_gossip_peer_def)
  have "(1200::nat) = min 1200 PEER_TABLE_MAX_WIRE_BYTES" by simp
  from gossip_batches_carry_updates [OF _ this, of "[?u]"]
  obtain parts where parts: "make_gossip_batches [?u] 1200 = map batch_of parts" "concat parts = tagged_update ?u"
    using p by auto
  have "concat (map gb_peers (map batch_of parts)) = map fst (concat parts)" by (simp add: map_concat comp_def)
  then show ?thesis unfolding parts by (simp add: tagged_update_def c)
qed

end
