(* ===== verification/File_Chunks.thy ===== *)
theory File_Chunks
  imports Std_Map
begin

text \<open>
  \<open>FileChunkTracker\<close> of \<open>src/file/transfer.cpp\<close>: which chunks of a file have
  arrived, and the ranges of them a receiver acknowledges.  The counters are
  natural numbers: they are bounded by the number of chunks, at most 2^21.
\<close>

abbreviation FILE_TRANSFER_MAX_FILE_SIZE :: nat where "FILE_TRANSFER_MAX_FILE_SIZE \<equiv> 1073741824"
abbreviation FILE_TRANSFER_MIN_CHUNK_SIZE :: nat where "FILE_TRANSFER_MIN_CHUNK_SIZE \<equiv> 512"
abbreviation FILE_TRANSFER_MAX_CHUNKS :: nat where "FILE_TRANSFER_MAX_CHUNKS \<equiv> 2097152"
abbreviation FILE_ACK_MAX_RANGES :: nat where "FILE_ACK_MAX_RANGES \<equiv> 32"

record FileAckRange =
  ar_first :: nat
  ar_count :: nat

datatype FileChunkReceipt = Accepted | Duplicate | OutOfRange

record FileChunkTracker =
  ct_received :: "bool list"
  ct_received_count :: nat
  ct_contiguous_received :: nat

definition new_FileChunkTracker :: FileChunkTracker where
  "new_FileChunkTracker = \<lparr>ct_received = [], ct_received_count = 0, ct_contiguous_received = 0\<rparr>"

definition tracker_reset :: "nat \<Rightarrow> FileChunkTracker \<Rightarrow> bool \<times> FileChunkTracker" where
  "tracker_reset total_chunks t =
    (if total_chunks = 0 \<or> total_chunks > FILE_TRANSFER_MAX_CHUNKS then (False, t)
     else (True, \<lparr>ct_received = replicate total_chunks False, ct_received_count = 0, ct_contiguous_received = 0\<rparr>))"

text \<open>The loops \<open>while (i < received_.size() && received_[i]) ++i;\<close> and its negated form.\<close>

function scan_while :: "bool \<Rightarrow> bool list \<Rightarrow> nat \<Rightarrow> nat" where
  "scan_while b xs i = (if i < length xs \<and> xs ! i = b then scan_while b xs (i + 1) else i)"
  by pat_completeness auto
termination
  by (relation "measure (\<lambda>(b, xs, i). length xs - i)") auto

declare scan_while.simps [simp del]

definition tracker_record :: "nat \<Rightarrow> FileChunkTracker \<Rightarrow> FileChunkReceipt \<times> FileChunkTracker" where
  "tracker_record chunk_index t =
    (if chunk_index \<ge> length (ct_received t) then (OutOfRange, t)
     else if ct_received t ! chunk_index then (Duplicate, t)
     else
       let received = (ct_received t)[chunk_index := True] in
       (Accepted, \<lparr>ct_received = received, ct_received_count = ct_received_count t + 1,
          ct_contiguous_received = scan_while True received (ct_contiguous_received t)\<rparr>))"

definition tracker_remove :: "nat \<Rightarrow> FileChunkTracker \<Rightarrow> bool \<times> FileChunkTracker" where
  "tracker_remove chunk_index t =
    (if chunk_index \<ge> length (ct_received t) \<or> \<not> ct_received t ! chunk_index then (False, t)
     else
       let received = (ct_received t)[chunk_index := False] in
       (True, \<lparr>ct_received = received, ct_received_count = ct_received_count t - 1,
          ct_contiguous_received =
            (if chunk_index < ct_contiguous_received t then scan_while True received 0
             else ct_contiguous_received t)\<rparr>))"

definition chunk_received :: "nat \<Rightarrow> FileChunkTracker \<Rightarrow> bool" where
  "chunk_received chunk_index t \<longleftrightarrow> chunk_index < length (ct_received t) \<and> ct_received t ! chunk_index"

definition tracker_complete :: "FileChunkTracker \<Rightarrow> bool" where
  "tracker_complete t \<longleftrightarrow> ct_received t \<noteq> [] \<and> ct_received_count t = length (ct_received t)"

text \<open>The search without a focus: the maximal runs after \<open>index\<close>, at most \<open>maximum\<close> ranges in all.\<close>

lemma scan_while_ge: "i \<le> scan_while b xs i"
proof (induction b xs i rule: scan_while.induct)
  case (1 b xs i)
  then show ?case by (subst scan_while.simps) (auto simp: Suc_le_eq)
qed

lemma scan_while_end: "scan_while b xs i < length xs \<Longrightarrow> xs ! scan_while b xs i \<noteq> b"
  by (induction b xs i rule: scan_while.induct)
    (metis scan_while.simps)

lemma scan_while_le: "i \<le> length xs \<Longrightarrow> scan_while b xs i \<le> length xs"
  by (induction b xs i rule: scan_while.induct)
    (metis Suc_eq_plus1 Suc_leI scan_while.simps)

lemma scan_while_mem: "i \<le> j \<Longrightarrow> j < scan_while b xs i \<Longrightarrow> j < length xs \<and> xs ! j = b"
proof (induction b xs i rule: scan_while.induct)
  case (1 b xs i)
  then show ?case
    using scan_while.simps [of b xs i] by (cases "i = j") (auto split: if_splits)
qed

lemma scan_while_advances: "i < length xs \<Longrightarrow> xs ! i = b \<Longrightarrow> i < scan_while b xs i"
  using scan_while_ge [of "i + 1" b xs] by (simp add: scan_while.simps [of b xs i])

function ranges_from :: "bool list \<Rightarrow> nat \<Rightarrow> nat \<Rightarrow> FileAckRange list \<Rightarrow> FileAckRange list" where
  "ranges_from xs maximum index ranges =
    (if index < length xs \<and> length ranges < maximum then
       let first = scan_while False xs index in
       if first = length xs then ranges
       else
         let index = scan_while True xs first in
         ranges_from xs maximum index (ranges @ [\<lparr>ar_first = first, ar_count = index - first\<rparr>])
     else ranges)"
  by pat_completeness auto
termination
proof (relation "measure (\<lambda>(xs, maximum, index, ranges). length xs - index)"; clarsimp)
  fix xs :: "bool list" and index :: nat
  assume a: "index < length xs" "scan_while False xs index \<noteq> length xs"
  let ?first = "scan_while False xs index"
  have "?first < length xs" "xs ! ?first" using a scan_while_end [of False xs index] scan_while_le [of index xs False] by auto
  then have "index < scan_while True xs ?first"
    using scan_while_advances [of ?first xs True] scan_while_ge [of index False xs] by simp
  then show "length xs - scan_while True xs ?first < length xs - index" using a by simp
qed

declare ranges_from.simps [simp del]

text \<open>\<open>while (first > contiguous_received_ && received_[first - 1]) --first;\<close>\<close>

fun scan_back :: "bool list \<Rightarrow> nat \<Rightarrow> nat \<Rightarrow> nat" where
  "scan_back xs lo 0 = 0"
| "scan_back xs lo (Suc first) = (if Suc first > lo \<and> xs ! first then scan_back xs lo first else Suc first)"

definition acknowledged_ranges :: "nat option \<Rightarrow> nat \<Rightarrow> FileChunkTracker \<Rightarrow> FileAckRange list" where
  "acknowledged_ranges focus maximum t =
    (let xs = ct_received t; contiguous = ct_contiguous_received t;
         ranges = (if contiguous > 0 then [\<lparr>ar_first = 0, ar_count = contiguous\<rparr>] else []) in
     if maximum = 0 then []
     else case focus of
       None \<Rightarrow> ranges_from xs maximum contiguous ranges
     | Some f \<Rightarrow>
         if f \<ge> length xs \<or> \<not> xs ! f \<or> f < contiguous \<or> length ranges \<ge> maximum then ranges
         else
           let first = scan_back xs contiguous f; finish = scan_while True xs (f + 1)
           in ranges @ [\<lparr>ar_first = first, ar_count = finish - first\<rparr>])"

section \<open>Invariant\<close>

definition chunks_ok :: "FileChunkTracker \<Rightarrow> bool" where
  "chunks_ok t \<longleftrightarrow> ct_received_count t = count_list (ct_received t) True \<and>
     ct_contiguous_received t \<le> length (ct_received t) \<and>
     (\<forall>j < ct_contiguous_received t. ct_received t ! j) \<and>
     (ct_contiguous_received t < length (ct_received t) \<longrightarrow> \<not> ct_received t ! ct_contiguous_received t)"

lemma count_list_update:
  "i < length xs \<Longrightarrow> count_list (xs[i := b]) True + (if xs ! i then 1 else 0) = count_list xs True + (if b then 1 else 0)"
proof (induction xs arbitrary: i)
  case (Cons x xs)
  show ?case
  proof (cases i)
    case (Suc k)
    with Cons.prems Cons.IH [of k] show ?thesis by (auto split: if_splits)
  qed simp
qed simp

lemma count_list_full: "count_list xs True = length xs \<longleftrightarrow> (\<forall>x \<in> set xs. x)"
proof (induction xs)
  case (Cons x xs)
  have "count_list xs True \<le> length xs" by (rule count_le_length)
  then show ?case using Cons by auto
qed simp

lemma scan_prefix:
  assumes "i \<le> length xs" "\<forall>j < i. xs ! j"
  shows "scan_while True xs i \<le> length xs" "\<forall>j < scan_while True xs i. xs ! j"
    "scan_while True xs i < length xs \<longrightarrow> \<not> xs ! scan_while True xs i"
  using scan_while_le [OF assms(1)] scan_while_mem [of i _ True xs] scan_while_end [of True xs i] assms(2)
  by (auto simp: not_le) (meson not_le)

lemma tracker_reset_ok: "chunks_ok t \<Longrightarrow> chunks_ok (snd (tracker_reset n t))"
  by (simp add: tracker_reset_def chunks_ok_def)

lemma tracker_record_ok:
  assumes "chunks_ok t"
  shows "chunks_ok (snd (tracker_record i t))"
proof (cases "i < length (ct_received t)")
  case True
  let ?xs = "(ct_received t)[i := True]"
  have "ct_contiguous_received t \<le> length ?xs" "\<forall>j < ct_contiguous_received t. ?xs ! j"
    using assms True by (auto simp: chunks_ok_def nth_list_update)
  note s = scan_prefix [OF this]
  show ?thesis
    using s assms count_list_update [OF True, of True]
    by (auto simp: tracker_record_def chunks_ok_def Let_def)
qed (use assms in \<open>simp add: tracker_record_def\<close>)

lemma tracker_remove_ok:
  assumes "chunks_ok t"
  shows "chunks_ok (snd (tracker_remove i t))"
proof -
  let ?xs = "(ct_received t)[i := False]"
  note s = scan_prefix [of 0 ?xs, simplified]
  show ?thesis
    using s assms count_list_update [of i "ct_received t" False]
    by (auto simp: tracker_remove_def chunks_ok_def Let_def nth_list_update)
qed

lemma tracker_complete_iff:
  "chunks_ok t \<Longrightarrow> tracker_complete t \<longleftrightarrow> ct_received t \<noteq> [] \<and> (\<forall>i < length (ct_received t). chunk_received i t)"
  by (auto simp: tracker_complete_def chunks_ok_def count_list_full chunk_received_def all_set_conv_all_nth)

section \<open>Acknowledged ranges\<close>

text \<open>A maximal run of received chunks.\<close>

definition maximal_run :: "bool list \<Rightarrow> FileAckRange \<Rightarrow> bool" where
  "maximal_run xs r \<longleftrightarrow> 0 < ar_count r \<and> ar_first r + ar_count r \<le> length xs \<and>
     (\<forall>j. ar_first r \<le> j \<longrightarrow> j < ar_first r + ar_count r \<longrightarrow> xs ! j) \<and>
     (ar_first r = 0 \<or> \<not> xs ! (ar_first r - 1)) \<and>
     (ar_first r + ar_count r < length xs \<longrightarrow> \<not> xs ! (ar_first r + ar_count r))"

definition in_range :: "nat \<Rightarrow> FileAckRange \<Rightarrow> bool" where
  "in_range j r \<longleftrightarrow> ar_first r \<le> j \<and> j < ar_first r + ar_count r"

text \<open>Ranges found so far, with the search at \<open>index\<close>.\<close>

definition ranges_upto :: "bool list \<Rightarrow> nat \<Rightarrow> FileAckRange list \<Rightarrow> bool" where
  "ranges_upto xs index ranges \<longleftrightarrow> index \<le> length xs \<and> (index = 0 \<or> index = length xs \<or> \<not> xs ! index) \<and>
     (\<forall>r \<in> set ranges. maximal_run xs r \<and> ar_first r + ar_count r \<le> index) \<and>
     sorted_wrt (\<lambda>r q. ar_first r + ar_count r < ar_first q) ranges \<and>
     (\<forall>j < index. xs ! j \<longrightarrow> (\<exists>r \<in> set ranges. in_range j r))"

lemma ranges_upto_step:
  assumes "ranges_upto xs index ranges" "index < length xs" "scan_while False xs index < length xs"
  defines "first \<equiv> scan_while False xs index"
  defines "fin \<equiv> scan_while True xs first"
  shows "ranges_upto xs fin (ranges @ [\<lparr>ar_first = first, ar_count = fin - first\<rparr>])"
proof -
  have f: "index \<le> first" "first < length xs" "xs ! first" "\<forall>j. index \<le> j \<longrightarrow> j < first \<longrightarrow> \<not> xs ! j"
    using assms(3) scan_while_ge [of index False xs] scan_while_end [of False xs index]
      scan_while_mem [of index _ False xs] by (auto simp: first_def)
  have n: "first < fin" "fin \<le> length xs" "\<forall>j. first \<le> j \<longrightarrow> j < fin \<longrightarrow> xs ! j"
    "fin < length xs \<longrightarrow> \<not> xs ! fin"
    using f scan_while_advances [of first xs True] scan_while_le [of first xs True]
      scan_while_end [of True xs first] scan_while_mem [of first _ True xs] by (auto simp: fin_def)
  have U: "index = 0 \<or> \<not> xs ! index" "\<forall>r \<in> set ranges. maximal_run xs r \<and> ar_first r + ar_count r \<le> index"
    "sorted_wrt (\<lambda>r q. ar_first r + ar_count r < ar_first q) ranges"
    "\<forall>j < index. xs ! j \<longrightarrow> (\<exists>r \<in> set ranges. in_range j r)"
    using assms(1,2) by (auto simp: ranges_upto_def)
  have before: "first = 0 \<or> \<not> xs ! (first - 1)"
  proof (cases "first = index")
    case True
    with U(1) f(3) show ?thesis by auto
  qed (use f in auto)
  then have new: "maximal_run xs \<lparr>ar_first = first, ar_count = fin - first\<rparr>"
    using n by (auto simp: maximal_run_def)
  have gap: "ar_first r + ar_count r < first" if "r \<in> set ranges" for r
  proof -
    have m: "maximal_run xs r" "ar_first r + ar_count r \<le> index" using U(2) that by auto
    then have "index \<noteq> 0" by (auto simp: maximal_run_def)
    with U(1) f(1,3) m(2) show ?thesis by (cases "first = index") auto
  qed
  show ?thesis unfolding ranges_upto_def
  proof (intro conjI)
    show "\<forall>j < fin. xs ! j \<longrightarrow> (\<exists>r \<in> set (ranges @ [\<lparr>ar_first = first, ar_count = fin - first\<rparr>]). in_range j r)"
    proof (intro allI impI)
      fix j assume j: "j < fin" "xs ! j"
      show "\<exists>r \<in> set (ranges @ [\<lparr>ar_first = first, ar_count = fin - first\<rparr>]). in_range j r"
      proof (cases "j < index")
        case True
        with U(4) j show ?thesis by auto
      next
        case False
        with f(4) j have "first \<le> j" by (meson not_le)
        with j show ?thesis by (simp add: in_range_def)
      qed
    qed
  qed (use n U gap new f in \<open>auto simp: sorted_wrt_append\<close>)
qed

lemma ranges_from_upto:
  "ranges_upto xs index ranges \<Longrightarrow> length ranges \<le> maximum \<Longrightarrow>
    (\<exists>index'. ranges_upto xs index' (ranges_from xs maximum index ranges) \<and>
      (length (ranges_from xs maximum index ranges) < maximum \<longrightarrow> index' = length xs)) \<and>
    length (ranges_from xs maximum index ranges) \<le> maximum"
proof (induction xs maximum index ranges rule: ranges_from.induct)
  case (1 xs maximum index ranges)
  let ?first = "scan_while False xs index"
  show ?case
  proof (cases "index < length xs \<and> length ranges < maximum")
    case False
    with 1(2,3) show ?thesis
      by (subst (1 2 3) ranges_from.simps) (auto simp: ranges_upto_def)
  next
    case True
    show ?thesis
    proof (cases "?first = length xs")
      case stop: True
      have "\<forall>j. index \<le> j \<longrightarrow> j < length xs \<longrightarrow> \<not> xs ! j"
        using scan_while_mem [of index _ False xs] by (simp add: stop)
      with 1(2) have "ranges_upto xs (length xs) ranges"
        by (auto simp: ranges_upto_def not_less intro: order_trans) (meson not_le)
      moreover have "ranges_from xs maximum index ranges = ranges"
        using True stop by (subst ranges_from.simps) simp
      ultimately show ?thesis using 1(3) by auto
    next
      case False
      then have "?first < length xs" using scan_while_le [of index xs False] True by simp
      note u = ranges_upto_step [OF 1(2) conjunct1 [OF True] this]
      have "ranges_from xs maximum index ranges = ranges_from xs maximum (scan_while True xs ?first)
          (ranges @ [\<lparr>ar_first = ?first, ar_count = scan_while True xs ?first - ?first\<rparr>])"
        using True False by (subst ranges_from.simps) (simp add: Let_def)
      with 1(1) [OF True refl False refl u] True show ?thesis by simp
    qed
  qed
qed

lemma contiguous_upto:
  assumes "chunks_ok t"
  shows "ranges_upto (ct_received t) (ct_contiguous_received t)
    (if ct_contiguous_received t > 0 then [\<lparr>ar_first = 0, ar_count = ct_contiguous_received t\<rparr>] else [])"
  using assms by (auto simp: ranges_upto_def chunks_ok_def maximal_run_def in_range_def)

lemma scan_back_run:
  assumes "xs ! f" "lo \<le> f"
  shows "lo \<le> scan_back xs lo f \<and> scan_back xs lo f \<le> f \<and>
    (\<forall>j. scan_back xs lo f \<le> j \<longrightarrow> j \<le> f \<longrightarrow> xs ! j) \<and>
    (scan_back xs lo f = lo \<or> \<not> xs ! (scan_back xs lo f - 1))"
  using assms
proof (induction f)
  case (Suc f)
  then show ?case by (auto simp: le_Suc_eq)
qed auto

lemma acknowledged_focus:
  assumes ok: "chunks_ok t" and f: "f < length (ct_received t)" "ct_received t ! f" "ct_contiguous_received t \<le> f"
  defines "first \<equiv> scan_back (ct_received t) (ct_contiguous_received t) f"
  defines "finish \<equiv> scan_while True (ct_received t) (f + 1)"
  shows "maximal_run (ct_received t) \<lparr>ar_first = first, ar_count = finish - first\<rparr> \<and>
    ct_contiguous_received t < first \<and> first \<le> f \<and> f < finish"
proof -
  have e: "f < finish" "finish \<le> length (ct_received t)" "\<forall>j. f < j \<longrightarrow> j < finish \<longrightarrow> ct_received t ! j"
    "finish < length (ct_received t) \<longrightarrow> \<not> ct_received t ! finish"
    using f scan_while_ge [of "f + 1" True "ct_received t"] scan_while_le [of "f + 1" "ct_received t" True]
      scan_while_mem [of "f + 1" _ True "ct_received t"] scan_while_end [of True "ct_received t" "f + 1"]
    by (auto simp: finish_def)
  note b = scan_back_run [OF f(2,3), folded first_def]
  have "\<not> ct_received t ! ct_contiguous_received t"
    using ok f by (auto simp: chunks_ok_def)
  moreover have "ct_received t ! first" using b by auto
  ultimately have l: "ct_contiguous_received t < first" using b by (metis le_neq_implies_less)
  have "\<forall>j. first \<le> j \<longrightarrow> j < finish \<longrightarrow> ct_received t ! j" using b e by (meson not_le)
  then show ?thesis using e b l by (auto simp: maximal_run_def)
qed

lemma acknowledged_ranges_ok:
  assumes "chunks_ok t"
  shows "list_all (maximal_run (ct_received t)) (acknowledged_ranges focus maximum t)"
    and "sorted_wrt (\<lambda>r q. ar_first r + ar_count r < ar_first q) (acknowledged_ranges focus maximum t)"
    and "length (acknowledged_ranges focus maximum t) \<le> maximum"
proof -
  let ?c = "ct_contiguous_received t"
  let ?r = "if ?c > 0 then [\<lparr>ar_first = 0, ar_count = ?c\<rparr>] else []"
  note u = contiguous_upto [OF assms]
  have "list_all (maximal_run (ct_received t)) (acknowledged_ranges focus maximum t) \<and>
    sorted_wrt (\<lambda>r q. ar_first r + ar_count r < ar_first q) (acknowledged_ranges focus maximum t) \<and>
    length (acknowledged_ranges focus maximum t) \<le> maximum"
  proof (cases "maximum = 0")
    case False
    then have l: "length ?r \<le> maximum" by simp
    show ?thesis
    proof (cases focus)
      case None
      with False ranges_from_upto [OF u l] show ?thesis
        by (auto simp: acknowledged_ranges_def Let_def ranges_upto_def list_all_iff)
    next
      case (Some f)
      show ?thesis
      proof (cases "f \<ge> length (ct_received t) \<or> \<not> ct_received t ! f \<or> f < ?c \<or> length ?r \<ge> maximum")
        case True
        with False Some u l show ?thesis
          by (simp add: acknowledged_ranges_def Let_def ranges_upto_def)
      next
        case new: False
        with acknowledged_focus [OF assms, of f] False Some u show ?thesis
          by (auto simp: acknowledged_ranges_def Let_def ranges_upto_def)
      qed
    qed
  qed (simp add: acknowledged_ranges_def)
  then show "list_all (maximal_run (ct_received t)) (acknowledged_ranges focus maximum t)"
    and "sorted_wrt (\<lambda>r q. ar_first r + ar_count r < ar_first q) (acknowledged_ranges focus maximum t)"
    and "length (acknowledged_ranges focus maximum t) \<le> maximum" by blast+
qed

lemma acknowledged_ranges_all:
  assumes "chunks_ok t" "length (acknowledged_ranges None maximum t) < maximum" "chunk_received j t"
  shows "\<exists>r \<in> set (acknowledged_ranges None maximum t). in_range j r"
proof -
  let ?c = "ct_contiguous_received t"
  let ?r = "if ?c > 0 then [\<lparr>ar_first = 0, ar_count = ?c\<rparr>] else []"
  have m: "maximum \<noteq> 0" "length ?r \<le> maximum" using assms(2) by auto
  have "acknowledged_ranges None maximum t = ranges_from (ct_received t) maximum ?c ?r"
    using m(1) by (simp add: acknowledged_ranges_def Let_def)
  with ranges_from_upto [OF contiguous_upto [OF assms(1)] m(2)] assms(2)
  have "ranges_upto (ct_received t) (length (ct_received t)) (acknowledged_ranges None maximum t)" by auto
  with assms(3) show ?thesis by (auto simp: ranges_upto_def chunk_received_def)
qed

end
