(* ===== verification/File_Window.thy ===== *)
theory File_Window
  imports File_Chunks
begin

text \<open>
  \<open>FileSendWindow\<close> of \<open>src/file/transfer.cpp\<close>: the sliding window of a file
  sender, its retransmissions and its adaptive timeout.  Counters are natural
  numbers, bounded by the number of chunks and the retry limit; times and
  timeouts are in milliseconds.
\<close>

record FileTransferAck =
  fa_transfer_id :: u64
  fa_header_received :: bool
  fa_ranges :: "FileAckRange list"

record FileSendAction =
  sa_send_header :: bool
  sa_chunks :: "nat list"

record FileSendWindowConfig =
  wc_window_size :: nat
  wc_retry_limit :: nat
  wc_initial_rto :: time
  wc_minimum_rto :: time
  wc_maximum_rto :: time

definition default_window_config :: FileSendWindowConfig where
  "default_window_config = \<lparr>wc_window_size = 32, wc_retry_limit = 5, wc_initial_rto = 250,
     wc_minimum_rto = 100, wc_maximum_rto = 2000\<rparr>"

record InFlightChunk =
  if_sent_at :: time
  if_retransmissions :: nat

record FileSendWindow =
  fw_config :: FileSendWindowConfig
  fw_total_chunks :: nat
  fw_next_chunk :: nat
  fw_acknowledged_count :: nat
  fw_header_sent :: bool
  fw_header_received :: bool
  fw_failed :: bool
  fw_header_retransmissions :: nat
  fw_header_sent_at :: time
  fw_rto :: time
  fw_in_flight :: "(nat, InFlightChunk) std_map"
  fw_acknowledged :: "bool list"

definition new_FileSendWindow :: "FileSendWindowConfig \<Rightarrow> FileSendWindow" where
  "new_FileSendWindow config = \<lparr>fw_config = config, fw_total_chunks = 0, fw_next_chunk = 0,
     fw_acknowledged_count = 0, fw_header_sent = False, fw_header_received = False, fw_failed = False,
     fw_header_retransmissions = 0, fw_header_sent_at = 0, fw_rto = wc_initial_rto config,
     fw_in_flight = [], fw_acknowledged = []\<rparr>"

definition window_config_ok :: "FileSendWindowConfig \<Rightarrow> bool" where
  "window_config_ok c \<longleftrightarrow> wc_window_size c \<noteq> 0 \<and> wc_retry_limit c \<noteq> 0 \<and> wc_minimum_rto c > 0 \<and>
     wc_initial_rto c \<ge> wc_minimum_rto c \<and> wc_initial_rto c \<le> wc_maximum_rto c"

definition window_reset :: "nat \<Rightarrow> time \<Rightarrow> FileSendWindow \<Rightarrow> bool \<times> FileSendWindow" where
  "window_reset total_chunks now w =
    (if total_chunks = 0 \<or> total_chunks > FILE_TRANSFER_MAX_CHUNKS \<or> \<not> window_config_ok (fw_config w) then (False, w)
     else (True, w\<lparr>fw_total_chunks := total_chunks, fw_next_chunk := 0, fw_acknowledged_count := 0,
       fw_header_sent := False, fw_header_received := False, fw_failed := False,
       fw_header_retransmissions := 0, fw_header_sent_at := now, fw_rto := wc_initial_rto (fw_config w),
       fw_in_flight := [], fw_acknowledged := replicate total_chunks False\<rparr>))"

definition window_complete :: "FileSendWindow \<Rightarrow> bool" where
  "window_complete w \<longleftrightarrow> fw_total_chunks w \<noteq> 0 \<and> fw_acknowledged_count w = fw_total_chunks w"

definition window_cancel :: "FileSendWindow \<Rightarrow> FileSendWindow" where
  "window_cancel w = w\<lparr>fw_failed := True\<rparr>"

text \<open>The loop over the chunks in flight; it stops at the first that has used up its retries.\<close>

fun retransmit ::
    "time \<Rightarrow> time \<Rightarrow> nat \<Rightarrow> (nat, InFlightChunk) std_map \<Rightarrow> bool \<times> nat list \<times> (nat, InFlightChunk) std_map" where
  "retransmit now rto retry_limit [] = (False, [], [])"
| "retransmit now rto retry_limit ((k, e) # es) =
    (if now - if_sent_at e < rto
     then let (failed, chunks, es') = retransmit now rto retry_limit es in (failed, chunks, (k, e) # es')
     else if if_retransmissions e \<ge> retry_limit then (True, [], (k, e) # es)
     else let (failed, chunks, es') = retransmit now rto retry_limit es
       in (failed, k # chunks,
           (k, \<lparr>if_sent_at = now, if_retransmissions = if_retransmissions e + 1\<rparr>) # es'))"

text \<open>The loop that fills the window with chunks not sent before.\<close>

function fill_window ::
    "time \<Rightarrow> nat \<Rightarrow> nat \<Rightarrow> bool list \<Rightarrow> nat \<Rightarrow> (nat, InFlightChunk) std_map \<Rightarrow> nat list \<times> nat \<times> (nat, InFlightChunk) std_map" where
  "fill_window now window_size total_n acked next_chunk in_flight =
    (if length in_flight < window_size \<and> next_chunk < total_n then
       if acked ! next_chunk then fill_window now window_size total_n acked (next_chunk + 1) in_flight
       else
         let (chunks, n, m) = fill_window now window_size total_n acked (next_chunk + 1)
               (map_put next_chunk \<lparr>if_sent_at = now, if_retransmissions = 0\<rparr> in_flight)
         in (next_chunk # chunks, n, m)
     else ([], next_chunk, in_flight))"
  by pat_completeness auto
termination
  by (relation "measure (\<lambda>(now, window_size, total_n, acked, next_chunk, in_flight). total_n - next_chunk)") auto

declare fill_window.simps [simp del]

definition window_poll :: "time \<Rightarrow> FileSendWindow \<Rightarrow> FileSendAction \<times> FileSendWindow" where
  "window_poll now w =
    (let none = \<lparr>sa_send_header = False, sa_chunks = []\<rparr> in
     if fw_failed w \<or> window_complete w \<or> fw_total_chunks w = 0 then (none, w)
     else if \<not> fw_header_received w then
       if \<not> fw_header_sent w \<or> now - fw_header_sent_at w \<ge> fw_rto w then
         if fw_header_sent w \<and> fw_header_retransmissions w \<ge> wc_retry_limit (fw_config w)
         then (none, w\<lparr>fw_failed := True\<rparr>)
         else (\<lparr>sa_send_header = True, sa_chunks = []\<rparr>,
           w\<lparr>fw_header_retransmissions := fw_header_retransmissions w + (if fw_header_sent w then 1 else 0),
             fw_header_sent := True, fw_header_sent_at := now\<rparr>)
       else (none, w)
     else
       let (failed, resent, es) = retransmit now (fw_rto w) (wc_retry_limit (fw_config w)) (fw_in_flight w) in
       if failed then (none, w\<lparr>fw_failed := True, fw_in_flight := es\<rparr>)
       else
         let (fresh, n, m) = fill_window now (wc_window_size (fw_config w)) (fw_total_chunks w)
               (fw_acknowledged w) (fw_next_chunk w) es
         in (\<lparr>sa_send_header = False, sa_chunks = resent @ fresh\<rparr>,
             w\<lparr>fw_next_chunk := n, fw_in_flight := m\<rparr>))"

definition observe_rtt :: "time \<Rightarrow> FileSendWindow \<Rightarrow> FileSendWindow" where
  "observe_rtt sample w =
    (let measured = sample * 2;
         measured = (if measured < wc_minimum_rto (fw_config w) then wc_minimum_rto (fw_config w) else measured);
         measured = (if measured > wc_maximum_rto (fw_config w) then wc_maximum_rto (fw_config w) else measured)
     in w\<lparr>fw_rto := measured\<rparr>)"

definition acknowledge_chunk :: "time \<Rightarrow> nat \<Rightarrow> FileSendWindow \<Rightarrow> FileSendWindow" where
  "acknowledge_chunk now index w =
    (if fw_acknowledged w ! index then w
     else
       let w = (case map_of (fw_in_flight w) index of None \<Rightarrow> w
                | Some e \<Rightarrow> if if_retransmissions e = 0 then observe_rtt (now - if_sent_at e) w else w)
       in w\<lparr>fw_acknowledged := (fw_acknowledged w)[index := True],
            fw_acknowledged_count := fw_acknowledged_count w + 1,
            fw_in_flight := map_erase index (fw_in_flight w)\<rparr>)"

definition acknowledge_range :: "time \<Rightarrow> FileAckRange \<Rightarrow> FileSendWindow \<Rightarrow> FileSendWindow" where
  "acknowledge_range now r w =
    fold (acknowledge_chunk now) [ar_first r..<min (ar_first r + ar_count r) (fw_total_chunks w)] w"

definition window_acknowledge :: "FileTransferAck \<Rightarrow> time \<Rightarrow> FileSendWindow \<Rightarrow> FileSendWindow" where
  "window_acknowledge ack now w =
    (if fw_failed w \<or> fw_total_chunks w = 0 then w
     else
       let w = (if fa_header_received ack \<and> \<not> fw_header_received w then
                  (if fw_header_sent w \<and> fw_header_retransmissions w = 0
                   then observe_rtt (now - fw_header_sent_at w) w else w)\<lparr>fw_header_received := True\<rparr>
                else w)
       in fold (acknowledge_range now) (fa_ranges ack) w)"

section \<open>Invariant\<close>

definition window_ok :: "FileSendWindow \<Rightarrow> bool" where
  "window_ok w \<longleftrightarrow> map_ok (fw_in_flight w) \<and> length (fw_acknowledged w) = fw_total_chunks w \<and>
     fw_acknowledged_count w = count_list (fw_acknowledged w) True \<and> fw_next_chunk w \<le> fw_total_chunks w \<and>
     (\<forall>k. map_contains k (fw_in_flight w) \<longleftrightarrow> k < fw_next_chunk w \<and> \<not> fw_acknowledged w ! k) \<and>
     length (fw_in_flight w) \<le> wc_window_size (fw_config w) \<and>
     (\<forall>e \<in> set (fw_in_flight w). if_retransmissions (snd e) \<le> wc_retry_limit (fw_config w)) \<and>
     fw_header_retransmissions w \<le> wc_retry_limit (fw_config w) \<and>
     (fw_total_chunks w \<noteq> 0 \<longrightarrow> window_config_ok (fw_config w) \<and>
        wc_minimum_rto (fw_config w) \<le> fw_rto w \<and> fw_rto w \<le> wc_maximum_rto (fw_config w))"

lemma window_ok_new: "window_ok (new_FileSendWindow c)"
  by (simp add: window_ok_def new_FileSendWindow_def)

lemma window_ok_reset: "window_ok w \<Longrightarrow> window_ok (snd (window_reset n now w))"
  by (auto simp: window_ok_def window_reset_def window_config_ok_def map_contains_def)

lemma retransmit_law:
  assumes "retransmit now rto lim es = (failed, chunks, es')" "\<forall>e \<in> set es. if_retransmissions (snd e) \<le> lim"
  shows "map fst es' = map fst es \<and> (\<forall>e \<in> set es'. if_retransmissions (snd e) \<le> lim) \<and>
    set chunks \<subseteq> fst ` set es"
  using assms
  by (induction now rto lim es arbitrary: failed chunks es' rule: retransmit.induct)
    (fastforce simp: Let_def split: if_splits prod.splits)+

lemma fill_window_law:
  assumes "fill_window now ws total_n acked n m = (chunks, n', m')"
    and "map_ok m" "n \<le> total_n" "length m \<le> ws" "\<forall>k. map_contains k m \<longleftrightarrow> k < n \<and> \<not> acked ! k"
    and "\<forall>e \<in> set m. if_retransmissions (snd e) \<le> lim"
  shows "map_ok m' \<and> n \<le> n' \<and> n' \<le> total_n \<and> length m' \<le> ws \<and>
    (\<forall>k. map_contains k m' \<longleftrightarrow> k < n' \<and> \<not> acked ! k) \<and>
    (\<forall>e \<in> set m'. if_retransmissions (snd e) \<le> lim) \<and>
    (length m' < ws \<longrightarrow> n' = total_n) \<and> chunks = filter (\<lambda>k. \<not> acked ! k) [n..<n']"
  using assms
proof (induction now ws total_n acked n m arbitrary: chunks n' m' rule: fill_window.induct)
  case (1 now ws total_n acked n m)
  show ?case
  proof (cases "length m < ws \<and> n < total_n")
    case False
    with 1(3-) show ?thesis by (subst (asm) fill_window.simps) auto
  next
    case True
    show ?thesis
    proof (cases "acked ! n")
      case acked: True
      with True 1(3) have r: "fill_window now ws total_n acked (n + 1) m = (chunks, n', m')"
        by (simp add: fill_window.simps [of now ws total_n acked n m])
      have "\<forall>k. map_contains k m \<longleftrightarrow> k < n + 1 \<and> \<not> acked ! k" using 1(7) acked by (auto simp: less_Suc_eq)
      with 1(1) [OF True acked r] 1(4-8) True acked show ?thesis by (simp add: upt_conv_Cons)
    next
      case fresh: False
      let ?m = "map_put n \<lparr>if_sent_at = now, if_retransmissions = 0\<rparr> m"
      obtain chunks1 where r: "fill_window now ws total_n acked (n + 1) ?m = (chunks1, n', m')" "chunks = n # chunks1"
        using True fresh 1(3) by (auto simp: fill_window.simps [of now ws total_n acked n m] split: prod.splits)
      have "map_ok ?m" "length ?m \<le> ws" "\<forall>k. map_contains k ?m \<longleftrightarrow> k < n + 1 \<and> \<not> acked ! k"
        using 1(4,6,7) True fresh by (auto simp: length_put less_Suc_eq)
      moreover have "\<forall>e \<in> set ?m. if_retransmissions (snd e) \<le> lim"
        using 1(8) set_put_subset [of n _ m] by fastforce
      ultimately show ?thesis using 1(2) [OF True fresh r(1)] True fresh r(2) by (simp add: upt_conv_Cons)
    qed
  qed
qed

lemma same_keys:
  assumes "map fst es = map fst (m :: (nat, 'v) std_map)"
  shows "map_ok es \<longleftrightarrow> map_ok m" "length es = length m" "map_contains k es \<longleftrightarrow> map_contains k m"
proof -
  have "fst ` set es = fst ` set m" using assms by (metis list.set_map)
  then show "map_ok es \<longleftrightarrow> map_ok m" "length es = length m" "map_contains k es \<longleftrightarrow> map_contains k m"
    using assms map_eq_imp_length_eq [OF assms] by (simp_all add: map_ok_def map_contains_def)
qed

lemma window_ok_poll:
  assumes "window_ok w"
  shows "window_ok (snd (window_poll now w))"
proof -
  obtain failed resent es where r: "retransmit now (fw_rto w) (wc_retry_limit (fw_config w)) (fw_in_flight w) = (failed, resent, es)"
    by (cases "retransmit now (fw_rto w) (wc_retry_limit (fw_config w)) (fw_in_flight w)") auto
  obtain fresh n m where f: "fill_window now (wc_window_size (fw_config w)) (fw_total_chunks w)
      (fw_acknowledged w) (fw_next_chunk w) es = (fresh, n, m)"
    by (cases "fill_window now (wc_window_size (fw_config w)) (fw_total_chunks w)
      (fw_acknowledged w) (fw_next_chunk w) es") auto
  have "\<forall>e \<in> set (fw_in_flight w). if_retransmissions (snd e) \<le> wc_retry_limit (fw_config w)"
    using assms by (simp add: window_ok_def)
  from retransmit_law [OF r this] have es: "map fst es = map fst (fw_in_flight w)"
    "\<forall>e \<in> set es. if_retransmissions (snd e) \<le> wc_retry_limit (fw_config w)" by blast+
  have keys: "map_ok es" "length es = length (fw_in_flight w)" "map_contains k es = map_contains k (fw_in_flight w)" for k
    using same_keys [OF es(1)] assms by (simp_all add: window_ok_def)
  note W = assms [unfolded window_ok_def]
  note F = fill_window_law [OF f keys(1) _ _ _ es(2), unfolded keys]
  show ?thesis
    using W F keys es(2) unfolding window_poll_def window_ok_def Let_def
    by (auto simp: r f split: prod.splits)
qed

lemma observe_rtt_fields [simp]:
  "fw_config (observe_rtt s w) = fw_config w" "fw_total_chunks (observe_rtt s w) = fw_total_chunks w"
  "fw_next_chunk (observe_rtt s w) = fw_next_chunk w" "fw_in_flight (observe_rtt s w) = fw_in_flight w"
  "fw_acknowledged (observe_rtt s w) = fw_acknowledged w" "fw_failed (observe_rtt s w) = fw_failed w"
  "fw_acknowledged_count (observe_rtt s w) = fw_acknowledged_count w"
  "fw_header_retransmissions (observe_rtt s w) = fw_header_retransmissions w"
  "fw_header_sent (observe_rtt s w) = fw_header_sent w"
  "fw_header_received (observe_rtt s w) = fw_header_received w"
  by (simp_all add: observe_rtt_def Let_def)

lemma window_ok_observe: "window_ok w \<Longrightarrow> window_ok (observe_rtt s w)"
  unfolding window_ok_def observe_rtt_fields by (auto simp: observe_rtt_def Let_def window_config_ok_def)

lemma acknowledge_chunk_fields [simp]:
  "fw_config (acknowledge_chunk now i w) = fw_config w"
  "fw_total_chunks (acknowledge_chunk now i w) = fw_total_chunks w"
  "fw_next_chunk (acknowledge_chunk now i w) = fw_next_chunk w"
  by (auto simp: acknowledge_chunk_def Let_def split: option.split)

lemma window_ok_ack_chunk:
  assumes "window_ok w" "i < fw_total_chunks w"
  shows "window_ok (acknowledge_chunk now i w)"
proof -
  have mark: "window_ok (v\<lparr>fw_acknowledged := (fw_acknowledged v)[i := True],
      fw_acknowledged_count := fw_acknowledged_count v + 1, fw_in_flight := map_erase i (fw_in_flight v)\<rparr>)"
    if "window_ok v" "i < fw_total_chunks v" "\<not> fw_acknowledged v ! i" for v
  proof -
    have "length (map_erase i (fw_in_flight v)) \<le> wc_window_size (fw_config v)"
      using that(1) length_erase_le [of i "fw_in_flight v"] unfolding window_ok_def by linarith
    moreover have "set (map_erase i (fw_in_flight v)) \<subseteq> set (fw_in_flight v)" by (auto simp: map_erase_def)
    ultimately show ?thesis using that count_list_update [of i "fw_acknowledged v" True]
      by (auto simp: window_ok_def nth_list_update)
  qed
  show ?thesis
    using assms mark [OF assms] mark [OF window_ok_observe [OF assms(1)]]
    by (auto simp: acknowledge_chunk_def Let_def split: option.split)
qed

lemma window_ok_ack_range: "window_ok w \<Longrightarrow> window_ok (acknowledge_range now r w) \<and>
    fw_total_chunks (acknowledge_range now r w) = fw_total_chunks w"
proof -
  have "window_ok v \<Longrightarrow> \<forall>i \<in> set is. i < fw_total_chunks v \<Longrightarrow>
    window_ok (fold (acknowledge_chunk now) is v) \<and>
    fw_total_chunks (fold (acknowledge_chunk now) is v) = fw_total_chunks v" for "is" v
    by (induction "is" arbitrary: v) (simp_all add: window_ok_ack_chunk)
  then show "window_ok w \<Longrightarrow> ?thesis" by (simp add: acknowledge_range_def)
qed

lemma window_ok_acknowledge:
  assumes "window_ok w"
  shows "window_ok (window_acknowledge ack now w)"
proof -
  have "window_ok v \<Longrightarrow> window_ok (fold (acknowledge_range now) rs v)" for rs v
    by (induction rs arbitrary: v) (simp_all add: window_ok_ack_range)
  moreover have "window_ok (v\<lparr>fw_header_received := True\<rparr>)" if "window_ok v" for v
    using that by (simp add: window_ok_def)
  ultimately show ?thesis using assms
    by (auto simp: window_acknowledge_def Let_def window_ok_observe)
qed

section \<open>Runs\<close>

datatype window_call = Poll time | Acknowledge FileTransferAck time | Cancel

fun window_step :: "window_call \<Rightarrow> FileSendWindow \<Rightarrow> FileSendAction \<times> FileSendWindow" where
  "window_step (Poll now) w = window_poll now w"
| "window_step (Acknowledge ack now) w = (\<lparr>sa_send_header = False, sa_chunks = []\<rparr>, window_acknowledge ack now w)"
| "window_step Cancel w = (\<lparr>sa_send_header = False, sa_chunks = []\<rparr>, window_cancel w)"

text \<open>The chunks sent in a run, in order.\<close>

fun window_run :: "window_call list \<Rightarrow> FileSendWindow \<Rightarrow> nat list \<times> FileSendWindow" where
  "window_run [] w = ([], w)"
| "window_run (c # cs) w =
    (let (action, w) = window_step c w; (sent, w) = window_run cs w in (sa_chunks action @ sent, w))"

lemma window_ok_cancel: "window_ok w \<Longrightarrow> window_ok (window_cancel w)"
  by (simp add: window_ok_def window_cancel_def)

lemma window_ok_step: "window_ok w \<Longrightarrow> window_ok (snd (window_step c w))"
  by (cases c) (simp_all add: window_ok_poll window_ok_acknowledge window_ok_cancel)

lemma window_ok_run: "window_ok w \<Longrightarrow> window_ok (snd (window_run cs w))"
proof (induction cs arbitrary: w)
  case (Cons c cs)
  from Cons.IH [OF window_ok_step [OF Cons.prems, of c]] show ?case by (simp add: split_beta Let_def)
qed simp

section \<open>How often a chunk is sent\<close>

text \<open>The number of times a chunk may have been sent in a state.\<close>

definition send_budget :: "FileSendWindow \<Rightarrow> nat \<Rightarrow> nat" where
  "send_budget w k = (case map_of (fw_in_flight w) k of
     Some e \<Rightarrow> if_retransmissions e + 1
   | None \<Rightarrow> if k < fw_next_chunk w then wc_retry_limit (fw_config w) + 1 else 0)"

lemma retransmit_counts:
  assumes "retransmit now rto lim es = (failed, chunks, es')" "map_ok es"
  shows "(case map_of es k of None \<Rightarrow> map_of es' k = None \<and> count_list chunks k = 0
    | Some e \<Rightarrow> \<exists>e'. map_of es' k = Some e' \<and> count_list chunks k + if_retransmissions e \<le> if_retransmissions e')"
  using assms
proof (induction now rto lim es arbitrary: failed chunks es' rule: retransmit.induct)
  case (2 now rto lim j e es)
  obtain f c es1 where r: "retransmit now rto lim es = (f, c, es1)" by (cases "retransmit now rto lim es") auto
  have ok: "map_ok es" "map_of es j = None" using 2(4) by (auto simp: map_ok_Cons map_of_eq_None_iff)
  consider (wait) "now - if_sent_at e < rto"
    | (stop) "\<not> now - if_sent_at e < rto" "if_retransmissions e \<ge> lim"
    | (again) "\<not> now - if_sent_at e < rto" "\<not> if_retransmissions e \<ge> lim" by blast
  then show ?case
  proof cases
    case wait
    from 2(1) [OF wait r ok(1)] 2(3) ok wait r show ?thesis by (auto split: option.splits)
  next
    case stop
    with 2(3) show ?thesis by (auto split: option.split)
  next
    case again
    from 2(2) [OF again r ok(1)] 2(3) ok again r show ?thesis by (auto split: option.splits)
  qed
qed auto

lemma fill_window_keeps:
  assumes "fill_window now ws tc acked n m = (chunks, n', m')" "j < n"
  shows "map_of m' j = map_of m j"
  using assms
proof (induction now ws tc acked n m arbitrary: chunks n' m' rule: fill_window.induct)
  case (1 now ws tc acked n m)
  show ?case
  proof (cases "length m < ws \<and> n < tc")
    case True
    show ?thesis
    proof (cases "acked ! n")
      case acked: True
      with True 1(3) have "fill_window now ws tc acked (n + 1) m = (chunks, n', m')"
        by (simp add: fill_window.simps [of now ws tc acked n m])
      from 1(1) [OF True acked this] 1(4) show ?thesis by simp
    next
      case fresh: False
      then obtain chunks1 where "fill_window now ws tc acked (n + 1)
          (map_put n \<lparr>if_sent_at = now, if_retransmissions = 0\<rparr> m) = (chunks1, n', m')"
        using True 1(3) by (auto simp: fill_window.simps [of now ws tc acked n m] split: prod.splits)
      from 1(2) [OF True fresh this] 1(4) show ?thesis by simp
    qed
  qed (use 1(3) in \<open>auto simp: fill_window.simps [of now ws tc acked n m] split: if_splits\<close>)
qed

lemma poll_cases:
  assumes "window_poll now w = (a, w')"
  obtains (idle) "a = \<lparr>sa_send_header = False, sa_chunks = []\<rparr>" "w' = w"
      "fw_failed w \<or> window_complete w \<or> fw_total_chunks w = 0 \<or>
       \<not> fw_header_received w \<and> fw_header_sent w \<and> now - fw_header_sent_at w < fw_rto w"
  | (header) "\<not> fw_header_received w" "sa_chunks a = []" "\<not> fw_failed w" "\<not> window_complete w"
      "\<not> fw_header_sent w \<or> now - fw_header_sent_at w \<ge> fw_rto w"
      "w' = w\<lparr>fw_header_retransmissions := fw_header_retransmissions w + (if fw_header_sent w then 1 else 0),
             fw_header_sent := True, fw_header_sent_at := now\<rparr>"
  | (header_failed) "sa_chunks a = []" "w' = w\<lparr>fw_failed := True\<rparr>"
  | (failed) resent es where "fw_header_received w"
      "retransmit now (fw_rto w) (wc_retry_limit (fw_config w)) (fw_in_flight w) = (True, resent, es)"
      "sa_chunks a = []" "w' = w\<lparr>fw_failed := True, fw_in_flight := es\<rparr>"
  | (data) resent es fresh n m where "fw_header_received w" "\<not> fw_failed w" "\<not> window_complete w" "fw_total_chunks w \<noteq> 0"
      "retransmit now (fw_rto w) (wc_retry_limit (fw_config w)) (fw_in_flight w) = (False, resent, es)"
      "fill_window now (wc_window_size (fw_config w)) (fw_total_chunks w) (fw_acknowledged w) (fw_next_chunk w) es = (fresh, n, m)"
      "sa_chunks a = resent @ fresh" "w' = w\<lparr>fw_next_chunk := n, fw_in_flight := m\<rparr>"
proof -
  note p = assms [unfolded window_poll_def Let_def]
  show thesis
  proof (cases "fw_failed w \<or> window_complete w \<or> fw_total_chunks w = 0")
    case True
    with p show ?thesis by (intro idle) (auto split: if_splits)
  next
    case live: False
    show ?thesis
    proof (cases "fw_header_received w")
      case wait: False
      show ?thesis
      proof (cases "\<not> fw_header_sent w \<or> now - fw_header_sent_at w \<ge> fw_rto w")
        case due: True
        show ?thesis
        proof (cases "fw_header_sent w \<and> fw_header_retransmissions w \<ge> wc_retry_limit (fw_config w)")
          case True
          from p live wait due True show ?thesis by (intro header_failed) auto
        next
          case False
          from p live wait due False show ?thesis by (intro header) auto
        qed
      next
        case False
        from p live wait False show ?thesis by (intro idle) auto
      qed
    next
      case rcv: True
      obtain f resent es where r:
        "retransmit now (fw_rto w) (wc_retry_limit (fw_config w)) (fw_in_flight w) = (f, resent, es)"
        by (cases "retransmit now (fw_rto w) (wc_retry_limit (fw_config w)) (fw_in_flight w)") auto
      obtain fresh n m where g: "fill_window now (wc_window_size (fw_config w)) (fw_total_chunks w)
          (fw_acknowledged w) (fw_next_chunk w) es = (fresh, n, m)"
        by (cases "fill_window now (wc_window_size (fw_config w)) (fw_total_chunks w)
          (fw_acknowledged w) (fw_next_chunk w) es") auto
      show ?thesis
      proof (cases f)
        case True
        from p live rcv r True show ?thesis by (intro failed [of resent es]) auto
      next
        case False
        from p live rcv r g False show ?thesis by (intro data [of resent es fresh n m]) auto
      qed
    qed
  qed
qed

lemma send_budget_cong:
  "fw_in_flight w' = fw_in_flight w \<Longrightarrow> fw_next_chunk w' = fw_next_chunk w \<Longrightarrow> fw_config w' = fw_config w \<Longrightarrow>
    send_budget w' k = send_budget w k"
  by (auto simp: send_budget_def split: option.split)

lemma count_distinct: "distinct xs \<Longrightarrow> count_list xs k = (if k \<in> set xs then 1 else 0)"
  by (induction xs) auto

lemma send_budget_poll:
  assumes ok: "window_ok w" and p: "window_poll now w = (a, w')"
  shows "count_list (sa_chunks a) k + send_budget w k \<le> send_budget w' k"
  using p
proof (cases rule: poll_cases)
  case idle
  then show ?thesis by simp
next
  case header
  then have "send_budget w' k = send_budget w k" by (intro send_budget_cong) simp_all
  with header(2) show ?thesis by simp
next
  case header_failed
  then have "send_budget w' k = send_budget w k" by (intro send_budget_cong) simp_all
  with header_failed(1) show ?thesis by simp
next
  case (failed resent es)
  have "map_ok (fw_in_flight w)" using ok by (simp add: window_ok_def)
  from retransmit_counts [OF failed(2) this, of k] show ?thesis
    unfolding failed(3,4) by (auto simp: send_budget_def split: option.splits)
next
  case (data resent es fresh n m)
  note W = ok [unfolded window_ok_def]
  have okf: "map_ok (fw_in_flight w)" using W by blast
  have lim: "\<forall>e \<in> set (fw_in_flight w). if_retransmissions (snd e) \<le> wc_retry_limit (fw_config w)" using W by blast
  note R = retransmit_law [OF data(5) lim] retransmit_counts [OF data(5) okf, of k]
  have keys: "map_ok es" "length es \<le> wc_window_size (fw_config w)"
    "\<forall>k. map_contains k es \<longleftrightarrow> k < fw_next_chunk w \<and> \<not> fw_acknowledged w ! k"
    unfolding same_keys [OF conjunct1 [OF R(1)]] using W by blast+
  have n: "fw_next_chunk w \<le> fw_total_chunks w" using W by blast
  have "\<forall>e \<in> set es. if_retransmissions (snd e) \<le> wc_retry_limit (fw_config w)" using R(1) by blast
  note F = fill_window_law [OF data(6) keys(1) n keys(2,3) this]
  have fr: "fresh = filter (\<lambda>k. \<not> fw_acknowledged w ! k) [fw_next_chunk w..<n]"
    and mk: "\<forall>k. map_contains k m \<longleftrightarrow> k < n \<and> \<not> fw_acknowledged w ! k" and nn: "fw_next_chunk w \<le> n"
    using F by blast+
  have fresh: "count_list fresh k = (if fw_next_chunk w \<le> k \<and> k < n \<and> \<not> fw_acknowledged w ! k then 1 else 0)"
    unfolding fr by (subst count_distinct) auto
  have m: "map_of m k \<noteq> None \<longleftrightarrow> k < n \<and> \<not> fw_acknowledged w ! k"
    using mk unfolding map_contains_iff by blast
  have keep: "map_of m k = map_of es k" if "k < fw_next_chunk w" using fill_window_keeps [OF data(6) that] .
  have inw: "map_of (fw_in_flight w) k \<noteq> None \<longleftrightarrow> k < fw_next_chunk w \<and> \<not> fw_acknowledged w ! k"
    using W unfolding map_contains_iff by blast
  have budget: "send_budget w' k = (case map_of m k of Some e \<Rightarrow> if_retransmissions e + 1
      | None \<Rightarrow> if k < n then wc_retry_limit (fw_config w) + 1 else 0)"
    unfolding data(8) by (auto simp: send_budget_def split: option.split)
  have sent: "count_list (sa_chunks a) k = count_list resent k + count_list fresh k" using data(7) by simp
  show ?thesis
  proof (cases "map_of (fw_in_flight w) k")
    case None
    with R(2) have r: "count_list resent k = 0" by simp
    show ?thesis
    proof (cases "k < fw_next_chunk w")
      case True
      with None inw m have "map_of m k = None" by auto
      with True nn None r fresh sent budget show ?thesis by (simp add: send_budget_def)
    next
      case False
      with m None r fresh sent budget show ?thesis
        by (cases "map_of m k") (simp_all add: send_budget_def)
    qed
  next
    case (Some e)
    with inw have k: "k < fw_next_chunk w" by auto
    from R(2) Some obtain e' where "map_of es k = Some e'"
      "count_list resent k + if_retransmissions e \<le> if_retransmissions e'" by auto
    with keep [OF k] k Some fresh sent budget show ?thesis by (simp add: send_budget_def)
  qed
qed

lemma acknowledge_chunk_flight:
  "fw_in_flight (acknowledge_chunk now i w) =
    (if fw_acknowledged w ! i then fw_in_flight w else map_erase i (fw_in_flight w))"
  by (auto simp: acknowledge_chunk_def Let_def split: option.split)

lemma in_flight_ok:
  assumes "window_ok w" "map_of (fw_in_flight w) k = Some e"
  shows "if_retransmissions e \<le> wc_retry_limit (fw_config w)" "k < fw_next_chunk w" "\<not> fw_acknowledged w ! k"
  using assms map_of_SomeD [OF assms(2)] unfolding window_ok_def map_contains_iff by (force, blast+)

lemma send_budget_ack_chunk:
  assumes "window_ok w"
  shows "send_budget w k \<le> send_budget (acknowledge_chunk now i w) k"
proof (cases "map_of (fw_in_flight w) k")
  case (Some e)
  from in_flight_ok [OF assms Some] Some show ?thesis by (auto simp: send_budget_def acknowledge_chunk_flight)
qed (auto simp: send_budget_def acknowledge_chunk_flight)

lemma send_budget_ack_chunks:
  "window_ok w \<Longrightarrow> \<forall>i \<in> set is. i < fw_total_chunks w \<Longrightarrow>
    send_budget w k \<le> send_budget (fold (acknowledge_chunk now) is w) k"
proof (induction "is" arbitrary: w)
  case (Cons i js)
  then have "window_ok (acknowledge_chunk now i w)" by (simp add: window_ok_ack_chunk)
  with Cons have "send_budget (acknowledge_chunk now i w) k \<le>
      send_budget (fold (acknowledge_chunk now) js (acknowledge_chunk now i w)) k" by simp
  with send_budget_ack_chunk [OF Cons.prems(1), where k = k and now = now and i = i] show ?case by (simp add: order_trans)
qed simp

lemma send_budget_ack_ranges:
  "window_ok w \<Longrightarrow> send_budget w k \<le> send_budget (fold (acknowledge_range now) rs w) k"
proof (induction rs arbitrary: w)
  case (Cons r rs)
  have "send_budget w k \<le> send_budget (acknowledge_range now r w) k"
    unfolding acknowledge_range_def using Cons.prems by (intro send_budget_ack_chunks) auto
  also have "\<dots> \<le> send_budget (fold (acknowledge_range now) rs (acknowledge_range now r w)) k"
    using Cons window_ok_ack_range by blast
  finally show ?case by simp
qed simp

lemma send_budget_acknowledge:
  assumes "window_ok w"
  shows "send_budget w k \<le> send_budget (window_acknowledge ack now w) k"
proof -
  let ?h = "\<lambda>v. v\<lparr>fw_header_received := True\<rparr>"
  have h: "window_ok (?h v)" "send_budget (?h v) k = send_budget v k" if "window_ok v" for v
    using that by (simp_all add: window_ok_def send_budget_cong [of "?h v" v])
  have o: "send_budget (observe_rtt s w) k = send_budget w k" for s
    by (rule send_budget_cong) simp_all
  show ?thesis
    using send_budget_ack_ranges [OF assms, where k = k and now = now and rs = "fa_ranges ack"]
      send_budget_ack_ranges [OF h(1) [OF assms], where k = k and now = now and rs = "fa_ranges ack"]
      send_budget_ack_ranges [OF h(1) [OF window_ok_observe [OF assms]], where k = k and now = now and rs = "fa_ranges ack"]
      h(2) [OF assms] h(2) [OF window_ok_observe [OF assms]] o
    by (auto simp: window_acknowledge_def Let_def)
qed

lemma send_budget_cancel: "send_budget (window_cancel w) k = send_budget w k"
  by (rule send_budget_cong) (simp_all add: window_cancel_def)

lemma send_budget_step:
  "window_ok w \<Longrightarrow> window_step c w = (a, w') \<Longrightarrow> count_list (sa_chunks a) k + send_budget w k \<le> send_budget w' k"
  using send_budget_poll send_budget_acknowledge
  by (cases c) (auto simp: send_budget_cancel)

lemma send_budget_run:
  "window_ok w \<Longrightarrow> window_run cs w = (sent, w') \<Longrightarrow> count_list sent k + send_budget w k \<le> send_budget w' k"
proof (induction cs arbitrary: w sent)
  case (Cons c cs)
  obtain a w1 where 1: "window_step c w = (a, w1)" by fastforce
  obtain sent1 where 2: "window_run cs w1 = (sent1, w')" "sent = sa_chunks a @ sent1"
    using Cons.prems(2) 1 by (auto split: prod.splits)
  have "window_ok w1" using window_ok_step [OF Cons.prems(1), of c] 1 by simp
  from Cons.IH [OF this 2(1)] send_budget_step [OF Cons.prems(1) 1, of k] 2(2) show ?case by simp
qed simp

lemma send_budget_bound:
  assumes "window_ok w"
  shows "send_budget w k \<le> wc_retry_limit (fw_config w) + 1"
proof (cases "map_of (fw_in_flight w) k")
  case (Some e)
  with in_flight_ok [OF assms Some] show ?thesis by (simp add: send_budget_def)
qed (simp add: send_budget_def)

section \<open>A sender that hears nothing stops\<close>

text \<open>The sender waits: some item was last sent by \<open>t\<close> and has been resent \<open>j\<close> times.\<close>

definition waiting :: "nat \<Rightarrow> time \<Rightarrow> FileSendWindow \<Rightarrow> bool" where
  "waiting j t w \<longleftrightarrow> fw_total_chunks w \<noteq> 0 \<and>
     (if fw_header_received w
      then \<exists>e \<in> set (fw_in_flight w). j \<le> if_retransmissions (snd e) \<and> if_sent_at (snd e) \<le> t
      else fw_header_sent w \<and> j \<le> fw_header_retransmissions w \<and> fw_header_sent_at w \<le> t)"

definition stopped :: "FileSendWindow \<Rightarrow> bool" where
  "stopped w \<longleftrightarrow> fw_failed w \<or> window_complete w"

text \<open>No time recorded in the window is after \<open>t\<close>.\<close>

definition recorded_by :: "time \<Rightarrow> FileSendWindow \<Rightarrow> bool" where
  "recorded_by t w \<longleftrightarrow> fw_header_sent_at w \<le> t \<and> (\<forall>e \<in> set (fw_in_flight w). if_sent_at (snd e) \<le> t)"

lemma waiting_bound: "window_ok w \<Longrightarrow> waiting j t w \<Longrightarrow> j \<le> wc_retry_limit (fw_config w)"
  unfolding waiting_def window_ok_def by (cases "fw_header_received w") (auto intro: order_trans)

lemma retransmit_due:
  assumes "retransmit now rto lim es = (False, chunks, es')" "(k, e) \<in> set es"
  shows "\<exists>e'. (k, e') \<in> set es' \<and> (if now - if_sent_at e \<ge> rto
    then if_retransmissions e' = if_retransmissions e + 1 \<and> if_sent_at e' = now else e' = e)"
  using assms
proof (induction now rto lim es arbitrary: chunks es' rule: retransmit.induct)
  case (2 now rto lim j d es)
  obtain f c es1 where r: "retransmit now rto lim es = (f, c, es1)" by (cases "retransmit now rto lim es") auto
  show ?case
  proof (cases "now - if_sent_at d < rto")
    case True
    with 2(3) r have "f = False" "es' = (j, d) # es1" by simp_all
    show ?thesis
    proof (cases "(k, e) = (j, d)")
      case True
      with \<open>now - if_sent_at d < rto\<close> \<open>es' = (j, d) # es1\<close> show ?thesis by auto
    next
      case other: False
      with 2(4) have "(k, e) \<in> set es" by auto
      from 2(1) [OF True _ this] r \<open>f = False\<close> \<open>es' = (j, d) # es1\<close> show ?thesis
        by (metis list.set_intros(2))
    qed
  next
    case False
    with 2(3) r have f: "\<not> if_retransmissions d \<ge> lim" "f = False"
      "es' = (j, \<lparr>if_sent_at = now, if_retransmissions = if_retransmissions d + 1\<rparr>) # es1"
      by (auto split: if_splits)
    show ?thesis
    proof (cases "(k, e) = (j, d)")
      case True
      with f(3) False show ?thesis by auto
    next
      case other: False
      with 2(4) have "(k, e) \<in> set es" by auto
      from 2(2) [OF False f(1) _ this] r f(2,3) show ?thesis by (metis list.set_intros(2))
    qed
  qed
qed simp

lemma retransmit_times:
  "retransmit now rto lim es = (f, chunks, es') \<Longrightarrow> \<forall>e \<in> set es. if_sent_at (snd e) \<le> now \<Longrightarrow>
    \<forall>e \<in> set es'. if_sent_at (snd e) \<le> now"
  by (induction now rto lim es arbitrary: f chunks es' rule: retransmit.induct)
    (fastforce split: if_splits prod.splits)+

lemma fill_window_times:
  assumes "fill_window now ws tc acked n m = (chunks, n', m')" "\<forall>e \<in> set m. if_sent_at (snd e) \<le> now"
  shows "\<forall>e \<in> set m'. if_sent_at (snd e) \<le> now"
  using assms
proof (induction now ws tc acked n m arbitrary: chunks n' m' rule: fill_window.induct)
  case (1 now ws tc acked n m)
  show ?case
  proof (cases "length m < ws \<and> n < tc")
    case True
    show ?thesis
    proof (cases "acked ! n")
      case acked: True
      with True 1(3) have "fill_window now ws tc acked (n + 1) m = (chunks, n', m')"
        by (simp add: fill_window.simps [of now ws tc acked n m])
      from 1(1) [OF True acked this 1(4)] show ?thesis .
    next
      case fresh: False
      then obtain chunks1 where r: "fill_window now ws tc acked (n + 1)
          (map_put n \<lparr>if_sent_at = now, if_retransmissions = 0\<rparr> m) = (chunks1, n', m')"
        using True 1(3) by (auto simp: fill_window.simps [of now ws tc acked n m] split: prod.splits)
      have "\<forall>e \<in> set (map_put n \<lparr>if_sent_at = now, if_retransmissions = 0\<rparr> m). if_sent_at (snd e) \<le> now"
        using 1(4) set_put_subset [of n _ m] by fastforce
      from 1(2) [OF True fresh r this] show ?thesis .
    qed
  qed (use 1(3,4) in \<open>auto simp: fill_window.simps [of now ws tc acked n m] split: if_splits\<close>)
qed

text \<open>What a poll in the data phase does to the table of chunks in flight.\<close>

lemma data_poll:
  assumes ok: "window_ok w"
    and r: "retransmit now (fw_rto w) (wc_retry_limit (fw_config w)) (fw_in_flight w) = (False, resent, es)"
    and f: "fill_window now (wc_window_size (fw_config w)) (fw_total_chunks w) (fw_acknowledged w) (fw_next_chunk w) es = (fresh, n, m)"
  shows "length m < wc_window_size (fw_config w) \<longrightarrow> n = fw_total_chunks w"
    "map_contains k m \<longleftrightarrow> k < n \<and> \<not> fw_acknowledged w ! k"
    "map_of (fw_in_flight w) k = Some e \<Longrightarrow> now - if_sent_at e \<ge> fw_rto w \<Longrightarrow>
       \<exists>e' \<in> set m. if_retransmissions (snd e') = if_retransmissions e + 1 \<and> if_sent_at (snd e') = now"
proof -
  note W = ok [unfolded window_ok_def]
  have lim: "\<forall>e \<in> set (fw_in_flight w). if_retransmissions (snd e) \<le> wc_retry_limit (fw_config w)"
    and n: "fw_next_chunk w \<le> fw_total_chunks w" using W by blast+
  note R = retransmit_law [OF r lim]
  have keys: "map_ok es" "length es \<le> wc_window_size (fw_config w)"
    "\<forall>k. map_contains k es \<longleftrightarrow> k < fw_next_chunk w \<and> \<not> fw_acknowledged w ! k"
    unfolding same_keys [OF conjunct1 [OF R]] using W by blast+
  note F = fill_window_law [OF f keys(1) n keys(2,3)] R
  show "length m < wc_window_size (fw_config w) \<longrightarrow> n = fw_total_chunks w"
    "map_contains k m \<longleftrightarrow> k < n \<and> \<not> fw_acknowledged w ! k" using F by blast+
  assume e: "map_of (fw_in_flight w) k = Some e" "now - if_sent_at e \<ge> fw_rto w"
  from retransmit_due [OF r map_of_SomeD [OF e(1)]] e(2)
  obtain e' where e': "(k, e') \<in> set es" "if_retransmissions e' = if_retransmissions e + 1" "if_sent_at e' = now"
    by auto
  have "map_of m k = map_of es k" using fill_window_keeps [OF f in_flight_ok(2) [OF ok e(1)]] .
  then have "map_of m k = Some e'" using e'(1) map_ok_mem [OF keys(1)] by simp
  from map_of_SomeD [OF this] e'
  show "\<exists>e' \<in> set m. if_retransmissions (snd e') = if_retransmissions e + 1 \<and> if_sent_at (snd e') = now" by force
qed

lemma incomplete_chunk:
  assumes "window_ok w" "\<not> window_complete w" "fw_total_chunks w \<noteq> 0"
  obtains k where "k < fw_total_chunks w" "\<not> fw_acknowledged w ! k"
  using assms count_list_full [of "fw_acknowledged w"]
  by (auto simp: window_ok_def window_complete_def all_set_conv_all_nth)

lemma poll_first:
  assumes ok: "window_ok w" and "\<not> stopped w" "fw_total_chunks w \<noteq> 0" "recorded_by t w" and p: "window_poll t w = (a, w')"
  shows "stopped w' \<or> waiting 0 t w'"
  using p
proof (cases rule: poll_cases)
  case (data resent es fresh n m)
  note D = data_poll [OF ok data(5,6)]
  have "\<forall>e \<in> set m. if_sent_at (snd e) \<le> t"
    using assms(4) by (intro fill_window_times [OF data(6)] retransmit_times [OF data(5)]) (simp add: recorded_by_def)
  moreover have "m \<noteq> []"
  proof
    assume "m = []"
    moreover have "wc_window_size (fw_config w) \<noteq> 0"
      using ok assms(3) by (auto simp: window_ok_def window_config_ok_def)
    moreover obtain k where "k < fw_total_chunks w" "\<not> fw_acknowledged w ! k"
      by (rule incomplete_chunk [OF ok data(3,4)])
    ultimately show False using D(1,2) by simp
  qed
  ultimately show ?thesis unfolding data(8) using data(1) assms(3) by (cases m) (auto simp: waiting_def)
qed (use assms(2-4) in \<open>auto simp: stopped_def waiting_def recorded_by_def\<close>)

lemma poll_again:
  assumes ok: "window_ok w" and "\<not> stopped w" "waiting j t w" "t + wc_maximum_rto (fw_config w) \<le> t'"
    and p: "window_poll t' w = (a, w')"
  shows "stopped w' \<or> waiting (j + 1) t' w'"
proof -
  have rto: "fw_rto w \<le> wc_maximum_rto (fw_config w)" using ok assms(3) by (simp add: window_ok_def waiting_def)
  show ?thesis using p
  proof (cases rule: poll_cases)
    case (data resent es fresh n m)
    note D = data_poll [OF ok data(5,6)]
    obtain k e where e: "(k, e) \<in> set (fw_in_flight w)" "j \<le> if_retransmissions e" "if_sent_at e \<le> t"
      using assms(3) data(1) by (auto simp: waiting_def)
    have "map_ok (fw_in_flight w)" using ok by (simp add: window_ok_def)
    then have "map_of (fw_in_flight w) k = Some e" using e(1) by (simp add: map_ok_mem)
    from D(3) [OF this] e rto assms(4) data(1,4) show ?thesis
      unfolding data(8) by (fastforce simp: waiting_def)
  qed (use assms(2-4) rto in \<open>auto simp: stopped_def waiting_def\<close>)
qed

lemma poll_config:
  "window_poll t w = (a, w') \<Longrightarrow> fw_config w' = fw_config w \<and> fw_total_chunks w' = fw_total_chunks w"
  by (erule poll_cases) auto

lemma poll_stopped: "stopped w \<Longrightarrow> window_poll t w = (a, w') \<Longrightarrow> stopped w'"
  by (auto simp: stopped_def window_poll_def)

definition poll_run :: "time list \<Rightarrow> FileSendWindow \<Rightarrow> FileSendWindow" where
  "poll_run ts w = fold (\<lambda>t w. snd (window_poll t w)) ts w"

lemma poll_run_stopped: "stopped w \<Longrightarrow> stopped (poll_run ts w)"
  by (induction ts arbitrary: w) (auto simp: poll_run_def intro: poll_stopped [OF _ surjective_pairing])

lemma poll_run_waiting:
  "window_ok w \<Longrightarrow> waiting j t w \<Longrightarrow> sorted_wrt (\<lambda>a b. a + wc_maximum_rto (fw_config w) \<le> b) (t # ts) \<Longrightarrow>
    j + length ts > wc_retry_limit (fw_config w) \<Longrightarrow> stopped (poll_run ts w)"
proof (induction ts arbitrary: w j t)
  case Nil
  with waiting_bound [OF Nil(1,2)] show ?case by simp
next
  case (Cons t' ts)
  obtain a w' where p: "window_poll t' w = (a, w')" by fastforce
  have run: "poll_run (t' # ts) w = poll_run ts w'" by (simp add: poll_run_def p)
  show ?case
  proof (cases "stopped w \<or> stopped w'")
    case True
    then show ?thesis unfolding run using poll_stopped [OF _ p] poll_run_stopped by blast
  next
    case False
    with poll_again [OF Cons.prems(1) _ Cons.prems(2) _ p] Cons.prems(3) have "waiting (j + 1) t' w'" by auto
    moreover have "window_ok w'" using window_ok_poll [OF Cons.prems(1), of t'] p by simp
    ultimately show ?thesis unfolding run using Cons.IH [of w' "j + 1" t'] Cons.prems(3,4) poll_config [OF p] by simp
  qed
qed

lemma poll_run_stops:
  assumes "window_ok w" "fw_total_chunks w \<noteq> 0" "recorded_by t w"
    and "sorted_wrt (\<lambda>a b. a + wc_maximum_rto (fw_config w) \<le> b) (t # ts)"
    and "length ts > wc_retry_limit (fw_config w)"
  shows "stopped (poll_run (t # ts) w)"
proof -
  obtain a w' where p: "window_poll t w = (a, w')" by fastforce
  have run: "poll_run (t # ts) w = poll_run ts w'" by (simp add: poll_run_def p)
  show ?thesis
  proof (cases "stopped w \<or> stopped w'")
    case True
    then show ?thesis unfolding run using poll_stopped [OF _ p] poll_run_stopped by blast
  next
    case False
    with poll_first [OF assms(1) _ assms(2,3) p] have "waiting 0 t w'" by blast
    moreover have "window_ok w'" using window_ok_poll [OF assms(1), of t] p by simp
    ultimately show ?thesis unfolding run using poll_run_waiting [of w' 0 t ts] assms(4,5) poll_config [OF p] by simp
  qed
qed

end
