(* ===== verification/File_Codec.thy ===== *)
theory File_Codec
  imports File_Window Wire_List Packet_Header
begin

text \<open>
  The messages of a file transfer in \<open>src/file/transfer.cpp\<close>: file names, the
  arithmetic of chunks, the codecs of header, chunk, acknowledgement and
  cancellation, and the admission rules.
\<close>

abbreviation FILE_HEADER_FIXED_SIZE :: nat where "FILE_HEADER_FIXED_SIZE \<equiv> 58"
abbreviation FILE_CHUNK_FIXED_SIZE :: nat where "FILE_CHUNK_FIXED_SIZE \<equiv> 16"
abbreviation FILE_ACK_FIXED_SIZE :: nat where "FILE_ACK_FIXED_SIZE \<equiv> 12"
abbreviation FILE_ACK_RANGE_SIZE :: nat where "FILE_ACK_RANGE_SIZE \<equiv> 8"
abbreviation FILE_CANCEL_SIZE :: nat where "FILE_CANCEL_SIZE \<equiv> 12"
abbreviation FILE_TRANSFER_MAX_NAME_BYTES :: nat where "FILE_TRANSFER_MAX_NAME_BYTES \<equiv> 255"
abbreviation FILE_TRANSFER_MAX_CHUNK_SIZE :: nat where "FILE_TRANSFER_MAX_CHUNK_SIZE \<equiv> 4076"
abbreviation FILE_TRANSFER_MAX_ACTIVE_PER_PEER :: nat where "FILE_TRANSFER_MAX_ACTIVE_PER_PEER \<equiv> 4"
abbreviation FILE_TRANSFER_MAX_ACTIVE_GLOBAL :: nat where "FILE_TRANSFER_MAX_ACTIVE_GLOBAL \<equiv> 32"
abbreviation FILE_TRANSFER_MAX_RESERVED_PER_PEER :: u64 where "FILE_TRANSFER_MAX_RESERVED_PER_PEER \<equiv> 2147483648"
abbreviation FILE_TRANSFER_MAX_RESERVED_GLOBAL :: u64 where "FILE_TRANSFER_MAX_RESERVED_GLOBAL \<equiv> 8589934592"
abbreviation FILE_TRANSFER_IDLE_TIMEOUT :: time where "FILE_TRANSFER_IDLE_TIMEOUT \<equiv> 300000"

record FileTransferHeader =
  fh_transfer_id :: u64
  fh_file_size :: u64
  fh_chunk_size :: u32
  fh_total_chunks :: u32
  fh_content_hash :: bytes
  fh_filename :: bytes

record FileTransferChunk =
  fc_transfer_id :: u64
  fc_chunk_index :: u32
  fc_data :: bytes

record FileTransferCancel =
  fx_transfer_id :: u64
  fx_reason :: byte

section \<open>File names\<close>

definition ascii_upper :: "byte \<Rightarrow> byte" where
  "ascii_upper v = (if v \<ge> 97 \<and> v \<le> 122 then v - 32 else v)"

definition ascii_iequals :: "bytes \<Rightarrow> bytes \<Rightarrow> bool" where
  "ascii_iequals left right \<longleftrightarrow> length left = length right \<and> map ascii_upper left = right"

definition is_reserved_windows_name :: "bytes \<Rightarrow> bool" where
  "is_reserved_windows_name filename =
    (let stem = takeWhile (\<lambda>b. b \<noteq> 46) filename in
     if list_ex (ascii_iequals stem) (map ascii [''CON'', ''PRN'', ''AUX'', ''NUL'', ''CONIN$'', ''CONOUT$'']) then True
     else if length stem = 4 \<and> stem ! 3 \<ge> 49 \<and> stem ! 3 \<le> 57
     then ascii_iequals (take 3 stem) (ascii ''COM'') \<or> ascii_iequals (take 3 stem) (ascii ''LPT'')
     else False)"

text \<open>Bytes a name must not contain: control characters, delete and the characters
  of \<open>" * / : < > ? \ |\<close>.\<close>

definition forbidden_byte :: "byte \<Rightarrow> bool" where
  "forbidden_byte v \<longleftrightarrow> v < 32 \<or> v = 127 \<or> v \<in> set [34, 42, 47, 58, 60, 62, 63, 92, 124]"

definition is_safe_file_name :: "bytes \<Rightarrow> bool" where
  "is_safe_file_name filename =
    (if filename = [] \<or> length filename > FILE_TRANSFER_MAX_NAME_BYTES \<or>
        filename = ascii ''.'' \<or> filename = ascii ''..'' \<or> last filename = 46 \<or> last filename = 32 \<or>
        is_reserved_windows_name filename then False
     else \<not> list_ex forbidden_byte filename)"

definition sanitize_file_name :: "bytes \<Rightarrow> bytes option" where
  "sanitize_file_name path =
    (let filename = rev (takeWhile (\<lambda>b. b \<noteq> 47 \<and> b \<noteq> 92) (rev path))
     in if \<not> is_safe_file_name filename then None else Some filename)"

definition hex_char :: "byte \<Rightarrow> byte" where
  "hex_char v = ascii ''0123456789abcdef'' ! unat (v AND 15)"

definition file_transfer_part_name :: "node_id \<Rightarrow> u64 \<Rightarrow> bytes" where
  "file_transfer_part_name sender transfer_id =
     ascii ''.aegis-'' @ concat (map (\<lambda>b. [hex_char (drop_bit 4 b), hex_char b]) sender) @ ascii ''-'' @
     map (\<lambda>shift. hex_char (ucast (drop_bit shift transfer_id))) [60, 56, 52, 48, 44, 40, 36, 32, 28, 24, 20, 16, 12, 8, 4, 0] @
     ascii ''.part''"

section \<open>Chunks\<close>

definition file_chunk_size_for_overlay_mtu :: "nat \<Rightarrow> u32 option" where
  "file_chunk_size_for_overlay_mtu overlay_mtu =
    (let payload_budget = min overlay_mtu SESSION_MAX_LOGICAL_PAYLOAD_SIZE in
     if payload_budget < FILE_CHUNK_FIXED_SIZE + FILE_TRANSFER_MIN_CHUNK_SIZE then None
     else Some (of_nat (payload_budget - FILE_CHUNK_FIXED_SIZE)))"

definition file_transfer_chunk_count :: "u64 \<Rightarrow> u32 \<Rightarrow> u32" where
  "file_transfer_chunk_count file_size chunk_size =
    (if unat file_size > FILE_TRANSFER_MAX_FILE_SIZE \<or> unat chunk_size < FILE_TRANSFER_MIN_CHUNK_SIZE \<or>
        unat chunk_size > FILE_TRANSFER_MAX_CHUNK_SIZE then 0
     else if file_size = 0 then 1
     else ucast (1 + (file_size - 1) div ucast chunk_size))"

definition is_valid_file_header :: "FileTransferHeader \<Rightarrow> bool" where
  "is_valid_file_header header =
    (let expected_chunks = file_transfer_chunk_count (fh_file_size header) (fh_chunk_size header) in
     fh_transfer_id header \<noteq> 0 \<and> expected_chunks \<noteq> 0 \<and> fh_total_chunks header = expected_chunks \<and>
     is_safe_file_name (fh_filename header))"

definition is_valid_file_chunk :: "FileTransferChunk \<Rightarrow> bool" where
  "is_valid_file_chunk chunk \<longleftrightarrow> fc_transfer_id chunk \<noteq> 0 \<and> unat (fc_chunk_index chunk) < FILE_TRANSFER_MAX_CHUNKS \<and>
     length (fc_data chunk) \<le> FILE_TRANSFER_MAX_CHUNK_SIZE"

definition expected_chunk_size :: "FileTransferHeader \<Rightarrow> u32 \<Rightarrow> nat" where
  "expected_chunk_size header chunk_index =
    (if chunk_index + 1 = fh_total_chunks header
     then unat (fh_file_size header - ucast chunk_index * ucast (fh_chunk_size header))
     else unat (fh_chunk_size header))"

definition is_valid_file_chunk_for_header :: "FileTransferHeader \<Rightarrow> FileTransferChunk \<Rightarrow> bool" where
  "is_valid_file_chunk_for_header header chunk =
    (if \<not> is_valid_file_header header \<or> \<not> is_valid_file_chunk chunk \<or>
        fc_transfer_id chunk \<noteq> fh_transfer_id header \<or> fc_chunk_index chunk \<ge> fh_total_chunks header then False
     else length (fc_data chunk) = expected_chunk_size header (fc_chunk_index chunk))"

section \<open>Admission\<close>

definition file_transfer_admission_allowed :: "nat \<Rightarrow> u64 \<Rightarrow> nat \<Rightarrow> u64 \<Rightarrow> u64 \<Rightarrow> bool" where
  "file_transfer_admission_allowed peer_count peer_bytes global_count global_bytes requested_bytes =
    (if unat requested_bytes > FILE_TRANSFER_MAX_FILE_SIZE \<or> peer_count \<ge> FILE_TRANSFER_MAX_ACTIVE_PER_PEER \<or>
        global_count \<ge> FILE_TRANSFER_MAX_ACTIVE_GLOBAL then False
     else if peer_bytes > FILE_TRANSFER_MAX_RESERVED_PER_PEER - requested_bytes \<or>
        global_bytes > FILE_TRANSFER_MAX_RESERVED_GLOBAL - requested_bytes then False
     else True)"

definition file_transfer_idle_expired :: "time \<Rightarrow> time \<Rightarrow> bool" where
  "file_transfer_idle_expired last_activity now \<longleftrightarrow>
     now \<ge> last_activity \<and> now - last_activity \<ge> FILE_TRANSFER_IDLE_TIMEOUT"

section \<open>Commit\<close>

datatype FileCommitResult = Committed | IoError | SizeMismatch | DigestMismatch | RenameFailed

text \<open>The file system answers with the size of the partial file, the digest of its
  content and whether the rename succeeded.\<close>

definition verify_and_commit_file ::
    "nat option \<Rightarrow> bytes option \<Rightarrow> bool \<Rightarrow> u64 \<Rightarrow> bytes \<Rightarrow> FileCommitResult" where
  "verify_and_commit_file file_size file_hash renamed expected_size expected_hash =
    (case file_size of None \<Rightarrow> IoError
     | Some actual_size \<Rightarrow>
         if actual_size \<noteq> unat expected_size then SizeMismatch
         else case file_hash of None \<Rightarrow> IoError
         | Some actual_hash \<Rightarrow>
             if actual_hash \<noteq> expected_hash then DigestMismatch
             else if \<not> renamed then RenameFailed else Committed)"

section \<open>Codecs\<close>

definition serialize_file_header :: "FileTransferHeader \<Rightarrow> bytes option" where
  "serialize_file_header header =
    (if \<not> is_valid_file_header header then None
     else do {
       let payload = replicate (FILE_HEADER_FIXED_SIZE + length (fh_filename header)) 0;
       w \<leftarrow> write_u64 (fh_transfer_id header) (WireWriter payload);
       w \<leftarrow> write_u64 (fh_file_size header) w;
       w \<leftarrow> write_u32 (fh_chunk_size header) w;
       w \<leftarrow> write_u32 (fh_total_chunks header) w;
       w \<leftarrow> write_bytes (fh_content_hash header) w;
       w \<leftarrow> write_u16 (of_nat (length (fh_filename header))) w;
       w \<leftarrow> write_bytes (fh_filename header) w;
       if wr_finished w then Some (wr_bytes w) else None })"

definition deserialize_file_header :: "bytes \<Rightarrow> FileTransferHeader option" where
  "deserialize_file_header payload = do {
     (transfer_id, r) \<leftarrow> read_u64 (WireReader payload);
     (file_size, r) \<leftarrow> read_u64 r;
     (chunk_size, r) \<leftarrow> read_u32 r;
     (total_chunks, r) \<leftarrow> read_u32 r;
     (content_hash, r) \<leftarrow> read_bytes 32 r;
     (filename_length, r) \<leftarrow> read_u16 r;
     (filename, r) \<leftarrow> read_bytes (unat filename_length) r;
     if \<not> rd_finished r then None
     else
       let header = \<lparr>fh_transfer_id = transfer_id, fh_file_size = file_size, fh_chunk_size = chunk_size,
             fh_total_chunks = total_chunks, fh_content_hash = content_hash, fh_filename = filename\<rparr>
       in if \<not> is_valid_file_header header then None else Some header }"

definition serialize_file_chunk :: "FileTransferChunk \<Rightarrow> bytes option" where
  "serialize_file_chunk chunk =
    (if \<not> is_valid_file_chunk chunk then None
     else do {
       let payload = replicate (FILE_CHUNK_FIXED_SIZE + length (fc_data chunk)) 0;
       w \<leftarrow> write_u64 (fc_transfer_id chunk) (WireWriter payload);
       w \<leftarrow> write_u32 (fc_chunk_index chunk) w;
       w \<leftarrow> write_u32 (of_nat (length (fc_data chunk))) w;
       w \<leftarrow> write_bytes (fc_data chunk) w;
       if wr_finished w then Some (wr_bytes w) else None })"

definition deserialize_file_chunk :: "bytes \<Rightarrow> FileTransferChunk option" where
  "deserialize_file_chunk payload = do {
     (transfer_id, r) \<leftarrow> read_u64 (WireReader payload);
     (chunk_index, r) \<leftarrow> read_u32 r;
     (data_length, r) \<leftarrow> read_u32 r;
     (data, r) \<leftarrow> read_bytes (unat data_length) r;
     if \<not> rd_finished r then None
     else
       let chunk = \<lparr>fc_transfer_id = transfer_id, fc_chunk_index = chunk_index, fc_data = data\<rparr>
       in if \<not> is_valid_file_chunk chunk then None else Some chunk }"

text \<open>The check of one range against the end of the one before, and the loop over them.\<close>

definition ack_range_ok :: "nat \<Rightarrow> FileAckRange \<Rightarrow> bool" where
  "ack_range_ok previous_end r \<longleftrightarrow> ar_count r \<noteq> 0 \<and> ar_first r + ar_count r \<le> FILE_TRANSFER_MAX_CHUNKS \<and>
     ar_first r \<ge> previous_end"

fun ack_ranges_ok :: "nat \<Rightarrow> FileAckRange list \<Rightarrow> bool" where
  "ack_ranges_ok previous_end [] = True"
| "ack_ranges_ok previous_end (r # rs) \<longleftrightarrow> ack_range_ok previous_end r \<and> ack_ranges_ok (ar_first r + ar_count r) rs"

definition write_ack_range :: "FileAckRange \<Rightarrow> wire_writer \<Rightarrow> wire_writer option" where
  "write_ack_range r w = do { w \<leftarrow> write_u32 (of_nat (ar_first r)) w; write_u32 (of_nat (ar_count r)) w }"

definition serialize_file_ack :: "FileTransferAck \<Rightarrow> bytes option" where
  "serialize_file_ack ack =
    (if fa_transfer_id ack = 0 \<or> length (fa_ranges ack) > FILE_ACK_MAX_RANGES then None
     else if \<not> ack_ranges_ok 0 (fa_ranges ack) then None
     else do {
       let payload = replicate (FILE_ACK_FIXED_SIZE + length (fa_ranges ack) * FILE_ACK_RANGE_SIZE) 0;
       w \<leftarrow> write_u64 (fa_transfer_id ack) (WireWriter payload);
       w \<leftarrow> write_u8 (if fa_header_received ack then 1 else 0) w;
       w \<leftarrow> write_u8 0 w;
       w \<leftarrow> write_u16 (of_nat (length (fa_ranges ack))) w;
       w \<leftarrow> write_each write_ack_range (fa_ranges ack) w;
       if wr_finished w then Some (wr_bytes w) else None })"

definition read_ack_range :: "wire_reader \<Rightarrow> (FileAckRange \<times> wire_reader) option" where
  "read_ack_range r = do {
     (first, r) \<leftarrow> read_u32 r;
     (n, r) \<leftarrow> read_u32 r;
     Some (\<lparr>ar_first = unat first, ar_count = unat n\<rparr>, r) }"

fun read_ack_ranges :: "nat \<Rightarrow> nat \<Rightarrow> wire_reader \<Rightarrow> (FileAckRange list \<times> wire_reader) option" where
  "read_ack_ranges previous_end 0 r = Some ([], r)"
| "read_ack_ranges previous_end (Suc n) r = do {
     (x, r) \<leftarrow> read_ack_range r;
     if \<not> ack_range_ok previous_end x then None
     else do {
       (xs, r) \<leftarrow> read_ack_ranges (ar_first x + ar_count x) n r;
       Some (x # xs, r) } }"

definition deserialize_file_ack :: "bytes \<Rightarrow> FileTransferAck option" where
  "deserialize_file_ack payload = do {
     (transfer_id, r) \<leftarrow> read_u64 (WireReader payload);
     (flags, r) \<leftarrow> read_u8 r;
     (reserved, r) \<leftarrow> read_u8 r;
     (range_count, r) \<leftarrow> read_u16 r;
     if transfer_id = 0 \<or> flags AND 0xFE \<noteq> 0 \<or> reserved \<noteq> 0 \<or> unat range_count > FILE_ACK_MAX_RANGES then None
     else do {
       (ranges, r) \<leftarrow> read_ack_ranges 0 (unat range_count) r;
       if \<not> rd_finished r then None
       else Some \<lparr>fa_transfer_id = transfer_id, fa_header_received = (flags AND 1 \<noteq> 0), fa_ranges = ranges\<rparr> } }"

definition serialize_file_cancel :: "FileTransferCancel \<Rightarrow> bytes option" where
  "serialize_file_cancel cancel =
    (if fx_transfer_id cancel = 0 \<or> fx_reason cancel < 1 \<or> fx_reason cancel > 4 then None
     else do {
       w \<leftarrow> write_u64 (fx_transfer_id cancel) (WireWriter (replicate FILE_CANCEL_SIZE 0));
       w \<leftarrow> write_u8 (fx_reason cancel) w;
       w \<leftarrow> write_u8 0 w;
       w \<leftarrow> write_u16 0 w;
       if wr_finished w then Some (wr_bytes w) else None })"

definition deserialize_file_cancel :: "bytes \<Rightarrow> FileTransferCancel option" where
  "deserialize_file_cancel payload = do {
     (transfer_id, r) \<leftarrow> read_u64 (WireReader payload);
     (reason, r) \<leftarrow> read_u8 r;
     (reserved_byte, r) \<leftarrow> read_u8 r;
     (reserved_word, r) \<leftarrow> read_u16 r;
     if \<not> rd_finished r \<or> transfer_id = 0 \<or> reason < 1 \<or> reason > 4 \<or> reserved_byte \<noteq> 0 \<or> reserved_word \<noteq> 0
     then None
     else Some \<lparr>fx_transfer_id = transfer_id, fx_reason = reason\<rparr> }"

section \<open>Codec laws\<close>

definition wf_file_header :: "FileTransferHeader \<Rightarrow> bool" where
  [wf_defs]: "wf_file_header h \<longleftrightarrow> is_valid_file_header h \<and> length (fh_content_hash h) = 32"

lemma valid_header_name: "is_valid_file_header h \<Longrightarrow> length (fh_filename h) \<le> 255"
  by (auto simp: is_valid_file_header_def Let_def is_safe_file_name_def split: if_splits)

lemma unat_small: "n < 2 ^ LENGTH('a) \<Longrightarrow> unat (of_nat n :: 'a::len word) = n"
  by (simp add: unsigned_of_nat take_bit_nat_eq_self)

lemma serialize_header_eq:
  assumes "wf_file_header h"
  shows "serialize_file_header h = Some (be64 (fh_transfer_id h) @ be64 (fh_file_size h) @ be32 (fh_chunk_size h) @
     be32 (fh_total_chunks h) @ fh_content_hash h @ be16 (of_nat (length (fh_filename h))) @ fh_filename h)"
  using assms by (simp add: serialize_file_header_def wf_defs wire_simps)

interpretation file_header_codec: canonical_codec wf_file_header serialize_file_header deserialize_file_header
proof
  fix h assume "wf_file_header h"
  then show "\<exists>bs. serialize_file_header h = Some bs" by (simp add: serialize_header_eq)
next
  fix h bs assume h: "wf_file_header h" "serialize_file_header h = Some bs"
  have "unat (of_nat (length (fh_filename h)) :: u16) = length (fh_filename h)"
    using h(1) valid_header_name [of h] by (intro unat_small) (simp add: wf_defs)
  with h serialize_header_eq [OF h(1)] show "deserialize_file_header bs = Some h"
    by (cases h) (auto simp: deserialize_file_header_def wf_defs wire_simps)
next
  fix bs h assume "deserialize_file_header bs = Some h"
  then obtain l :: u16 where l: "wf_file_header h" "length (fh_filename h) = unat l"
    "bs = be64 (fh_transfer_id h) @ be64 (fh_file_size h) @ be32 (fh_chunk_size h) @
     be32 (fh_total_chunks h) @ fh_content_hash h @ be16 l @ fh_filename h"
    by (auto simp: deserialize_file_header_def wf_defs WireReader_at rd_finished_at bind_eq_Some_conv Let_def
        split: if_splits dest!: wire_dest)
  then have "l = of_nat (length (fh_filename h))" by simp
  with l show "wf_file_header h" "serialize_file_header h = Some bs" by (simp_all add: serialize_header_eq)
qed

lemma serialize_chunk_eq:
  "serialize_file_chunk c = (if is_valid_file_chunk c then Some (be64 (fc_transfer_id c) @ be32 (fc_chunk_index c) @
     be32 (of_nat (length (fc_data c))) @ fc_data c) else None)"
  by (simp add: serialize_file_chunk_def wire_simps)

interpretation file_chunk_codec: canonical_codec is_valid_file_chunk serialize_file_chunk deserialize_file_chunk
proof
  fix c bs assume c: "is_valid_file_chunk c" "serialize_file_chunk c = Some bs"
  have "unat (of_nat (length (fc_data c)) :: u32) = length (fc_data c)"
    using c(1) by (intro unat_small) (simp add: is_valid_file_chunk_def)
  with c show "deserialize_file_chunk bs = Some c"
    by (cases c) (auto simp: serialize_chunk_eq deserialize_file_chunk_def wire_simps)
next
  fix bs c assume "deserialize_file_chunk bs = Some c"
  then obtain l :: u32 where l: "is_valid_file_chunk c" "length (fc_data c) = unat l"
    "bs = be64 (fc_transfer_id c) @ be32 (fc_chunk_index c) @ be32 l @ fc_data c"
    by (auto simp: deserialize_file_chunk_def WireReader_at rd_finished_at bind_eq_Some_conv Let_def
        split: if_splits dest!: wire_dest)
  then have "l = of_nat (length (fc_data c))" by simp
  with l show "is_valid_file_chunk c" "serialize_file_chunk c = Some bs" by (simp_all add: serialize_chunk_eq)
qed (simp add: serialize_chunk_eq)

definition wf_file_cancel :: "FileTransferCancel \<Rightarrow> bool" where
  [wf_defs]: "wf_file_cancel x \<longleftrightarrow> fx_transfer_id x \<noteq> 0 \<and> \<not> fx_reason x < 1 \<and> \<not> fx_reason x > 4"

lemma serialize_cancel_eq:
  "serialize_file_cancel x = (if wf_file_cancel x
     then Some (be64 (fx_transfer_id x) @ fx_reason x # 0 # be16 0) else None)"
  by (auto simp: serialize_file_cancel_def wf_defs wire_simps)

interpretation file_cancel_codec: canonical_codec wf_file_cancel serialize_file_cancel deserialize_file_cancel
proof
  fix x bs assume "wf_file_cancel x" "serialize_file_cancel x = Some bs"
  then show "deserialize_file_cancel bs = Some x"
    by (auto simp: serialize_cancel_eq deserialize_file_cancel_def wf_defs wire_simps)
next
  fix bs x assume "deserialize_file_cancel bs = Some x"
  then have "wf_file_cancel x \<and> bs = be64 (fx_transfer_id x) @ fx_reason x # 0 # be16 0"
    by (auto simp: deserialize_file_cancel_def wf_defs WireReader_at rd_finished_at bind_eq_Some_conv
        split: if_splits dest!: wire_dest)
  then show "wf_file_cancel x" "serialize_file_cancel x = Some bs" by (simp_all add: serialize_cancel_eq)
qed (simp add: serialize_cancel_eq)

subsection \<open>Acknowledgements\<close>

definition wf_ack_range :: "FileAckRange \<Rightarrow> bool" where
  "wf_ack_range r \<longleftrightarrow> ar_first r < 2 ^ 32 \<and> ar_count r < 2 ^ 32"

definition ack_range_bytes :: "FileAckRange \<Rightarrow> bytes" where
  "ack_range_bytes r = be32 (of_nat (ar_first r)) @ be32 (of_nat (ar_count r))"

lemma length_ack_range_bytes [simp]: "length (ack_range_bytes r) = 8"
  by (simp add: ack_range_bytes_def)

interpretation ack_entry: entry_codec wf_ack_range ack_range_bytes write_ack_range read_ack_range
proof
  fix r free out
  assume "length (ack_range_bytes r) \<le> length (free :: bytes)"
  then show "write_ack_range r (writer_at out free) =
      Some (writer_at (out @ ack_range_bytes r) (drop (length (ack_range_bytes r)) free))"
    by (simp add: write_ack_range_def ack_range_bytes_def wire_simps)
next
  fix r pre t
  assume "wf_ack_range r"
  then have "unat (of_nat (ar_first r) :: u32) = ar_first r" "unat (of_nat (ar_count r) :: u32) = ar_count r"
    by (simp_all add: wf_ack_range_def unat_small)
  then show "read_ack_range (reader_at pre (ack_range_bytes r @ t)) = Some (r, reader_at (pre @ ack_range_bytes r) t)"
    by (simp add: read_ack_range_def ack_range_bytes_def wire_simps)
next
  fix pre suf r q
  assume "read_ack_range (reader_at pre suf) = Some (r, q)"
  then obtain a b :: u32 and t where r: "r = \<lparr>ar_first = unat a, ar_count = unat b\<rparr>"
      "suf = be32 a @ be32 b @ t" "q = reader_at (pre @ be32 a @ be32 b) t"
    by (auto simp: read_ack_range_def bind_eq_Some_conv dest!: wire_dest)
  then show "wf_ack_range r \<and> (\<exists>t. suf = ack_range_bytes r @ t \<and> q = reader_at (pre @ ack_range_bytes r) t)"
    using unsigned_less [of a] unsigned_less [of b]
    by (simp add: ack_range_bytes_def wf_ack_range_def)
qed

lemma read_ack_ranges_count:
  "read_ack_ranges previous_end n r =
    (case read_count read_ack_range n r of
       None \<Rightarrow> None
     | Some (xs, r) \<Rightarrow> if ack_ranges_ok previous_end xs then Some (xs, r) else None)"
proof (induction n arbitrary: previous_end r)
  case (Suc n)
  show ?case
  proof (cases "read_ack_range r")
    case (Some p)
    obtain x r1 where p: "p = (x, r1)" by (cases p)
    show ?thesis
      using Some p by (cases "read_count read_ack_range n r1") (auto simp: Suc split: prod.splits)
  qed simp
qed simp

lemma ack_ranges_wf: "ack_ranges_ok previous_end rs \<Longrightarrow> \<forall>r \<in> set rs. wf_ack_range r"
  by (induction rs arbitrary: previous_end) (auto simp: ack_range_ok_def wf_ack_range_def)

definition wf_file_ack :: "FileTransferAck \<Rightarrow> bool" where
  "wf_file_ack a \<longleftrightarrow> fa_transfer_id a \<noteq> 0 \<and> length (fa_ranges a) \<le> FILE_ACK_MAX_RANGES \<and> ack_ranges_ok 0 (fa_ranges a)"

definition ack_bytes :: "FileTransferAck \<Rightarrow> bytes" where
  "ack_bytes a = be64 (fa_transfer_id a) @ (if fa_header_received a then 1 else 0) # 0 #
     be16 (of_nat (length (fa_ranges a))) @ ack_entry.enc_all (fa_ranges a)"

lemma serialize_ack_eq: "serialize_file_ack a = (if wf_file_ack a then Some (ack_bytes a) else None)"
proof (cases "wf_file_ack a")
  case True
  note w = ack_ranges_wf [of 0 "fa_ranges a"]
  have "length (ack_entry.enc_all (fa_ranges a)) = length (fa_ranges a) * 8"
    using True w ack_entry.length_enc_all [of 8 "fa_ranges a"] by (simp add: wf_file_ack_def)
  then show ?thesis using True ack_entry.put_each_at [OF w]
    by (simp add: serialize_file_ack_def wf_file_ack_def ack_bytes_def wire_simps)
qed (auto simp: serialize_file_ack_def wf_file_ack_def)

lemma flag_byte: "(flags :: byte) AND 0xFE = 0 \<Longrightarrow> flags = (if flags AND 1 \<noteq> 0 then 1 else 0)"
proof -
  assume a: "flags AND 0xFE = 0"
  have "(0xFE :: byte) = NOT 1" by simp
  then have "flags = (flags AND 0xFE) OR (flags AND 1)" by (simp only:) (rule bit_word_eqI, auto simp: bit_simps)
  then have "flags = flags AND 1" using a by simp
  also have "flags AND 1 = (if odd flags then 1 else 0)" by (simp add: and_one_eq mod_2_eq_odd)
  finally have "flags = 1 \<or> flags = 0" by presburger
  then show ?thesis by auto
qed

lemma deserialize_ack_bytes:
  assumes w: "wf_file_ack a"
  shows "deserialize_file_ack (ack_bytes a) = Some a"
proof -
  have r: "\<forall>r \<in> set (fa_ranges a). wf_ack_range r" using w ack_ranges_wf by (auto simp: wf_file_ack_def)
  have n: "unat (of_nat (length (fa_ranges a)) :: u16) = length (fa_ranges a)"
    using w by (intro unat_small) (simp add: wf_file_ack_def)
  let ?f = "(if fa_header_received a then 1 else 0) :: byte"
  have f: "?f AND 0xFE = 0" "?f AND 1 \<noteq> 0 \<longleftrightarrow> fa_header_received a" by simp_all
  have e: "read_ack_ranges 0 (length (fa_ranges a)) (reader_at pre (ack_entry.enc_all (fa_ranges a))) =
      Some (fa_ranges a, reader_at (pre @ ack_entry.enc_all (fa_ranges a)) [])" for pre
    using w ack_entry.get_each_at [OF r, of pre "[]"] by (simp add: read_ack_ranges_count wf_file_ack_def)
  show ?thesis
    using w unfolding deserialize_file_ack_def ack_bytes_def wf_file_ack_def
    by (simp only: wire_simps bind.bind_lunit prod.case n e f if_False) (simp add: wire_simps n e)
qed

lemma deserialize_ack_SomeD:
  assumes "deserialize_file_ack bs = Some a"
  shows "wf_file_ack a \<and> bs = ack_bytes a"
proof -
  obtain transfer_id :: u64 and flags :: byte and n :: u16 and t ranges r where
    bs: "bs = be64 transfer_id @ flags # 0 # be16 n @ t" and c: "transfer_id \<noteq> 0" "flags AND 0xFE = 0" "unat n \<le> FILE_ACK_MAX_RANGES"
    and r: "read_ack_ranges 0 (unat n) (reader_at (be64 transfer_id @ flags # 0 # be16 n) t) = Some (ranges, r)" "rd_finished r"
    and a: "a = \<lparr>fa_transfer_id = transfer_id, fa_header_received = (flags AND 1 \<noteq> 0), fa_ranges = ranges\<rparr>"
    using assms unfolding deserialize_file_ack_def WireReader_at
    by (clarsimp simp: bind_eq_Some_conv split: if_splits dest!: wire_dest)
  from r have "length ranges = unat n \<and> ack_ranges_ok 0 ranges \<and> t = ack_entry.enc_all ranges"
    by (auto simp: read_ack_ranges_count rd_finished_at split: option.splits if_splits dest!: ack_entry.get_each_SomeD)
  moreover from this have "n = of_nat (length ranges)" by simp
  moreover have "flags = (if flags AND 1 \<noteq> 0 then 1 else 0)" by (rule flag_byte [OF c(2)])
  ultimately show ?thesis using bs c a by (simp add: wf_file_ack_def ack_bytes_def)
qed

interpretation file_ack_codec: canonical_codec wf_file_ack serialize_file_ack deserialize_file_ack
  by unfold_locales (auto simp: serialize_ack_eq deserialize_ack_bytes dest: deserialize_ack_SomeD split: if_splits)

end
