(* ===== verification/File_Properties.thy ===== *)
theory File_Properties
  imports File_Codec
begin

text \<open>
  Properties of file transfer: acknowledgements are true and reach the sender's
  window, a chunk is sent a bounded number of times and a sender that hears
  nothing stops, the chunks of a valid header tile the file, and the messages
  and partial-file names are unambiguous.
\<close>

section \<open>Acknowledging\<close>

lemma ack_chunk_marks:
  "fw_acknowledged (acknowledge_chunk now i w) = (fw_acknowledged w)[i := True]"
proof (cases "fw_acknowledged w ! i")
  case True
  then show ?thesis by (metis (full_types) acknowledge_chunk_def list_update_id)
qed (auto simp: acknowledge_chunk_def Let_def split: option.split)

lemma nth_mark: "k < length xs \<Longrightarrow> xs[i := True] ! k \<longleftrightarrow> xs ! k \<or> k = i"
  by (cases "i < length xs") (auto simp: nth_list_update)

lemma ack_chunks_marks:
  "length (fw_acknowledged (fold (acknowledge_chunk now) is w)) = length (fw_acknowledged w) \<and>
   fw_total_chunks (fold (acknowledge_chunk now) is w) = fw_total_chunks w \<and>
   (k < length (fw_acknowledged w) \<longrightarrow>
     (fw_acknowledged (fold (acknowledge_chunk now) is w) ! k \<longleftrightarrow> fw_acknowledged w ! k \<or> k \<in> set is))"
  by (induction "is" arbitrary: w) (auto simp: ack_chunk_marks nth_mark)

lemma ack_ranges_marks:
  assumes "length (fw_acknowledged w) = fw_total_chunks w"
  shows "length (fw_acknowledged (fold (acknowledge_range now) rs w)) = fw_total_chunks w \<and>
   fw_total_chunks (fold (acknowledge_range now) rs w) = fw_total_chunks w \<and>
   (k < fw_total_chunks w \<longrightarrow>
     (fw_acknowledged (fold (acknowledge_range now) rs w) ! k \<longleftrightarrow>
      fw_acknowledged w ! k \<or> (\<exists>r \<in> set rs. in_range k r)))"
  using assms
proof (induction rs arbitrary: w)
  case (Cons r rs)
  let ?w = "acknowledge_range now r w"
  note m = ack_chunks_marks [of now "[ar_first r..<min (ar_first r + ar_count r) (fw_total_chunks w)]" w,
      folded acknowledge_range_def]
  have "length (fw_acknowledged ?w) = fw_total_chunks ?w" using m [of 0] Cons.prems by simp
  from Cons.IH [OF this] m [of k] Cons.prems show ?case by (auto simp: in_range_def)
qed simp

lemma acknowledge_marks:
  assumes "window_ok w" "\<not> fw_failed w" "k < fw_total_chunks w"
  shows "fw_acknowledged (window_acknowledge ack now w) ! k \<longleftrightarrow>
    fw_acknowledged w ! k \<or> (\<exists>r \<in> set (fa_ranges ack). in_range k r)"
proof -
  have l: "length (fw_acknowledged w) = fw_total_chunks w" using assms(1) by (simp add: window_ok_def)
  then show ?thesis using assms(2,3) l
    by (auto simp: window_acknowledge_def Let_def ack_ranges_marks)
qed

datatype receiver_call = Reset nat | Record nat | Remove nat

fun receiver_step :: "receiver_call \<Rightarrow> FileChunkTracker \<Rightarrow> FileChunkTracker" where
  "receiver_step (Reset n) t = snd (tracker_reset n t)"
| "receiver_step (Record i) t = snd (tracker_record i t)"
| "receiver_step (Remove i) t = snd (tracker_remove i t)"

lemma chunks_ok_run: "chunks_ok (fold receiver_step calls new_FileChunkTracker)"
proof -
  have "chunks_ok t \<Longrightarrow> chunks_ok (fold receiver_step calls t)" for t
  proof (induction calls arbitrary: t)
    case (Cons c calls)
    have "chunks_ok (receiver_step c t)"
      using Cons.prems by (cases c) (simp_all add: tracker_reset_ok tracker_record_ok tracker_remove_ok)
    from Cons.IH [OF this] show ?case by simp
  qed simp
  moreover have "chunks_ok new_FileChunkTracker" by (simp add: chunks_ok_def new_FileChunkTracker_def)
  ultimately show ?thesis by blast
qed

lemma received_length: "length (ct_received (fold receiver_step calls new_FileChunkTracker)) \<le> FILE_TRANSFER_MAX_CHUNKS"
proof -
  have "length (ct_received t) \<le> FILE_TRANSFER_MAX_CHUNKS \<Longrightarrow>
      length (ct_received (fold receiver_step calls t)) \<le> FILE_TRANSFER_MAX_CHUNKS" for t
  proof (induction calls arbitrary: t)
    case (Cons c calls)
    have "length (ct_received (receiver_step c t)) \<le> FILE_TRANSFER_MAX_CHUNKS"
      using Cons.prems by (cases c) (auto simp: tracker_reset_def tracker_record_def tracker_remove_def Let_def)
    from Cons.IH [OF this] show ?case by simp
  qed simp
  then show ?thesis by (simp add: new_FileChunkTracker_def)
qed

lemma sorted_runs_ack_ok:
  "\<forall>r \<in> set rs. maximal_run xs r \<Longrightarrow> sorted_wrt (\<lambda>r q. ar_first r + ar_count r < ar_first q) rs \<Longrightarrow>
    length xs \<le> FILE_TRANSFER_MAX_CHUNKS \<Longrightarrow> \<forall>r \<in> set rs. previous_end \<le> ar_first r \<Longrightarrow> ack_ranges_ok previous_end rs"
  by (induction rs arbitrary: previous_end) (auto simp: ack_range_ok_def maximal_run_def intro: less_imp_le)

lemma ranges_serialize:
  fixes calls
  defines "t \<equiv> fold receiver_step calls new_FileChunkTracker"
  assumes "transfer_id \<noteq> 0"
  shows "wf_file_ack \<lparr>fa_transfer_id = transfer_id, fa_header_received = h,
    fa_ranges = acknowledged_ranges focus FILE_ACK_MAX_RANGES t\<rparr>"
proof -
  note A = acknowledged_ranges_ok [OF chunks_ok_run [of calls], folded t_def]
  have "ack_ranges_ok 0 (acknowledged_ranges focus FILE_ACK_MAX_RANGES t)"
    using A(1,2) [of focus FILE_ACK_MAX_RANGES] received_length [of calls, folded t_def]
    by (intro sorted_runs_ack_ok [of _ "ct_received t"]) (simp_all add: list_all_iff)
  then show ?thesis using A(3) [of focus FILE_ACK_MAX_RANGES] assms(2) by (simp add: wf_file_ack_def)
qed


definition demo_receiver :: "receiver_call list" where
  "demo_receiver = [Reset 4, Record 0, Record 2]"

definition demo_sender :: FileSendWindow where
  "demo_sender = snd (window_reset 4 0 (new_FileSendWindow default_window_config))"

lemma demo_sender_eq:
  "window_ok demo_sender" "\<not> fw_failed demo_sender" "fw_total_chunks demo_sender = 4"
  unfolding demo_sender_def
  by (auto intro!: window_ok_reset window_ok_new)
    (simp_all add: window_reset_def new_FileSendWindow_def default_window_config_def window_config_ok_def)

lemma demo_tracker: "fold receiver_step demo_receiver new_FileChunkTracker =
    \<lparr>ct_received = [True, False, True, False], ct_received_count = 2, ct_contiguous_received = 1\<rparr>"
proof -
  have "replicate 4 False = [False, False, False, False]" by (simp add: numeral_eq_Suc)
  then have r: "snd (tracker_reset 4 t) =
      \<lparr>ct_received = [False, False, False, False], ct_received_count = 0, ct_contiguous_received = 0\<rparr>" for t
    by (simp add: tracker_reset_def)
  show ?thesis
    by (simp add: demo_receiver_def r tracker_record_def scan_while.simps numeral_2_eq_2)
qed


section \<open>The window\<close>

text \<open>C30: in every run of a send window no chunk is sent more often than the retry limit
  plus one, the chunks in flight never exceed the window, a chunk in flight is
  sent and not acknowledged, and the timeout stays between its bounds.\<close>

theorem file_window_bounded:
  assumes "window_reset total_chunks now (new_FileSendWindow config) = (True, w)"
    and "window_run calls w = (sent, w')"
  shows "count_list sent k \<le> wc_retry_limit (fw_config w') + 1 \<and>
    length (fw_in_flight w') \<le> wc_window_size (fw_config w') \<and>
    (map_contains k (fw_in_flight w') \<longleftrightarrow> k < fw_next_chunk w' \<and> \<not> fw_acknowledged w' ! k) \<and>
    (fw_total_chunks w' \<noteq> 0 \<longrightarrow> wc_minimum_rto (fw_config w') \<le> fw_rto w' \<and> fw_rto w' \<le> wc_maximum_rto (fw_config w'))"
proof -
  have ok: "window_ok w" using window_ok_reset [OF window_ok_new, of total_chunks now config] assms(1) by simp
  then have ok': "window_ok w'" using window_ok_run [of w calls] assms(2) by simp
  have "count_list sent k \<le> send_budget w' k" using send_budget_run [OF ok assms(2), of k] by simp
  also have "\<dots> \<le> wc_retry_limit (fw_config w') + 1" by (rule send_budget_bound [OF ok'])
  finally show ?thesis using ok' unfolding window_ok_def by blast
qed

lemma poll_keeps:
  "fw_config (snd (window_poll t w)) = fw_config w" "window_complete (snd (window_poll t w)) = window_complete w"
proof -
  obtain a w' where p: "window_poll t w = (a, w')" by fastforce
  then show "fw_config (snd (window_poll t w)) = fw_config w" "window_complete (snd (window_poll t w)) = window_complete w"
    by (auto elim!: poll_cases simp: window_complete_def)
qed

lemma poll_run_complete: "window_complete (poll_run ts w) = window_complete w"
  by (induction ts arbitrary: w) (simp_all add: poll_run_def poll_keeps)

lemma demo_sender_fields:
  "fw_config demo_sender = default_window_config" "recorded_by 0 demo_sender" "\<not> window_complete demo_sender"
  by (simp_all add: demo_sender_def window_reset_def new_FileSendWindow_def default_window_config_def
      window_config_ok_def window_complete_def recorded_by_def)

theorem file_window_bounded_witness:
  "count_list (fst (window_run [Poll 0, Poll 300] demo_sender)) 0 \<le> 6"
proof -
  have "window_reset 4 0 (new_FileSendWindow default_window_config) = (True, demo_sender)"
    by (simp add: demo_sender_def window_reset_def new_FileSendWindow_def default_window_config_def window_config_ok_def)
  from file_window_bounded [OF this surjective_pairing, of "[Poll 0, Poll 300]" 0]
  have "count_list (fst (window_run [Poll 0, Poll 300] demo_sender)) 0 \<le>
    wc_retry_limit (fw_config (snd (window_run [Poll 0, Poll 300] demo_sender))) + 1" by blast
  also have "wc_retry_limit (fw_config (snd (window_run [Poll 0, Poll 300] demo_sender))) = 5"
    by (simp add: split_beta Let_def poll_keeps demo_sender_fields(1)) (simp add: default_window_config_def)
  finally show ?thesis by simp
qed

text \<open>C31: a sender that hears nothing stops.  From any state a window reaches, polls at
  least the maximum timeout apart that are not interrupted by an
  acknowledgement end in failure, unless the transfer was complete, after at
  most retry limit plus two of them.\<close>

theorem file_sender_stops:
  assumes "window_reset total_chunks now (new_FileSendWindow config) = (True, w0)"
    and "window_run calls w0 = (sent, w)" "fw_total_chunks w \<noteq> 0" "recorded_by t w"
    and "sorted_wrt (\<lambda>a b. a + wc_maximum_rto (fw_config w) \<le> b) (t # ts)"
    and "length ts = wc_retry_limit (fw_config w) + 1"
  shows "fw_failed (poll_run (t # ts) w) \<or> window_complete (poll_run (t # ts) w)"
proof -
  have "window_ok w0" using window_ok_reset [OF window_ok_new, of total_chunks now config] assms(1) by simp
  then have "window_ok w" using window_ok_run [of w0 calls] assms(2) by simp
  from poll_run_stops [OF this assms(3-5)] assms(6) show ?thesis by (simp add: stopped_def)
qed

theorem file_sender_stops_witness:
  "fw_failed (poll_run [0, 2000, 4000, 6000, 8000, 10000, 12000] demo_sender)"
proof -
  have r: "window_reset 4 0 (new_FileSendWindow default_window_config) = (True, demo_sender)"
    by (simp add: demo_sender_def window_reset_def new_FileSendWindow_def default_window_config_def window_config_ok_def)
  have s: "window_run [] demo_sender = ([], demo_sender)" by simp
  from file_sender_stops [OF r s _ demo_sender_fields(2), of "[2000, 4000, 6000, 8000, 10000, 12000]"] demo_sender_eq(3)
  show ?thesis by (simp add: demo_sender_fields poll_run_complete) (simp add: default_window_config_def)
qed

section \<open>Chunks of a file\<close>

lemma unat_u32_u64: "unat (ucast (x :: u32) :: u64) = unat x"
proof -
  have "unat x < 2 ^ 64" using unsigned_less [of x, where 'a = nat] by simp
  then show ?thesis by (simp add: unsigned_ucast_eq take_bit_nat_eq_self)
qed

lemma header_numbers:
  assumes "is_valid_file_header h"
  defines "n \<equiv> unat (fh_total_chunks h)" and "cs \<equiv> unat (fh_chunk_size h)" and "fs \<equiv> unat (fh_file_size h)"
  shows "fs \<le> FILE_TRANSFER_MAX_FILE_SIZE" "512 \<le> cs" "cs \<le> FILE_TRANSFER_MAX_CHUNK_SIZE"
    "n = 1 + (fs - 1) div cs" "n \<le> FILE_TRANSFER_MAX_CHUNKS" "(n - 1) * cs \<le> fs" "fs \<le> n * cs"
proof -
  have c: "fs \<le> FILE_TRANSFER_MAX_FILE_SIZE" "512 \<le> cs" "cs \<le> FILE_TRANSFER_MAX_CHUNK_SIZE"
    "fh_total_chunks h = file_transfer_chunk_count (fh_file_size h) (fh_chunk_size h)"
    using assms(1) by (auto simp: is_valid_file_header_def Let_def file_transfer_chunk_count_def cs_def fs_def split: if_splits)
  then show "fs \<le> FILE_TRANSFER_MAX_FILE_SIZE" "512 \<le> cs" "cs \<le> FILE_TRANSFER_MAX_CHUNK_SIZE" by blast+
  have le: "(fs - 1) div cs \<le> 2097151"
  proof -
    have "(fs - 1) div cs \<le> (fs - 1) div 512" using c(2) by (rule div_le_mono2 [rotated]) simp
    also have "\<dots> \<le> 1073741823 div 512" using c(1) by (intro div_le_mono) simp
    finally show ?thesis by simp
  qed
  show n: "n = 1 + (fs - 1) div cs"
  proof (cases "fh_file_size h = 0")
    case True
    then show ?thesis using c by (simp add: n_def fs_def cs_def file_transfer_chunk_count_def)
  next
    case False
    then have "unat (fh_file_size h - 1) = fs - 1" by (simp add: fs_def unat_minus_one)
    then have "unat ((fh_file_size h - 1) div ucast (fh_chunk_size h)) = (fs - 1) div cs"
      by (simp add: unat_div cs_def unat_u32_u64)
    then have "unat (1 + (fh_file_size h - 1) div ucast (fh_chunk_size h) :: u64) = 1 + (fs - 1) div cs"
      using le by (simp add: unat_word_ariths)
    then show ?thesis using c False le
      by (simp add: n_def fs_def cs_def file_transfer_chunk_count_def unsigned_ucast_eq unsigned_take_bit_eq take_bit_nat_eq_self)
  qed
  show "n \<le> FILE_TRANSFER_MAX_CHUNKS" using n le by simp
  show "(n - 1) * cs \<le> fs" using n order_trans [OF div_times_less_eq_dividend [of "fs - 1" cs] diff_le_self] by simp
  have "fs - 1 < ((fs - 1) div cs + 1) * cs" using c(2) by (simp add: dividend_less_div_times)
  then show "fs \<le> n * cs" using n by simp
qed

lemma expected_size:
  assumes "is_valid_file_header h" "i < unat (fh_total_chunks h)"
  shows "expected_chunk_size h (of_nat i) =
    min (unat (fh_chunk_size h)) (unat (fh_file_size h) - i * unat (fh_chunk_size h))"
proof -
  note N = header_numbers [OF assms(1)]
  let ?n = "unat (fh_total_chunks h)" and ?cs = "unat (fh_chunk_size h)" and ?fs = "unat (fh_file_size h)"
  have i: "unat (of_nat i :: u32) = i" using assms(2) N(5) by (intro unat_small) simp
  have "unat (of_nat i + 1 :: u32) = i + 1" using assms(2) N(5) i by (simp add: unat_word_ariths)
  then have last: "of_nat i + 1 = fh_total_chunks h \<longleftrightarrow> i + 1 = ?n" by (simp add: word_eq_iff_unsigned [where 'a = nat])
  show ?thesis
  proof (cases "i + 1 = ?n")
    case True
    have le: "i * ?cs \<le> ?fs" "?fs - i * ?cs \<le> ?cs" using N(6,7) True [symmetric] by simp_all
    have "i * ?cs < 2 ^ 64" using le(1) N(1) by simp
    then have p: "unat (ucast (of_nat i :: u32) * ucast (fh_chunk_size h) :: u64) = i * ?cs"
      using i by (simp add: unat_word_ariths unat_u32_u64)
    then have "unat (fh_file_size h - ucast (of_nat i :: u32) * ucast (fh_chunk_size h)) = ?fs - i * ?cs"
      using le(1) by (simp add: unat_sub word_le_nat_alt)
    then show ?thesis using True last le by (simp add: expected_chunk_size_def)
  next
    case False
    then have "(i + 1) * ?cs \<le> (?n - 1) * ?cs" using assms(2) by (intro mult_le_mono1) simp
    then have "(i + 1) * ?cs \<le> ?fs" using N(6) by simp
    then show ?thesis using False last by (simp add: expected_chunk_size_def)
  qed
qed

lemma take_min_slice: "take (min k (length xs - d)) (drop d xs) = take k (drop d xs)"
  by (metis length_drop min.commute take_all_iff take_take min.cobounded1 take_take linorder_le_cases min.absorb2 min.absorb1)

text \<open>C32: the chunks of a valid header tile the file.  Every chunk length the receiver
  expects is at most the chunk size, no offset runs past the end of the file,
  and reading the expected number of bytes at each offset, in the order of the
  indices, gives the file content, empty files included.\<close>

theorem file_chunks_tile:
  assumes "is_valid_file_header h" "length content = unat (fh_file_size h)"
  shows "concat (map (\<lambda>i. take (expected_chunk_size h (of_nat i)) (drop (i * unat (fh_chunk_size h)) content))
      [0..<unat (fh_total_chunks h)]) = content \<and>
    (\<forall>i < unat (fh_total_chunks h). expected_chunk_size h (of_nat i) \<le> unat (fh_chunk_size h) \<and>
      i * unat (fh_chunk_size h) + expected_chunk_size h (of_nat i) \<le> unat (fh_file_size h)) \<and>
    0 < unat (fh_total_chunks h) \<and> unat (fh_total_chunks h) \<le> FILE_TRANSFER_MAX_CHUNKS"
proof -
  note N = header_numbers [OF assms(1)]
  let ?n = "unat (fh_total_chunks h)" and ?cs = "unat (fh_chunk_size h)"
  have "map (\<lambda>i. take (expected_chunk_size h (of_nat i)) (drop (i * ?cs) content)) [0..<?n] =
      map (\<lambda>i. take ?cs (drop (i * ?cs) content)) [0..<?n]"
    by (rule map_cong [OF refl]) (simp add: expected_size [OF assms(1)] take_min_slice flip: assms(2))
  then have "concat (map (\<lambda>i. take (expected_chunk_size h (of_nat i)) (drop (i * ?cs) content)) [0..<?n]) =
      take (?n * ?cs) content" by (simp only: concat_slices)
  moreover have "take (?n * ?cs) content = content" using N(7) assms(2) by simp
  moreover have "expected_chunk_size h (of_nat i) \<le> ?cs \<and>
      i * ?cs + expected_chunk_size h (of_nat i) \<le> unat (fh_file_size h)" if "i < ?n" for i
  proof -
    have "i * ?cs \<le> (?n - 1) * ?cs" using that by (intro mult_le_mono1) simp
    with N(6) have "i * ?cs \<le> unat (fh_file_size h)" by (rule order_trans [rotated])
    then show ?thesis unfolding expected_size [OF assms(1) that] by linarith
  qed
  moreover have "0 < ?n" using N(4) by simp
  ultimately show ?thesis using N(5) by simp
qed

definition demo_file_header :: FileTransferHeader where
  "demo_file_header = \<lparr>fh_transfer_id = 1, fh_file_size = 1100, fh_chunk_size = 512, fh_total_chunks = 3,
     fh_content_hash = replicate 32 0, fh_filename = ascii ''a.txt''\<rparr>"

theorem file_chunks_tile_witness:
  "concat (map (\<lambda>i. take (expected_chunk_size demo_file_header (of_nat i)) (drop (i * 512) (replicate 1100 0)))
      [0..<3]) = replicate 1100 (0 :: byte)"
proof -
  have "is_safe_file_name (ascii ''a.txt'')" by code_simp
  then have "is_valid_file_header demo_file_header"
    by (simp add: is_valid_file_header_def demo_file_header_def file_transfer_chunk_count_def)
  from file_chunks_tile [OF this, of "replicate 1100 (0 :: byte)"]
  show ?thesis by (simp add: demo_file_header_def)
qed

section \<open>Names and messages\<close>

lemma all_hex_chars: "\<forall>a \<in> set [0..<16]. \<forall>b \<in> set [0..<16].
    ascii ''0123456789abcdef'' ! a = ascii ''0123456789abcdef'' ! b \<longrightarrow> a = b"
  by code_simp

lemma hex_char_inj: "hex_char a = hex_char b \<Longrightarrow> a AND 15 = b AND 15"
proof -
  have "unat (v AND 15) < 16" for v :: byte
  proof -
    have "v AND 15 \<le> 15" by (rule word_and_le1)
    then show ?thesis by (simp add: word_le_nat_alt)
  qed
  then show "hex_char a = hex_char b \<Longrightarrow> a AND 15 = b AND 15"
    using all_hex_chars by (auto simp: hex_char_def word_eq_iff_unsigned [where 'a = nat])
qed

lemma byte_nibbles: "a AND 15 = b AND 15 \<Longrightarrow> drop_bit 4 a AND 15 = drop_bit 4 b AND 15 \<Longrightarrow> a = (b :: byte)"
proof -
  assume n: "a AND 15 = b AND 15" "drop_bit 4 a AND 15 = drop_bit 4 b AND 15"
  have m: "(15 :: byte) = mask 4" by (simp add: mask_eq_exp_minus_1)
  show "a = b"
  proof (rule bit_word_eqI)
    fix i assume i: "i < LENGTH(8)"
    show "bit a i = bit b i"
    proof (cases "i < 4")
      case True
      then show ?thesis using arg_cong [OF n(1), of "\<lambda>w. bit w i"] i by (simp add: m bit_simps)
    next
      case False
      then have "i - 4 < 8" "i - 4 < 4" "4 \<le> i" using i by simp_all
      then show ?thesis using arg_cong [OF n(2), of "\<lambda>w. bit w (i - 4)"] by (simp add: m bit_simps)
    qed
  qed
qed

lemma sender_hex_inj:
  "length a = length b \<Longrightarrow>
    concat (map (\<lambda>v. [hex_char (drop_bit 4 v), hex_char v]) a) @ x =
      concat (map (\<lambda>v. [hex_char (drop_bit 4 v), hex_char v]) b) @ y \<Longrightarrow> a = b \<and> x = y"
proof (induction a b rule: list_induct2)
  case (Cons p ps q qs)
  from Cons.prems have h: "hex_char (drop_bit 4 p) = hex_char (drop_bit 4 q)" "hex_char p = hex_char q"
    and t: "concat (map (\<lambda>v. [hex_char (drop_bit 4 v), hex_char v]) ps) @ x =
      concat (map (\<lambda>v. [hex_char (drop_bit 4 v), hex_char v]) qs) @ y" by simp_all
  have "p = q" by (rule byte_nibbles [OF hex_char_inj [OF h(2)] hex_char_inj [OF h(1)]])
  with Cons.IH [OF t] show ?case by blast
qed simp

lemma nibble_shifts:
  assumes "j < 16"
  shows "4 * j \<in> set [60, 56, 52, 48, 44, 40, 36, 32, 28, 24, 20, 16, 12, 8, 4, 0 :: nat]"
proof -
  have "\<forall>j \<in> set [0..<16]. 4 * j \<in> set [60, 56, 52, 48, 44, 40, 36, 32, 28, 24, 20, 16, 12, 8, 4, 0 :: nat]"
    by code_simp
  moreover have "j \<in> set [0..<16]" using assms by simp
  ultimately show ?thesis by blast
qed

lemma id_hex_inj:
  assumes "\<forall>s \<in> set [60, 56, 52, 48, 44, 40, 36, 32, 28, 24, 20, 16, 12, 8, 4, 0 :: nat].
    hex_char (ucast (drop_bit s a)) = hex_char (ucast (drop_bit s b))"
  shows "a = (b :: u64)"
proof (rule bit_word_eqI)
  fix i assume i: "i < LENGTH(64)"
  let ?s = "4 * (i div 4)"
  have m4: "i mod 4 < 4" "i mod 4 < 8" using mod_less_divisor [of 4 i] by simp_all
  have m: "(15 :: byte) = mask 4" by (simp add: mask_eq_exp_minus_1)
  have "?s \<in> set [60, 56, 52, 48, 44, 40, 36, 32, 28, 24, 20, 16, 12, 8, 4, 0]"
    using i by (intro nibble_shifts) (simp add: less_mult_imp_div_less)
  then have "ucast (drop_bit ?s a) AND 15 = (ucast (drop_bit ?s b) AND 15 :: byte)"
    using assms hex_char_inj by blast
  from arg_cong [OF this, of "\<lambda>w. bit w (i mod 4)"]
  have "bit a (?s + i mod 4) = bit b (?s + i mod 4)"
    using m4 by (simp add: m bit_simps)
  then show "bit a i = bit b i" by simp
qed

text \<open>Two transfers never write the same partial file: the name under which a
  receiver stores an unfinished file determines the sender and the transfer.\<close>

theorem part_name_unique:
  assumes "length sender = NODE_ID_SIZE" "length sender' = NODE_ID_SIZE"
    and "file_transfer_part_name sender transfer_id = file_transfer_part_name sender' transfer_id'"
  shows "sender = sender' \<and> transfer_id = transfer_id'"
proof -
  let ?shifts = "[60, 56, 52, 48, 44, 40, 36, 32, 28, 24, 20, 16, 12, 8, 4, 0 :: nat]"
  have "length sender = length sender'" using assms(1,2) by simp
  from sender_hex_inj [OF this assms(3) [unfolded file_transfer_part_name_def same_append_eq]]
  have s: "sender = sender'" and "map (\<lambda>s. hex_char (ucast (drop_bit s transfer_id))) ?shifts =
      map (\<lambda>s. hex_char (ucast (drop_bit s transfer_id'))) ?shifts"
    by (simp_all only: same_append_eq append_same_eq)
  then have "\<forall>s \<in> set ?shifts. hex_char (ucast (drop_bit s transfer_id)) = hex_char (ucast (drop_bit s transfer_id'))"
    by (simp only: map_eq_conv)
  from id_hex_inj [OF this] s show ?thesis by blast
qed

theorem part_name_unique_witness:
  "file_transfer_part_name (replicate 32 1) 5 \<noteq> file_transfer_part_name (replicate 32 1) 6"
proof
  assume "file_transfer_part_name (replicate 32 1) 5 = file_transfer_part_name (replicate 32 1) 6"
  from part_name_unique [OF _ _ this] show False by simp
qed

text \<open>C33: the four messages of a file transfer are unambiguous: each decoder accepts
  exactly the encodings of well-formed messages and returns the message.\<close>

theorem file_messages_roundtrip:
  "(deserialize_file_header bs = Some h \<longleftrightarrow> wf_file_header h \<and> serialize_file_header h = Some bs) \<and>
   (deserialize_file_chunk bs = Some c \<longleftrightarrow> is_valid_file_chunk c \<and> serialize_file_chunk c = Some bs) \<and>
   (deserialize_file_ack bs = Some a \<longleftrightarrow> wf_file_ack a \<and> serialize_file_ack a = Some bs) \<and>
   (deserialize_file_cancel bs = Some x \<longleftrightarrow> wf_file_cancel x \<and> serialize_file_cancel x = Some bs)"
  by (simp add: file_header_codec.dec_Some_iff file_chunk_codec.dec_Some_iff file_ack_codec.dec_Some_iff
      file_cancel_codec.dec_Some_iff)

end
