(* ===== verification/Peer_Table_Properties.thy ===== *)
theory Peer_Table_Properties
  imports Peer_Table Onion
begin

text \<open>
  What merging a received peer table may do to a node, whatever the sender put
  into it.
\<close>

section \<open>One prefix\<close>

lemma add_route_routes:
  assumes "y \<in> set (re_routes (snd (add_route r re)))"
  shows "y \<in> set (re_routes re) \<or> rt_path y = rt_path r \<and> rt_type y = rt_type r"
proof -
  let ?c = "route_candidate r"
  let ?u = "update_first (same_candidate ?c) (\<lambda>e. keep_probe_state e ?c) (re_routes re)"
  have k: "rt_path (keep_probe_state e ?c) = rt_path r \<and> rt_type (keep_probe_state e ?c) = rt_type r" for e
    by (simp add: keep_probe_state_def)
  have "re_routes (snd (add_route r re)) \<in> {re_routes re, ?u, re_routes re @ [?c]}"
    by (auto simp: add_route_def Let_def split: option.splits)
  moreover have "y \<in> set ?u \<Longrightarrow> y \<in> set (re_routes re) \<or> rt_path y = rt_path r \<and> rt_type y = rt_type r"
    using update_first_set [of y "same_candidate ?c" "\<lambda>e. keep_probe_state e ?c"] k by blast
  ultimately show ?thesis using assms by auto
qed

lemma remove_older_routes:
  "y \<in> set (re_routes (snd (remove_older_learned_routes o' a n q re))) \<Longrightarrow> y \<in> set (re_routes re)"
  by (auto simp: remove_older_learned_routes_def Let_def split: if_splits)

lemma remove_older_ok: "routing_ok re \<Longrightarrow> routing_ok (snd (remove_older_learned_routes o' a n q re))"
  using routing_ok_filter [of re] by (auto simp: remove_older_learned_routes_def Let_def)

lemma merge_prefix_routing:
  assumes "merge_prefix sender ok p t a (m, st, re) = (m', st', re')"
  obtains "re' = re" | "ok" "re' = snd (add_route (learned_route sender p t a) re)"
  | "ok" "re' = snd (add_route (learned_route sender p t a)
      (snd (remove_older_learned_routes (ad_node_id p) (av_prefix a) (ucast (av_prefix_length a)) (av_sequence_number a) re)))"
  using assms
  by (auto simp: merge_prefix_def Let_def learned_route_def split: if_splits option.splits prod.splits)

lemma learned_route_fields [simp]:
  "rt_path (learned_route sender p t a) = merge_path sender p" "rt_type (learned_route sender p t a) = Relay"
  by (simp_all add: learned_route_def)

text \<open>No learned route leads back through this node.\<close>

definition avoids :: "node_id \<Rightarrow> RoutingEngine \<Rightarrow> bool" where
  "avoids self re \<longleftrightarrow> (\<forall>r \<in> set (re_routes re). rt_type r = Relay \<longrightarrow> self \<notin> set (rt_path r))"

lemma merge_prefix_safe:
  assumes "routing_ok re" "avoids self re" "ok \<Longrightarrow> self \<notin> set (merge_path sender p)"
    and "merge_prefix sender ok p t a (m, st, re) = (m', st', re')"
  shows "routing_ok re' \<and> avoids self re'"
proof -
  have add: "routing_ok (snd (add_route (learned_route sender p t a) re1)) \<and>
      avoids self (snd (add_route (learned_route sender p t a) re1))"
    if "ok" "routing_ok re1" "avoids self re1" for re1
    using that assms(3) add_route_ok [OF that(2)] by (auto simp: avoids_def dest!: add_route_routes)
  from assms(4) show ?thesis
  proof (cases rule: merge_prefix_routing)
    case 3
    moreover have "avoids self (snd (remove_older_learned_routes (ad_node_id p) (av_prefix a)
        (ucast (av_prefix_length a)) (av_sequence_number a) re))"
      using assms(2) by (auto simp: avoids_def dest: remove_older_routes)
    ultimately show ?thesis using add remove_older_ok [OF assms(1)] by simp
  qed (use assms(1,2) add in simp_all)
qed

lemma merge_prefixes_safe:
  "routing_ok re \<Longrightarrow> avoids self re \<Longrightarrow> (ok \<Longrightarrow> self \<notin> set (merge_path sender p)) \<Longrightarrow>
    fold (merge_prefix sender ok p t) as (m, st, re) = (m', st', re') \<Longrightarrow> routing_ok re' \<and> avoids self re'"
proof (induction as arbitrary: m st re)
  case (Cons a as)
  obtain m1 st1 re1 where s: "merge_prefix sender ok p t a (m, st, re) = (m1, st1, re1)" by (metis prod_cases3)
  have "routing_ok re1 \<and> avoids self re1"
    using merge_prefix_safe [where self = self, OF Cons.prems(1,2) _ s] Cons.prems(3) by blast
  then show ?case using Cons.IH [of re1] Cons.prems(3,4) s by simp
qed simp

section \<open>The peer table\<close>

definition keys_bound :: "(public_key \<Rightarrow> node_id) \<Rightarrow> PeerManager \<Rightarrow> bool" where
  "keys_bound hash pm \<longleftrightarrow> (\<forall>k p. map_of (pm_peers pm) k = Some p \<longrightarrow>
     is_empty_key (pe_public_key p) \<or> hash (pe_public_key p) = k)"

text \<open>Nothing of a known peer changes but an empty key, and a new peer arrives
  without an endpoint and without trust.\<close>

definition key_learned :: "Peer \<Rightarrow> Peer \<Rightarrow> bool" where
  "key_learned p p' \<longleftrightarrow> p\<lparr>pe_public_key := pe_public_key p'\<rparr> = p' \<and>
     (is_empty_key (pe_public_key p) \<or> pe_public_key p' = pe_public_key p)"

definition only_learned :: "PeerManager \<Rightarrow> PeerManager \<Rightarrow> bool" where
  "only_learned pm pm' \<longleftrightarrow> (\<forall>k.
     (case map_of (pm_peers pm) k of
        Some p \<Rightarrow> (case map_of (pm_peers pm') k of None \<Rightarrow> False | Some p' \<Rightarrow> key_learned p p')
      | None \<Rightarrow> (case map_of (pm_peers pm') k of None \<Rightarrow> True | Some p' \<Rightarrow> pe_endpoint p' = None \<and> \<not> pe_trusted p')))"

lemma key_learned_refl [simp]: "key_learned p p"
  by (simp add: key_learned_def)

lemma key_learned_trans: "key_learned p q \<Longrightarrow> key_learned q r \<Longrightarrow> key_learned p r"
  by (cases p; cases q; cases r) (auto simp: key_learned_def)

lemma key_learned_fields: "key_learned p p' \<Longrightarrow> pe_endpoint p' = pe_endpoint p \<and> pe_trusted p' = pe_trusted p"
  by (cases p; cases p') (simp add: key_learned_def)

lemma only_learned_refl: "only_learned pm pm"
  by (auto simp: only_learned_def split: option.splits)

lemma only_learned_trans:
  assumes "only_learned pm1 pm2" "only_learned pm2 pm3"
  shows "only_learned pm1 pm3"
  unfolding only_learned_def
proof
  fix k
  show "case map_of (pm_peers pm1) k of
      Some p \<Rightarrow> (case map_of (pm_peers pm3) k of None \<Rightarrow> False | Some p' \<Rightarrow> key_learned p p')
    | None \<Rightarrow> (case map_of (pm_peers pm3) k of None \<Rightarrow> True | Some p' \<Rightarrow> pe_endpoint p' = None \<and> \<not> pe_trusted p')"
    using spec [OF assms(1) [unfolded only_learned_def], of k] spec [OF assms(2) [unfolded only_learned_def], of k]
    by (auto split: option.splits dest: key_learned_trans key_learned_fields)
qed

lemma only_learned_put:
  "map_of (pm_peers pm) k = Some p \<Longrightarrow> key_learned p p' \<Longrightarrow>
    only_learned pm (pm\<lparr>pm_peers := map_put k p' (pm_peers pm)\<rparr>)"
  by (auto simp: only_learned_def split: option.splits)

lemma only_learned_new:
  "map_of (pm_peers pm) k = None \<Longrightarrow>
    only_learned pm (pm\<lparr>pm_peers := map_put k (new_peer k key None False now) (pm_peers pm)\<rparr>)"
  by (auto simp: only_learned_def new_peer_def split: option.splits)

lemma keys_bound_put:
  "keys_bound hash pm \<Longrightarrow> is_empty_key (pe_public_key p) \<or> hash (pe_public_key p) = k \<Longrightarrow>
    keys_bound hash (pm\<lparr>pm_peers := map_put k p (pm_peers pm)\<rparr>)"
  by (simp add: keys_bound_def)

lemma upsert_learned:
  assumes "upsert now k key None False pm = (r, pm')" "\<not> is_empty_key key" "hash key = k" "keys_bound hash pm"
  shows "only_learned pm pm' \<and> keys_bound hash pm'"
proof (cases "map_of (pm_peers pm) k")
  case None
  then have "pm' = pm \<or> pm' = pm\<lparr>pm_peers := map_put k (new_peer k key None False now) (pm_peers pm)\<rparr>"
    using assms(1) by (auto simp: upsert_def split: if_splits)
  moreover have "keys_bound hash (pm\<lparr>pm_peers := map_put k (new_peer k key None False now) (pm_peers pm)\<rparr>)"
    using assms(3,4) by (intro keys_bound_put) (simp_all add: new_peer_def)
  ultimately show ?thesis using assms(4) only_learned_refl only_learned_new [OF None] by blast
next
  case (Some p)
  then have "pm' = pm \<or> (\<exists>p'. pm' = pm\<lparr>pm_peers := map_put k p' (pm_peers pm)\<rparr> \<and> key_learned p p' \<and>
      (pe_public_key p' = key \<or> pe_public_key p' = pe_public_key p))"
    using assms(1,2) by (auto simp: upsert_def Let_def key_learned_def split: if_splits)
  moreover have "is_empty_key (pe_public_key p) \<or> hash (pe_public_key p) = k"
    using assms(4) Some by (simp add: keys_bound_def)
  ultimately show ?thesis
    using assms(3,4) only_learned_refl only_learned_put [OF Some] keys_bound_put [OF assms(4)] by auto
qed

definition mesh_ok :: "(public_key \<Rightarrow> node_id) \<Rightarrow> node_id \<Rightarrow> PeerManager \<Rightarrow> RoutingEngine \<Rightarrow> bool" where
  "mesh_ok hash self pm re \<longleftrightarrow> peers_ok pm \<and> keys_bound hash pm \<and> routing_ok re \<and> avoids self re"

lemma merge_peer_safe:
  assumes "mesh_ok hash self pm re" "merge_peer hash now sender self t p (st, pm, re) = (st', pm', re')"
  shows "mesh_ok hash self pm' re' \<and> only_learned pm pm'"
proof (cases "ad_node_id p = self \<or> ad_node_id p = sender \<or> length (ad_path p) > PEER_TABLE_MAX_PATH_HOPS \<or>
    length (ad_prefixes p) > PEER_TABLE_MAX_PREFIXES \<or> is_empty_key (ad_public_key p) \<or>
    hash (ad_public_key p) \<noteq> ad_node_id p")
  case True
  then have "pm' = pm" "re' = re" using assms(2) by (auto simp: merge_peer_def split: if_splits)
  then show ?thesis using assms(1) only_learned_refl by simp
next
  case False
  obtain r pm1 where u: "upsert now (ad_node_id p) (ad_public_key p) None False pm = (r, pm1)" by fastforce
  have pm1: "pm' = pm1" using assms(2) False u by (auto simp: merge_peer_def Let_def split: if_splits prod.splits)
  have "only_learned pm pm1 \<and> keys_bound hash pm1" "peers_ok pm1"
    using upsert_learned [OF u, of hash] upsert_ok [of pm now "ad_node_id p" "ad_public_key p" None False] False assms(1) u
    by (simp_all add: mesh_ok_def)
  moreover have "routing_ok re' \<and> avoids self re'"
  proof (cases "r = IdentityConflict \<or> r = CapacityRejected")
    case True
    then show ?thesis using assms False u by (auto simp: merge_peer_def mesh_ok_def split: if_splits)
  next
    case accepted: False
    then obtain m st1 m1 st2 where
      "fold (merge_prefix sender (merge_path_ok sender self p) p t) (ad_prefixes p) (m, st1, re) = (m1, st2, re')"
      using assms(2) False u by (auto simp: merge_peer_def Let_def split: prod.splits)
    then show ?thesis
      by (rule merge_prefixes_safe [rotated 3]) (use assms(1) in \<open>auto simp: mesh_ok_def merge_path_ok_def\<close>)
  qed
  ultimately show ?thesis using pm1 by (simp add: mesh_ok_def)
qed

lemma merge_peers_safe:
  "mesh_ok hash self pm re \<Longrightarrow> fold (merge_peer hash now sender self t) ps (st, pm, re) = (st', pm', re') \<Longrightarrow>
    mesh_ok hash self pm' re' \<and> only_learned pm pm'"
proof (induction ps arbitrary: st pm re)
  case (Cons p ps)
  obtain st1 pm1 re1 where s: "merge_peer hash now sender self t p (st, pm, re) = (st1, pm1, re1)" by (metis prod_cases3)
  from merge_peer_safe [OF Cons.prems(1) s] Cons.IH [of pm1 re1] Cons.prems(2) s only_learned_trans
  show ?case by fastforce
qed (simp add: only_learned_refl)

text \<open>C25: a peer table cannot corrupt a node, whatever an authenticated sender puts
  into it: both tables stay well-formed and within their bounds, every bound key
  hashes to its node id, no learned route leads through the node itself, no
  known peer loses its key, its endpoint or its trust, and a peer learned this
  way has no endpoint and is not trusted.\<close>

theorem merge_peer_table_safe:
  assumes "mesh_ok hash self pm re"
    and "merge_peer_table hash now pm re advertised sender self validated_at = (st, pm', re')"
  shows "mesh_ok hash self pm' re' \<and> only_learned pm pm'"
  using merge_peers_safe [OF assms(1)] assms(2) by (simp add: merge_peer_table_def)

definition demo_node :: "byte \<Rightarrow> node_id" where
  "demo_node b = replicate 32 b"

definition demo_table :: "byte \<Rightarrow> node_id list \<Rightarrow> AdvertisedPeer list" where
  "demo_table b path = [\<lparr>ad_node_id = demo_node b, ad_public_key = demo_node b, ad_path = path,
     ad_prefixes = [\<lparr>av_prefix = from_ipv4 0x0A000000, av_prefix_length = 24, av_sequence_number = 3,
       av_lease_seconds = 90, av_metric = 7\<rparr>]\<rparr>]"

lemma demo_mesh: "mesh_ok (\<lambda>k. k) (demo_node 1) (new_PeerManager 256) (new_RoutingEngine 2048)"
  by (simp add: mesh_ok_def peers_ok_def keys_bound_def routing_ok_def avoids_def new_PeerManager_def
      new_RoutingEngine_def count_if_def)

theorem merge_peer_table_safe_witness:
  "\<exists>st pm re. merge_peer_table (\<lambda>k. k) 5 (new_PeerManager 256) (new_RoutingEngine 2048)
      (demo_table 3 [demo_node 4, demo_node 3]) (demo_node 2) (demo_node 1) 5 = (st, pm, re) \<and>
    mesh_ok (\<lambda>k. k) (demo_node 1) pm re \<and> only_learned (new_PeerManager 256) pm"
  using merge_peer_table_safe [OF demo_mesh] by (metis prod_cases3)

section \<open>The hop limit\<close>

definition eight_hops :: "node_id list" where
  "eight_hops = map demo_node [4, 5, 6, 7, 8, 9, 10, 3]"


end
