(* ===== verification/Base64url.thy ===== *)
theory Base64url
  imports Aegis_Prelude
begin

text \<open>
  \<open>base64url_encode\<close> and \<open>base64url_decode\<close> of \<open>src/invite/invite.cpp\<close>.  Both keep a
  32-bit accumulator whose high bits are garbage and a count of the pending bits
  minus the group size.  They are inverse to each other.
\<close>

definition BASE64URL_CHARS :: string where
  "BASE64URL_CHARS = ''ABCDEFGHIJKLMNOPQRSTUVWXYZabcdefghijklmnopqrstuvwxyz0123456789-_''"

section \<open>Definitions\<close>

text \<open>\<open>while (valb >= 0)\<close>: the characters pushed and the count left.\<close>

function emit_sextets :: "u32 \<Rightarrow> int \<Rightarrow> string \<times> int" where
  "emit_sextets val valb =
    (if valb \<ge> 0 then
       let (out, valb') = emit_sextets val (valb - 6)
       in (BASE64URL_CHARS ! unat (drop_bit (nat valb) val AND 0x3F) # out, valb')
     else ([], valb))"
  by pat_completeness auto
termination
  by (relation "measure (\<lambda>(val, valb). nat (valb + 6))") auto

declare emit_sextets.simps [simp del]

fun encode_bytes :: "bytes \<Rightarrow> u32 \<Rightarrow> int \<Rightarrow> string" where
  "encode_bytes [] val valb =
    (if valb > -6 then [BASE64URL_CHARS ! unat (drop_bit (nat (valb + 8)) (push_bit 8 val) AND 0x3F)] else [])"
| "encode_bytes (b # bs) val valb =
    (let val = push_bit 8 val + ucast b;
         (out, valb) = emit_sextets val (valb + 8)
     in out @ encode_bytes bs val valb)"

definition base64url_encode :: "bytes \<Rightarrow> string" where
  "base64url_encode bytes = encode_bytes bytes 0 (-6)"

text \<open>The table \<open>T\<close>; \<open>None\<close> stands for -1.\<close>

definition base64url_index :: "char \<Rightarrow> nat option" where
  "base64url_index c = map_of (zip BASE64URL_CHARS [0..<64]) c"

fun decode_chars :: "string \<Rightarrow> u32 \<Rightarrow> int \<Rightarrow> bytes option" where
  "decode_chars [] val valb = Some []"
| "decode_chars (c # cs) val valb =
    (case base64url_index c of None \<Rightarrow> None
     | Some i \<Rightarrow>
         let val = push_bit 6 val + of_nat i; valb = valb + 6 in
         if valb \<ge> 0
         then map_option ((#) (ucast (drop_bit (nat valb) val AND 0xFF))) (decode_chars cs val (valb - 8))
         else decode_chars cs val valb)"

definition base64url_decode :: "string \<Rightarrow> bytes option" where
  "base64url_decode cs = decode_chars cs 0 (-8)"

section \<open>Characters and sextets\<close>

definition sextet_char :: "u32 \<Rightarrow> char" where
  "sextet_char x = BASE64URL_CHARS ! unat (x AND 0x3F)"

lemma index_table: "\<forall>i \<in> set [0..<64]. base64url_index (BASE64URL_CHARS ! i) = Some i"
  by code_simp

lemma sextet_less: "unat (x AND 0x3F :: u32) < 64"
proof -
  have "x AND 0x3F \<le> 0x3F" by (rule word_and_le1)
  then show ?thesis by (simp add: word_le_nat_alt)
qed

lemma index_sextet [simp]: "base64url_index (sextet_char x) = Some (unat (x AND 0x3F))"
  using index_table sextet_less [of x] by (auto simp: sextet_char_def)

lemma add_disjoint_byte: "push_bit 8 val + ucast (b :: byte) = (push_bit 8 val OR ucast b :: u32)"
  by (rule disjunctive_add) (auto simp: bit_simps dest: bit_imp_le_length)

lemma mask_sextet: "(0x3F :: u32) = mask 6" and mask_octet: "(0xFF :: u32) = mask 8"
  by (simp_all add: mask_eq_exp_minus_1)

lemma add_disjoint_sextet: "push_bit 6 val + (x AND 0x3F) = (push_bit 6 val OR (x AND 0x3F) :: u32)"
  unfolding mask_sextet by (rule disjunctive_add) (auto simp: bit_simps)

section \<open>Groups\<close>

lemma emit_steps:
  "valb < 0 \<Longrightarrow> emit_sextets val valb = ([], valb)"
  "valb \<ge> 0 \<Longrightarrow> valb < 6 \<Longrightarrow> emit_sextets val valb = ([sextet_char (drop_bit (nat valb) val)], valb - 6)"
  "valb \<ge> 6 \<Longrightarrow> valb < 12 \<Longrightarrow> emit_sextets val valb =
     ([sextet_char (drop_bit (nat valb) val), sextet_char (drop_bit (nat (valb - 6)) val)], valb - 12)"
  by (simp_all add: emit_sextets.simps [of val valb] emit_sextets.simps [of val "valb - 6"]
      emit_sextets.simps [of val "valb - 12"] sextet_char_def)

lemma encode_tail:
  "encode_bytes [] val (-6) = []"
  "encode_bytes [] val (-4) = [sextet_char (push_bit 4 val)]"
  "encode_bytes [] val (-2) = [sextet_char (push_bit 2 val)]"
proof -
  have "drop_bit 4 (push_bit 8 val) AND 0x3F = push_bit 4 val AND 0x3F"
    "drop_bit 6 (push_bit 8 val) AND 0x3F = push_bit 2 val AND 0x3F"
    unfolding mask_sextet by (rule bit_word_eqI; auto simp: bit_simps)+
  then show "encode_bytes [] val (-6) = []" "encode_bytes [] val (-4) = [sextet_char (push_bit 4 val)]"
    "encode_bytes [] val (-2) = [sextet_char (push_bit 2 val)]"
    by (simp_all add: sextet_char_def)
qed

lemma encode_step:
  "encode_bytes (b # bs) val (-6) =
    (let v = push_bit 8 val OR ucast b in sextet_char (drop_bit 2 v) # encode_bytes bs v (-4))"
  "encode_bytes (b # bs) val (-4) =
    (let v = push_bit 8 val OR ucast b in sextet_char (drop_bit 4 v) # encode_bytes bs v (-2))"
  "encode_bytes (b # bs) val (-2) =
    (let v = push_bit 8 val OR ucast b in sextet_char (drop_bit 6 v) # sextet_char v # encode_bytes bs v (-6))"
  by (simp_all only: encode_bytes.simps Let_def add_disjoint_byte) (simp_all add: emit_steps)

declare encode_bytes.simps [simp del]

lemma encode_group:
  fixes val :: u32
  defines "v1 a \<equiv> push_bit 8 val OR ucast (a :: byte)"
  defines "v2 a b \<equiv> push_bit 8 (v1 a) OR ucast (b :: byte)"
  defines "v3 a b c \<equiv> push_bit 8 (v2 a b) OR ucast (c :: byte)"
  shows "encode_bytes [] val (-6) = []"
    and "encode_bytes [a] val (-6) = [sextet_char (drop_bit 2 (v1 a)), sextet_char (push_bit 4 (v1 a))]"
    and "encode_bytes [a, b] val (-6) =
      [sextet_char (drop_bit 2 (v1 a)), sextet_char (drop_bit 4 (v2 a b)), sextet_char (push_bit 2 (v2 a b))]"
    and "encode_bytes (a # b # c # bs) val (-6) =
      sextet_char (drop_bit 2 (v1 a)) # sextet_char (drop_bit 4 (v2 a b)) #
      sextet_char (drop_bit 6 (v3 a b c)) # sextet_char (v3 a b c) # encode_bytes bs (v3 a b c) (-6)"
  unfolding v3_def v2_def v1_def by (simp_all only: encode_step encode_tail Let_def)

lemma decode_group:
  fixes val :: u32
  defines "u1 x \<equiv> push_bit 6 val OR (x AND 0x3F)"
  defines "u2 x y \<equiv> push_bit 6 (u1 x) OR (y AND 0x3F)"
  defines "u3 x y z \<equiv> push_bit 6 (u2 x y) OR (z AND 0x3F)"
  defines "u4 x y z w \<equiv> push_bit 6 (u3 x y z) OR (w AND 0x3F)"
  shows "decode_chars [sextet_char x, sextet_char y] val (-8) = Some [ucast (drop_bit 4 (u2 x y) AND 0xFF)]"
    and "decode_chars [sextet_char x, sextet_char y, sextet_char z] val (-8) =
      Some [ucast (drop_bit 4 (u2 x y) AND 0xFF), ucast (drop_bit 2 (u3 x y z) AND 0xFF)]"
    and "decode_chars (sextet_char x # sextet_char y # sextet_char z # sextet_char w # cs) val (-8) =
      map_option (\<lambda>bs. ucast (drop_bit 4 (u2 x y) AND 0xFF) # ucast (drop_bit 2 (u3 x y z) AND 0xFF) #
        ucast (u4 x y z w AND 0xFF) # bs) (decode_chars cs (u4 x y z w) (-8))"
  by (simp_all add: Let_def add_disjoint_sextet u1_def u2_def u3_def u4_def option.map_comp comp_def)

declare decode_chars.simps(2) [simp del]

text \<open>Reassembling the bytes of a group; the accumulators before the group do not matter.\<close>

lemma byte_eqI:
  "bit x 0 = bit y 0 \<Longrightarrow> bit x 1 = bit y 1 \<Longrightarrow> bit x 2 = bit y 2 \<Longrightarrow> bit x 3 = bit y 3 \<Longrightarrow>
   bit x 4 = bit y 4 \<Longrightarrow> bit x 5 = bit y 5 \<Longrightarrow> bit x 6 = bit y 6 \<Longrightarrow> bit x 7 = bit y 7 \<Longrightarrow> x = (y :: byte)"
proof (rule bit_word_eqI)
  fix n assume b: "bit x 0 = bit y 0" "bit x 1 = bit y 1" "bit x 2 = bit y 2" "bit x 3 = bit y 3"
    "bit x 4 = bit y 4" "bit x 5 = bit y 5" "bit x 6 = bit y 6" "bit x 7 = bit y 7" and "n < LENGTH(8)"
  then have "n < 8" by simp
  then have "n = 0 \<or> n = 1 \<or> n = 2 \<or> n = 3 \<or> n = 4 \<or> n = 5 \<or> n = 6 \<or> n = 7" by arith
  then show "bit x n = bit y n" using b by (elim disjE) (simp_all only:)
qed

lemma bit_byte_high: "8 \<le> n \<Longrightarrow> \<not> bit (x :: byte) n"
  using bit_imp_le_length [of x n] by auto

lemma group_bytes:
  fixes val u :: u32 and a b c :: byte
  defines "v1 \<equiv> push_bit 8 val OR ucast a"
  defines "v2 \<equiv> push_bit 8 v1 OR ucast b"
  defines "v3 \<equiv> push_bit 8 v2 OR ucast c"
  defines "u2 y \<equiv> push_bit 6 (push_bit 6 u OR (drop_bit 2 v1 AND 0x3F)) OR (y AND 0x3F)"
  defines "u3 z \<equiv> push_bit 6 (u2 (drop_bit 4 v2)) OR (z AND 0x3F)"
  shows "ucast (drop_bit 4 (u2 (push_bit 4 v1)) AND 0xFF) = a"
    and "ucast (drop_bit 4 (u2 (drop_bit 4 v2)) AND 0xFF) = a"
    and "ucast (drop_bit 2 (u3 (push_bit 2 v2)) AND 0xFF) = b"
    and "ucast (drop_bit 2 (u3 (drop_bit 6 v3)) AND 0xFF) = b"
    and "ucast ((push_bit 6 (u3 (drop_bit 6 v3)) OR (v3 AND 0x3F)) AND 0xFF) = c"
  unfolding u3_def u2_def v3_def v2_def v1_def mask_sextet mask_octet
  by (rule byte_eqI; simp add: bit_simps bit_byte_high)+

lemma group_induct [case_names Nil One Two Three]:
  "P [] \<Longrightarrow> (\<And>a. P [a]) \<Longrightarrow> (\<And>a b. P [a, b]) \<Longrightarrow>
   (\<And>a b c bs. P bs \<Longrightarrow> P (a # b # c # bs)) \<Longrightarrow> P bs"
  by induction_schema (pat_completeness, lexicographic_order)

lemma decode_encode: "decode_chars (encode_bytes bs val (-6)) u (-8) = Some bs"
proof (induction bs arbitrary: val u rule: group_induct)
  case (Three a b c bs)
  show ?case by (simp only: encode_group(4) decode_group(3) group_bytes Three option.map)
qed (simp_all only: encode_group(1-3) decode_group(1,2) decode_chars.simps(1) group_bytes)

lemma base64url_roundtrip: "base64url_decode (base64url_encode bs) = Some bs"
  by (simp add: base64url_decode_def base64url_encode_def decode_encode)

lemma encode_length: "length (encode_bytes bs val (-6)) = (4 * length bs + 2) div 3"
  by (induction bs arbitrary: val rule: group_induct) (simp_all add: encode_group)

lemma base64url_length: "length (base64url_encode bs) = (4 * length bs + 2) div 3"
  by (simp add: base64url_encode_def encode_length)

lemma sextet_char_mem: "sextet_char x \<in> set BASE64URL_CHARS"
proof -
  have "length BASE64URL_CHARS = 64" by code_simp
  then show ?thesis using sextet_less [of x] by (simp add: sextet_char_def)
qed

lemma encode_chars: "set (encode_bytes bs val (-6)) \<subseteq> set BASE64URL_CHARS"
  by (induction bs arbitrary: val rule: group_induct) (simp_all add: encode_group sextet_char_mem)

lemma base64url_chars: "set (base64url_encode bs) \<subseteq> set BASE64URL_CHARS"
  by (simp add: base64url_encode_def encode_chars)

end
