(* ===== verification/Net_Order.thy ===== *)
theory Net_Order
  imports Net_Codec
begin

text \<open>
  The network-order forms of \<open>include/aegis/net/endpoint.hpp\<close>: on the little-endian
  targets \<open>htonl\<close> and \<open>ntohl\<close> reverse the four bytes, \<open>ipv4_network\<close> is the address of
  an IPv4 endpoint as the socket interface holds it, and \<open>Endpoint\<close> is the constructor
  from that form.
\<close>

definition htonl :: "u32 \<Rightarrow> u32" where
  "htonl v = be_word (rev (be32 v))"

abbreviation ntohl :: "u32 \<Rightarrow> u32" where "ntohl \<equiv> htonl"

definition ipv4_network :: "Endpoint \<Rightarrow> u32" where
  "ipv4_network e = (if is_ipv4 e then htonl (ipv4_value (ep_address e)) else 0)"

definition network_endpoint :: "u32 \<Rightarrow> u16 \<Rightarrow> Endpoint" where
  "network_endpoint ip port = \<lparr>ep_address = from_ipv4 (ntohl ip), ep_port = port\<rparr>"

lemma htonl_htonl [simp]: "htonl (htonl v) = v"
  by (simp add: htonl_def be_be_word(2))

lemma htonl_eq_0 [simp]: "htonl v = 0 \<longleftrightarrow> v = 0"
proof -
  have "htonl 0 = 0" by (simp add: htonl_def be32_def be_word_def)
  then show ?thesis by (metis htonl_htonl)
qed

lemma network_endpoint_fields [simp]:
  "is_ipv4 (network_endpoint ip port)" "ipv4_network (network_endpoint ip port) = ip"
  "ep_port (network_endpoint ip port) = port" "canonical_address (ep_address (network_endpoint ip port))"
  by (simp_all add: network_endpoint_def ipv4_network_def is_ipv4_def)

lemma network_endpoint_id:
  assumes "canonical_address (ep_address e)" "is_ipv4 e"
  shows "network_endpoint (ipv4_network e) (ep_port e) = e"
  using assms canonical_ipv4 [OF assms(1)]
  by (intro Endpoint.equality) (simp_all add: network_endpoint_def ipv4_network_def is_ipv4_def)

end
