(* ===== verification/Ed25519.thy ===== *)
theory Ed25519
  imports Aegis_Prelude
begin

text \<open>
  The Ed25519 operations the program takes from OpenSSL, as parameters: deriving the
  public key, signing, verifying.  \<open>None\<close> and \<open>False\<close> are the failures of any of the
  library calls.  \<open>ed25519_correct\<close> is what the library documents and the code
  relies on: a key that signs has a public key, and that key verifies the signature, which
  has 64 bytes.  A concrete scheme shows that the contract can hold.
\<close>

abbreviation KEY_SIZE :: nat where "KEY_SIZE \<equiv> 32"
abbreviation IDENTITY_SIGNATURE_SIZE :: nat where "IDENTITY_SIGNATURE_SIZE \<equiv> 64"

abbreviation zero_key :: bytes where "zero_key \<equiv> replicate 32 0"
abbreviation zero_signature :: bytes where "zero_signature \<equiv> replicate 64 0"

record ed25519 =
  ed_public :: "bytes \<Rightarrow> bytes option"
  ed_sign :: "bytes \<Rightarrow> bytes \<Rightarrow> bytes option"
  ed_verify :: "bytes \<Rightarrow> bytes \<Rightarrow> bytes \<Rightarrow> bool"

definition ed25519_correct :: "ed25519 \<Rightarrow> bool" where
  "ed25519_correct ed \<longleftrightarrow>
     (\<forall>sk pk. ed_public ed sk = Some pk \<longrightarrow> length pk = KEY_SIZE) \<and>
     (\<forall>sk m s. ed_sign ed sk m = Some s \<longrightarrow> length s = IDENTITY_SIGNATURE_SIZE \<and>
        (\<exists>pk. ed_public ed sk = Some pk \<and> ed_verify ed pk s m))"

definition demo_ed25519 :: ed25519 where
  "demo_ed25519 =
    \<lparr>ed_public = (\<lambda>sk. if length sk = 32 then Some sk else None),
     ed_sign = (\<lambda>sk m. if length sk = 32 then Some (sk @ replicate 32 (sum_list m)) else None),
     ed_verify = (\<lambda>pk s m. s = pk @ replicate 32 (sum_list m))\<rparr>"

lemma demo_ed25519_correct: "ed25519_correct demo_ed25519"
  by (simp add: ed25519_correct_def demo_ed25519_def)

lemma sign_verifies:
  "ed25519_correct ed \<Longrightarrow> ed_public ed sk = Some pk \<Longrightarrow> ed_sign ed sk m = Some s \<Longrightarrow>
    ed_verify ed pk s m \<and> length s = IDENTITY_SIGNATURE_SIZE"
  unfolding ed25519_correct_def by (metis option.inject)

text \<open>\<open>EVP_DigestSign\<close> into a fixed-size array, with the check that it filled it.\<close>

definition sign_exact :: "ed25519 \<Rightarrow> bytes \<Rightarrow> bytes \<Rightarrow> bytes option" where
  "sign_exact ed private_key message = do {
     s \<leftarrow> ed_sign ed private_key message;
     if length s = IDENTITY_SIGNATURE_SIZE then Some s else None }"

lemma sign_exact_SomeD:
  "sign_exact ed sk m = Some s \<Longrightarrow> ed_sign ed sk m = Some s \<and> length s = IDENTITY_SIGNATURE_SIZE"
  by (auto simp: sign_exact_def bind_eq_Some_conv split: if_splits)

lemma sign_exact_correct:
  "ed25519_correct ed \<Longrightarrow> sign_exact ed sk m = ed_sign ed sk m"
  unfolding ed25519_correct_def sign_exact_def by (cases "ed_sign ed sk m") auto

end
