(* ===== verification/Invite.thy ===== *)
theory Invite
  imports Base64url Net_Order Wire_List Ed25519
begin

text \<open>
  \<open>src/invite/invite.cpp\<close>: the unsigned \<open>AEGIS1\<close> invite and the signed \<open>AEGIS2\<close>
  membership grant, as text and as records.  Both decoders accept exactly what the
  encoders print, up to blanks and quotes around the text; a grant is accepted only with
  a signature over its own bytes.
\<close>

section \<open>Definitions\<close>

abbreviation INVITE_PREFIX :: string where "INVITE_PREFIX \<equiv> ''AEGIS1:''"
abbreviation AEGIS2_PREFIX :: string where "AEGIS2_PREFIX \<equiv> ''AEGIS2:''"
abbreviation INVITE_FIXED_SIZE :: nat where "INVITE_FIXED_SIZE \<equiv> 108"
abbreviation INVITE_MAX_NAME_SIZE :: nat where "INVITE_MAX_NAME_SIZE \<equiv> 64"
abbreviation AEGIS2_SIGNING_DOMAIN :: string where "AEGIS2_SIGNING_DOMAIN \<equiv> ''aegis-membership-grant-v2''"
abbreviation AEGIS2_MAX_PREFIXES :: nat where "AEGIS2_MAX_PREFIXES \<equiv> 16"
abbreviation AEGIS2_MAX_BOOTSTRAP_CANDIDATES :: nat where "AEGIS2_MAX_BOOTSTRAP_CANDIDATES \<equiv> 4"
abbreviation AEGIS2_FIXED_SIZE :: nat where "AEGIS2_FIXED_SIZE \<equiv> 226"
abbreviation AEGIS2_MAX_SIZE :: nat where "AEGIS2_MAX_SIZE \<equiv> 458"
abbreviation AEGIS2_KNOWN_CAPABILITIES :: u64 where "AEGIS2_KNOWN_CAPABILITIES \<equiv> 15"

record InvitePayload =
  iv_network_id :: network_id
  iv_bootstrap_pubkey :: public_key
  iv_creator_node_id :: node_id
  iv_bootstrap_endpoint :: Endpoint
  iv_bootstrap_prefix :: u32
  iv_bootstrap_prefix_len :: byte
  iv_network_name :: bytes

record Aegis2PrefixGrant =
  pg_prefix :: u32
  pg_prefix_len :: byte

record Aegis2BootstrapCandidate =
  bc_x25519_public_key :: public_key
  bc_endpoint :: Endpoint

record Aegis2MembershipGrant =
  gr_network_id :: network_id
  gr_issuer_signing_public_key :: bytes
  gr_issuer_node_id :: node_id
  gr_enrollment_nonce :: bytes
  gr_issued_at :: u64
  gr_expires_at :: u64
  gr_capabilities :: u64
  gr_revocation_epoch :: u64
  gr_allowed_prefixes :: "Aegis2PrefixGrant list"
  gr_bootstrap_candidates :: "Aegis2BootstrapCandidate list"
  gr_signature :: bytes

text \<open>\<open>find_first_not_of\<close> and \<open>find_last_not_of\<close> around the text.\<close>

definition invite_blank :: "char \<Rightarrow> bool" where
  "invite_blank c \<longleftrightarrow> c \<in> {CHR '' '', CHR 0x09, CHR 0x0D, CHR 0x0A, CHR 0x22}"

definition trim_invite :: "string \<Rightarrow> string" where
  "trim_invite s = rev (dropWhile invite_blank (rev (dropWhile invite_blank s)))"

definition write_prefix_grant :: "Aegis2PrefixGrant \<Rightarrow> wire_writer \<Rightarrow> wire_writer option" where
  "write_prefix_grant p w =
    (if pg_prefix_len p > 32 then None
     else do { w \<leftarrow> write_u32 (pg_prefix p) w; write_u8 (pg_prefix_len p) w })"

definition write_bootstrap_candidate :: "Aegis2BootstrapCandidate \<Rightarrow> wire_writer \<Rightarrow> wire_writer option" where
  "write_bootstrap_candidate c w =
    (if bc_x25519_public_key c = zero_key \<or> \<not> is_ipv4 (bc_endpoint c) \<or>
        ipv4_network (bc_endpoint c) = 0 \<or> ep_port (bc_endpoint c) = 0 then None
     else do {
       w \<leftarrow> write_bytes (bc_x25519_public_key c) w;
       w \<leftarrow> write_u32 (ipv4_network (bc_endpoint c)) w;
       write_u16 (ep_port (bc_endpoint c)) w })"

definition aegis2_signed_bytes :: "Aegis2MembershipGrant \<Rightarrow> bytes option" where
  "aegis2_signed_bytes grant =
    (if length (gr_allowed_prefixes grant) > AEGIS2_MAX_PREFIXES \<or>
        length (gr_bootstrap_candidates grant) > AEGIS2_MAX_BOOTSTRAP_CANDIDATES then None
     else do {
       let bytes = replicate (AEGIS2_FIXED_SIZE - 64 + length (gr_allowed_prefixes grant) * 5 +
             length (gr_bootstrap_candidates grant) * 38) 0;
       w \<leftarrow> write_bytes (gr_network_id grant) (WireWriter bytes);
       w \<leftarrow> write_bytes (gr_issuer_signing_public_key grant) w;
       w \<leftarrow> write_bytes (gr_issuer_node_id grant) w;
       w \<leftarrow> write_bytes (gr_enrollment_nonce grant) w;
       w \<leftarrow> write_u64 (gr_issued_at grant) w;
       w \<leftarrow> write_u64 (gr_expires_at grant) w;
       w \<leftarrow> write_u64 (gr_capabilities grant) w;
       w \<leftarrow> write_u64 (gr_revocation_epoch grant) w;
       w \<leftarrow> write_u8 (of_nat (length (gr_allowed_prefixes grant))) w;
       w \<leftarrow> write_each write_prefix_grant (gr_allowed_prefixes grant) w;
       w \<leftarrow> write_u8 (of_nat (length (gr_bootstrap_candidates grant))) w;
       w \<leftarrow> write_each write_bootstrap_candidate (gr_bootstrap_candidates grant) w;
       if wr_finished w then Some (wr_bytes w) else None })"

definition sign_aegis2 :: "ed25519 \<Rightarrow> bytes \<Rightarrow> bytes \<Rightarrow> bytes option" where
  "sign_aegis2 ed message private_key = sign_exact ed private_key (ascii AEGIS2_SIGNING_DOMAIN @ message)"

definition verify_aegis2 :: "ed25519 \<Rightarrow> bytes \<Rightarrow> bytes \<Rightarrow> bytes \<Rightarrow> bool" where
  "verify_aegis2 ed message public_key signature =
    ed_verify ed public_key signature (ascii AEGIS2_SIGNING_DOMAIN @ message)"

text \<open>The empty string is the failure.\<close>

definition encode_aegis2_grant :: "ed25519 \<Rightarrow> Aegis2MembershipGrant \<Rightarrow> bytes \<Rightarrow> string" where
  "encode_aegis2_grant ed grant issuer_signing_private_key =
    (case aegis2_signed_bytes grant of None \<Rightarrow> []
     | Some message \<Rightarrow>
         (case sign_aegis2 ed message issuer_signing_private_key of None \<Rightarrow> []
          | Some signature \<Rightarrow>
              if \<not> verify_aegis2 ed message (gr_issuer_signing_public_key grant) signature then []
              else AEGIS2_PREFIX @ base64url_encode (message @ signature)))"

definition verify_aegis2_grant_signature :: "ed25519 \<Rightarrow> Aegis2MembershipGrant \<Rightarrow> bool" where
  "verify_aegis2_grant_signature ed grant =
    (case aegis2_signed_bytes grant of None \<Rightarrow> False
     | Some message \<Rightarrow> verify_aegis2 ed message (gr_issuer_signing_public_key grant) (gr_signature grant))"

definition validate_aegis2_grant :: "ed25519 \<Rightarrow> Aegis2MembershipGrant \<Rightarrow> u64 \<Rightarrow> u64 \<Rightarrow> bool" where
  "validate_aegis2_grant ed grant now_utc_seconds required_capabilities =
    (if gr_capabilities grant AND NOT AEGIS2_KNOWN_CAPABILITIES \<noteq> 0 \<or>
        required_capabilities AND NOT AEGIS2_KNOWN_CAPABILITIES \<noteq> 0 \<or>
        gr_capabilities grant AND required_capabilities \<noteq> required_capabilities \<or>
        gr_bootstrap_candidates grant = [] \<or>
        gr_expires_at grant \<le> gr_issued_at grant \<or>
        now_utc_seconds < gr_issued_at grant \<or>
        now_utc_seconds \<ge> gr_expires_at grant then False
     else verify_aegis2_grant_signature ed grant)"

definition read_prefix_grant :: "wire_reader \<Rightarrow> (Aegis2PrefixGrant \<times> wire_reader) option" where
  "read_prefix_grant r = do {
     (prefix, r) \<leftarrow> read_u32 r;
     (len, r) \<leftarrow> read_u8 r;
     if len > 32 then None else Some (\<lparr>pg_prefix = prefix, pg_prefix_len = len\<rparr>, r) }"

definition read_bootstrap_candidate :: "wire_reader \<Rightarrow> (Aegis2BootstrapCandidate \<times> wire_reader) option" where
  "read_bootstrap_candidate r = do {
     (key, r) \<leftarrow> read_bytes 32 r;
     (ip, r) \<leftarrow> read_u32 r;
     (port, r) \<leftarrow> read_u16 r;
     if ip = 0 \<or> port = 0 \<or> list_all (\<lambda>b. b = 0) key then None
     else Some (\<lparr>bc_x25519_public_key = key, bc_endpoint = network_endpoint ip port\<rparr>, r) }"

text \<open>The reads of \<open>decode_aegis2_grant\<close>, before the signature is checked.\<close>

definition read_aegis2_grant :: "bytes \<Rightarrow> Aegis2MembershipGrant option" where
  "read_aegis2_grant bytes = do {
     (network, r) \<leftarrow> read_bytes 32 (WireReader bytes);
     (issuer_key, r) \<leftarrow> read_bytes 32 r;
     (issuer_node, r) \<leftarrow> read_bytes 32 r;
     (nonce, r) \<leftarrow> read_bytes 32 r;
     (issued, r) \<leftarrow> read_u64 r;
     (expires, r) \<leftarrow> read_u64 r;
     (capabilities, r) \<leftarrow> read_u64 r;
     (revocation_epoch, r) \<leftarrow> read_u64 r;
     (prefix_count, r) \<leftarrow> read_u8 r;
     if unat prefix_count > AEGIS2_MAX_PREFIXES then None
     else do {
       (prefixes, r) \<leftarrow> read_count read_prefix_grant (unat prefix_count) r;
       (candidate_count, r) \<leftarrow> read_u8 r;
       if unat candidate_count > AEGIS2_MAX_BOOTSTRAP_CANDIDATES then None
       else do {
         (candidates, r) \<leftarrow> read_count read_bootstrap_candidate (unat candidate_count) r;
         (signature, r) \<leftarrow> read_bytes 64 r;
         if \<not> rd_finished r then None
         else Some \<lparr>gr_network_id = network, gr_issuer_signing_public_key = issuer_key,
           gr_issuer_node_id = issuer_node, gr_enrollment_nonce = nonce, gr_issued_at = issued,
           gr_expires_at = expires, gr_capabilities = capabilities, gr_revocation_epoch = revocation_epoch,
           gr_allowed_prefixes = prefixes, gr_bootstrap_candidates = candidates,
           gr_signature = signature\<rparr> } } }"

definition decode_aegis2_grant :: "ed25519 \<Rightarrow> string \<Rightarrow> Aegis2MembershipGrant option" where
  "decode_aegis2_grant ed invite_str =
    (let clean = trim_invite invite_str; prefix_len = length AEGIS2_PREFIX in
     if clean = [] then None
     else if length clean \<le> prefix_len \<or> length clean > prefix_len + (AEGIS2_MAX_SIZE + 2) div 3 * 4 \<or>
        take prefix_len clean \<noteq> AEGIS2_PREFIX then None
     else let b64 = drop prefix_len clean in do {
       bytes \<leftarrow> base64url_decode b64;
       if length bytes < AEGIS2_FIXED_SIZE \<or> length bytes > AEGIS2_MAX_SIZE \<or>
          base64url_encode bytes \<noteq> b64 then None
       else do {
         grant \<leftarrow> read_aegis2_grant bytes;
         if \<not> verify_aegis2_grant_signature ed grant then None else Some grant } })"

definition encode_invite :: "InvitePayload \<Rightarrow> string" where
  "encode_invite payload =
    (let name_len = min (length (iv_network_name payload)) INVITE_MAX_NAME_SIZE;
         buf = replicate (INVITE_FIXED_SIZE + name_len) 0;
         name = take name_len (iv_network_name payload)
     in case do {
       w \<leftarrow> write_bytes (iv_network_id payload) (WireWriter buf);
       w \<leftarrow> write_bytes (iv_bootstrap_pubkey payload) w;
       w \<leftarrow> write_bytes (iv_creator_node_id payload) w;
       w \<leftarrow> if is_ipv4 (iv_bootstrap_endpoint payload) then Some w else None;
       w \<leftarrow> write_u32 (ipv4_network (iv_bootstrap_endpoint payload)) w;
       w \<leftarrow> write_u16 (ep_port (iv_bootstrap_endpoint payload)) w;
       w \<leftarrow> write_u32 (iv_bootstrap_prefix payload) w;
       w \<leftarrow> write_u8 (iv_bootstrap_prefix_len payload) w;
       w \<leftarrow> write_u8 (of_nat name_len) w;
       w \<leftarrow> write_bytes name w;
       if wr_finished w then Some w else None } of
       None \<Rightarrow> []
     | Some w \<Rightarrow> INVITE_PREFIX @ base64url_encode (wr_bytes w))"

definition read_invite :: "bytes \<Rightarrow> InvitePayload option" where
  "read_invite bytes = do {
     (network_id, r) \<leftarrow> read_bytes NETWORK_ID_SIZE (WireReader bytes);
     (bootstrap_pubkey, r) \<leftarrow> read_bytes KEY_SIZE r;
     (creator_node_id, r) \<leftarrow> read_bytes NODE_ID_SIZE r;
     (endpoint_ip, r) \<leftarrow> read_u32 r;
     (endpoint_port, r) \<leftarrow> read_u16 r;
     (bootstrap_prefix, r) \<leftarrow> read_u32 r;
     (bootstrap_prefix_len, r) \<leftarrow> read_u8 r;
     (name_len, r) \<leftarrow> read_u8 r;
     if bootstrap_prefix_len > 32 \<or> unat name_len > INVITE_MAX_NAME_SIZE then None
     else do {
       (name, r) \<leftarrow> read_bytes (unat name_len) r;
       if \<not> rd_finished r then None
       else Some \<lparr>iv_network_id = network_id, iv_bootstrap_pubkey = bootstrap_pubkey,
         iv_creator_node_id = creator_node_id,
         iv_bootstrap_endpoint = network_endpoint endpoint_ip endpoint_port,
         iv_bootstrap_prefix = bootstrap_prefix, iv_bootstrap_prefix_len = bootstrap_prefix_len,
         iv_network_name = name\<rparr> } }"

definition decode_invite :: "string \<Rightarrow> InvitePayload option" where
  "decode_invite invite_str =
    (let clean = trim_invite invite_str; prefix_len = length INVITE_PREFIX in
     if clean = [] then None
     else if length clean \<le> prefix_len \<or> take prefix_len clean \<noteq> INVITE_PREFIX then None
     else let b64 = drop prefix_len clean in do {
       bytes \<leftarrow> base64url_decode b64;
       if length bytes < INVITE_FIXED_SIZE \<or> base64url_encode bytes \<noteq> b64 then None
       else read_invite bytes })"

section \<open>Texts\<close>

text \<open>What both decoders do before they read: the trimmed text is the tag and the one
  base64url form of the bytes.\<close>

lemma armoured_text:
  assumes "take (length tag) clean = tag" "length tag \<le> length clean"
  shows "base64url_decode (drop (length tag) clean) = Some bs \<and>
      base64url_encode bs = drop (length tag) clean \<longleftrightarrow> clean = tag @ base64url_encode bs"
  using assms base64url_roundtrip append_take_drop_id [of "length tag" clean] by auto

lemma armoured_parts:
  "take (length tag) (tag @ base64url_encode bs) = tag"
  "drop (length tag) (tag @ base64url_encode bs) = base64url_encode bs"
  "length (tag @ base64url_encode bs) = length tag + (4 * length bs + 2) div 3"
  by (simp_all add: base64url_length)

lemma decode_invite_iff:
  "decode_invite s = Some p \<longleftrightarrow>
    (\<exists>bs. trim_invite s = INVITE_PREFIX @ base64url_encode bs \<and> INVITE_FIXED_SIZE \<le> length bs \<and>
       read_invite bs = Some p)"
proof
  assume "decode_invite s = Some p"
  then obtain bs where b: "take (length INVITE_PREFIX) (trim_invite s) = INVITE_PREFIX" "length INVITE_PREFIX \<le> length (trim_invite s)"
    "base64url_decode (drop (length INVITE_PREFIX) (trim_invite s)) = Some bs" "base64url_encode bs = drop (length INVITE_PREFIX) (trim_invite s)"
    "INVITE_FIXED_SIZE \<le> length bs" "read_invite bs = Some p"
    by (auto simp: decode_invite_def Let_def bind_eq_Some_conv not_less split: if_splits)
  then have "trim_invite s = INVITE_PREFIX @ base64url_encode bs"
    using armoured_text [of INVITE_PREFIX "trim_invite s" bs] by blast
  with b show "\<exists>bs. trim_invite s = INVITE_PREFIX @ base64url_encode bs \<and> INVITE_FIXED_SIZE \<le> length bs \<and>
       read_invite bs = Some p" by blast
next
  assume "\<exists>bs. trim_invite s = INVITE_PREFIX @ base64url_encode bs \<and> INVITE_FIXED_SIZE \<le> length bs \<and>
       read_invite bs = Some p"
  then obtain bs where "trim_invite s = INVITE_PREFIX @ base64url_encode bs" "INVITE_FIXED_SIZE \<le> length bs"
    "read_invite bs = Some p" by blast
  moreover from this(2) have "0 < (4 * length bs + 2) div 3" by simp
  ultimately show "decode_invite s = Some p"
    by (simp add: decode_invite_def base64url_roundtrip base64url_length flip: length_greater_0_conv)
qed

lemma decode_grant_iff:
  "decode_aegis2_grant ed s = Some g \<longleftrightarrow>
    (\<exists>bs. trim_invite s = AEGIS2_PREFIX @ base64url_encode bs \<and>
       AEGIS2_FIXED_SIZE \<le> length bs \<and> length bs \<le> AEGIS2_MAX_SIZE \<and>
       read_aegis2_grant bs = Some g \<and> verify_aegis2_grant_signature ed g)"
proof
  assume "decode_aegis2_grant ed s = Some g"
  then obtain bs where b: "take (length AEGIS2_PREFIX) (trim_invite s) = AEGIS2_PREFIX" "length AEGIS2_PREFIX \<le> length (trim_invite s)"
    "base64url_decode (drop (length AEGIS2_PREFIX) (trim_invite s)) = Some bs" "base64url_encode bs = drop (length AEGIS2_PREFIX) (trim_invite s)"
    "AEGIS2_FIXED_SIZE \<le> length bs" "length bs \<le> AEGIS2_MAX_SIZE"
    "read_aegis2_grant bs = Some g" "verify_aegis2_grant_signature ed g"
    by (auto simp: decode_aegis2_grant_def Let_def bind_eq_Some_conv not_less split: if_splits)
  then have "trim_invite s = AEGIS2_PREFIX @ base64url_encode bs"
    using armoured_text [of AEGIS2_PREFIX "trim_invite s" bs] by blast
  with b show "\<exists>bs. trim_invite s = AEGIS2_PREFIX @ base64url_encode bs \<and>
       AEGIS2_FIXED_SIZE \<le> length bs \<and> length bs \<le> AEGIS2_MAX_SIZE \<and>
       read_aegis2_grant bs = Some g \<and> verify_aegis2_grant_signature ed g" by blast
next
  assume "\<exists>bs. trim_invite s = AEGIS2_PREFIX @ base64url_encode bs \<and>
       AEGIS2_FIXED_SIZE \<le> length bs \<and> length bs \<le> AEGIS2_MAX_SIZE \<and>
       read_aegis2_grant bs = Some g \<and> verify_aegis2_grant_signature ed g"
  then obtain bs where "trim_invite s = AEGIS2_PREFIX @ base64url_encode bs" "AEGIS2_FIXED_SIZE \<le> length bs"
    "length bs \<le> AEGIS2_MAX_SIZE" "read_aegis2_grant bs = Some g" "verify_aegis2_grant_signature ed g" by blast
  moreover from this(2,3) have "0 < (4 * length bs + 2) div 3" "(4 * length bs + 2) div 3 \<le> 612" by auto
  ultimately show "decode_aegis2_grant ed s = Some g"
    by (simp add: decode_aegis2_grant_def base64url_roundtrip base64url_length flip: length_greater_0_conv)
qed

section \<open>Invites\<close>

definition wf_invite :: "InvitePayload \<Rightarrow> bool" where
  "wf_invite p \<longleftrightarrow> length (iv_network_id p) = 32 \<and> length (iv_bootstrap_pubkey p) = 32 \<and>
     length (iv_creator_node_id p) = 32 \<and> is_ipv4 (iv_bootstrap_endpoint p) \<and>
     canonical_address (ep_address (iv_bootstrap_endpoint p)) \<and> iv_bootstrap_prefix_len p \<le> 32 \<and>
     length (iv_network_name p) \<le> INVITE_MAX_NAME_SIZE"

definition invite_bytes :: "InvitePayload \<Rightarrow> bytes" where
  "invite_bytes p = iv_network_id p @ iv_bootstrap_pubkey p @ iv_creator_node_id p @
     be32 (ipv4_network (iv_bootstrap_endpoint p)) @ be16 (ep_port (iv_bootstrap_endpoint p)) @
     be32 (iv_bootstrap_prefix p) @ iv_bootstrap_prefix_len p # of_nat (length (iv_network_name p)) #
     iv_network_name p"

lemma unat_of_nat_byte: "n < 256 \<Longrightarrow> unat (of_nat n :: byte) = n"
  by (simp add: unsigned_of_nat take_bit_nat_eq_self)

lemma encode_invite_eq: "wf_invite p \<Longrightarrow> encode_invite p = INVITE_PREFIX @ base64url_encode (invite_bytes p)"
  by (simp add: encode_invite_def wf_invite_def invite_bytes_def wire_simps Let_def min_absorb1)

lemma read_invite_iff: "read_invite bs = Some p \<longleftrightarrow> wf_invite p \<and> bs = invite_bytes p"
proof
  assume "read_invite bs = Some p"
  then show "wf_invite p \<and> bs = invite_bytes p"
    by (auto simp: read_invite_def wf_invite_def invite_bytes_def WireReader_at rd_finished_at bind_eq_Some_conv
        split: if_splits dest!: wire_dest)
next
  assume p: "wf_invite p \<and> bs = invite_bytes p"
  then have "network_endpoint (ipv4_network (iv_bootstrap_endpoint p)) (ep_port (iv_bootstrap_endpoint p)) =
      iv_bootstrap_endpoint p" by (simp add: wf_invite_def network_endpoint_id)
  moreover have "unat (of_nat (length (iv_network_name p)) :: byte) = length (iv_network_name p)"
    using p by (intro unat_of_nat_byte) (simp add: wf_invite_def)
  ultimately show "read_invite bs = Some p"
    using p by (simp add: read_invite_def wf_invite_def invite_bytes_def wire_simps not_less)
qed

lemma length_invite_bytes: "wf_invite p \<Longrightarrow> length (invite_bytes p) = 108 + length (iv_network_name p)"
  by (simp add: wf_invite_def invite_bytes_def)

text \<open>Blanks and quotes around a printed text are dropped again.\<close>

lemma no_blank_char: "\<forall>c \<in> set BASE64URL_CHARS. \<not> invite_blank c"
  by code_simp

lemma dropWhile_all_append: "list_all P xs \<Longrightarrow> dropWhile P (xs @ ys) = dropWhile P ys"
  by (induction xs) auto

lemma trim_text:
  assumes "list_all invite_blank pre" "list_all invite_blank post" "xs \<noteq> []"
    and "\<not> invite_blank (hd xs)" "\<not> invite_blank (last xs)"
  shows "trim_invite (pre @ xs @ post) = xs"
proof -
  have f: "dropWhile invite_blank (xs @ ys) = xs @ ys" for ys using assms(3,4) by (cases xs) auto
  have "list_all invite_blank (rev post)" using assms(2) by (simp add: list_all_iff)
  then have "dropWhile invite_blank (rev post @ rev xs) = rev xs"
    using assms(3,5) by (cases "rev xs") (auto simp: dropWhile_all_append simp flip: hd_rev)
  then show ?thesis by (simp add: trim_invite_def dropWhile_all_append [OF assms(1)] f)
qed

lemma trim_armoured:
  assumes "list_all invite_blank pre" "list_all invite_blank post"
    and "tag = INVITE_PREFIX \<or> tag = AEGIS2_PREFIX"
  shows "trim_invite (pre @ (tag @ base64url_encode bs) @ post) = tag @ base64url_encode bs"
proof (rule trim_text [OF assms(1,2)])
  have "\<not> invite_blank (CHR '':'')" "\<not> invite_blank (CHR ''A'')" by (simp_all add: invite_blank_def)
  moreover have "\<not> invite_blank (last (base64url_encode bs))" if "base64url_encode bs \<noteq> []"
    using base64url_chars [of bs] no_blank_char last_in_set [OF that] by blast
  ultimately show "\<not> invite_blank (hd (tag @ base64url_encode bs))" "\<not> invite_blank (last (tag @ base64url_encode bs))"
    using assms(3) by (auto simp: last_append)
qed (use assms(3) in auto)

section \<open>Grants\<close>

definition wf_prefix_grant :: "Aegis2PrefixGrant \<Rightarrow> bool" where
  "wf_prefix_grant p \<longleftrightarrow> pg_prefix_len p \<le> 32"

definition prefix_grant_bytes :: "Aegis2PrefixGrant \<Rightarrow> bytes" where
  "prefix_grant_bytes p = be32 (pg_prefix p) @ [pg_prefix_len p]"

interpretation prefix_grants: entry_codec wf_prefix_grant prefix_grant_bytes write_prefix_grant read_prefix_grant
proof
  fix p :: Aegis2PrefixGrant and free out :: bytes
  assume "wf_prefix_grant p" "length (prefix_grant_bytes p) \<le> length free"
  then show "write_prefix_grant p (writer_at out free) =
      Some (writer_at (out @ prefix_grant_bytes p) (drop (length (prefix_grant_bytes p)) free))"
    by (auto simp: write_prefix_grant_def prefix_grant_bytes_def wf_prefix_grant_def wire_simps not_less)
next
  fix p :: Aegis2PrefixGrant and pre t assume "wf_prefix_grant p"
  then show "read_prefix_grant (reader_at pre (prefix_grant_bytes p @ t)) =
      Some (p, reader_at (pre @ prefix_grant_bytes p) t)"
    by (simp add: read_prefix_grant_def prefix_grant_bytes_def wf_prefix_grant_def wire_simps not_less)
next
  fix pre suf p r assume "read_prefix_grant (reader_at pre suf) = Some (p, r)"
  then show "wf_prefix_grant p \<and> (\<exists>t. suf = prefix_grant_bytes p @ t \<and> r = reader_at (pre @ prefix_grant_bytes p) t)"
    by (auto simp: read_prefix_grant_def prefix_grant_bytes_def wf_prefix_grant_def bind_eq_Some_conv
        split: if_splits dest!: wire_dest)
qed

definition wf_bootstrap :: "Aegis2BootstrapCandidate \<Rightarrow> bool" where
  "wf_bootstrap c \<longleftrightarrow> length (bc_x25519_public_key c) = 32 \<and> bc_x25519_public_key c \<noteq> zero_key \<and>
     is_ipv4 (bc_endpoint c) \<and> canonical_address (ep_address (bc_endpoint c)) \<and>
     ipv4_network (bc_endpoint c) \<noteq> 0 \<and> ep_port (bc_endpoint c) \<noteq> 0"

definition bootstrap_bytes :: "Aegis2BootstrapCandidate \<Rightarrow> bytes" where
  "bootstrap_bytes c = bc_x25519_public_key c @ be32 (ipv4_network (bc_endpoint c)) @ be16 (ep_port (bc_endpoint c))"

lemma zero_key_iff: "length k = 32 \<Longrightarrow> list_all (\<lambda>b. b = 0) k \<longleftrightarrow> k = zero_key"
  by (simp add: list_all_iff replicate_eqI eq_commute [of k]) (metis in_set_replicate replicate_eqI)

interpretation bootstrap_entries: entry_codec wf_bootstrap bootstrap_bytes write_bootstrap_candidate
    read_bootstrap_candidate
proof
  fix c :: Aegis2BootstrapCandidate and free out :: bytes
  assume "wf_bootstrap c" "length (bootstrap_bytes c) \<le> length free"
  then show "write_bootstrap_candidate c (writer_at out free) =
      Some (writer_at (out @ bootstrap_bytes c) (drop (length (bootstrap_bytes c)) free))"
    by (simp add: write_bootstrap_candidate_def bootstrap_bytes_def wf_bootstrap_def wire_simps) arith
next
  fix c :: Aegis2BootstrapCandidate and pre t assume c: "wf_bootstrap c"
  then have "network_endpoint (ipv4_network (bc_endpoint c)) (ep_port (bc_endpoint c)) = bc_endpoint c"
    by (simp add: wf_bootstrap_def network_endpoint_id)
  with c show "read_bootstrap_candidate (reader_at pre (bootstrap_bytes c @ t)) =
      Some (c, reader_at (pre @ bootstrap_bytes c) t)"
    by (simp add: read_bootstrap_candidate_def bootstrap_bytes_def wf_bootstrap_def wire_simps zero_key_iff)
next
  fix pre suf c r assume "read_bootstrap_candidate (reader_at pre suf) = Some (c, r)"
  then show "wf_bootstrap c \<and> (\<exists>t. suf = bootstrap_bytes c @ t \<and> r = reader_at (pre @ bootstrap_bytes c) t)"
    by (auto simp: read_bootstrap_candidate_def bootstrap_bytes_def wf_bootstrap_def bind_eq_Some_conv zero_key_iff
        split: if_splits dest!: wire_dest)
qed

definition wf_grant :: "Aegis2MembershipGrant \<Rightarrow> bool" where
  "wf_grant g \<longleftrightarrow> length (gr_network_id g) = 32 \<and> length (gr_issuer_signing_public_key g) = 32 \<and>
     length (gr_issuer_node_id g) = 32 \<and> length (gr_enrollment_nonce g) = 32 \<and> length (gr_signature g) = 64 \<and>
     length (gr_allowed_prefixes g) \<le> AEGIS2_MAX_PREFIXES \<and>
     length (gr_bootstrap_candidates g) \<le> AEGIS2_MAX_BOOTSTRAP_CANDIDATES \<and>
     (\<forall>p \<in> set (gr_allowed_prefixes g). wf_prefix_grant p) \<and>
     (\<forall>c \<in> set (gr_bootstrap_candidates g). wf_bootstrap c)"

definition grant_body :: "Aegis2MembershipGrant \<Rightarrow> bytes" where
  "grant_body g = gr_network_id g @ gr_issuer_signing_public_key g @ gr_issuer_node_id g @ gr_enrollment_nonce g @
     be64 (gr_issued_at g) @ be64 (gr_expires_at g) @ be64 (gr_capabilities g) @ be64 (gr_revocation_epoch g) @
     of_nat (length (gr_allowed_prefixes g)) # prefix_grants.enc_all (gr_allowed_prefixes g) @
     of_nat (length (gr_bootstrap_candidates g)) # bootstrap_entries.enc_all (gr_bootstrap_candidates g)"

lemma grant_lists:
  assumes "wf_grant g"
  shows "length (prefix_grants.enc_all (gr_allowed_prefixes g)) = length (gr_allowed_prefixes g) * 5"
    and "length (bootstrap_entries.enc_all (gr_bootstrap_candidates g)) = length (gr_bootstrap_candidates g) * 38"
  using assms
  by (auto simp: wf_grant_def prefix_grant_bytes_def bootstrap_bytes_def wf_bootstrap_def
      intro!: prefix_grants.length_enc_all bootstrap_entries.length_enc_all)

lemma length_grant_body:
  "wf_grant g \<Longrightarrow> length (grant_body g) =
     162 + length (gr_allowed_prefixes g) * 5 + length (gr_bootstrap_candidates g) * 38"
  by (simp add: grant_body_def grant_lists) (simp add: wf_grant_def)

lemma signed_bytes_eq: "wf_grant g \<Longrightarrow> aegis2_signed_bytes g = Some (grant_body g)"
  using grant_lists [of g]
  by (simp add: aegis2_signed_bytes_def grant_body_def wf_grant_def wire_simps prefix_grants.put_each_at
      bootstrap_entries.put_each_at)

lemma read_grant_iff:
  "read_aegis2_grant bs = Some g \<longleftrightarrow> wf_grant g \<and> bs = grant_body g @ gr_signature g"
proof
  assume "read_aegis2_grant bs = Some g"
  then show "wf_grant g \<and> bs = grant_body g @ gr_signature g"
    by (auto simp: read_aegis2_grant_def wf_grant_def grant_body_def WireReader_at rd_finished_at bind_eq_Some_conv
        split: if_splits dest!: wire_dest prefix_grants.get_each_SomeD bootstrap_entries.get_each_SomeD)
next
  assume g: "wf_grant g \<and> bs = grant_body g @ gr_signature g"
  then have n: "unat (of_nat (length (gr_allowed_prefixes g)) :: byte) = length (gr_allowed_prefixes g)"
    "unat (of_nat (length (gr_bootstrap_candidates g)) :: byte) = length (gr_bootstrap_candidates g)"
    by (auto simp: wf_grant_def intro!: unat_of_nat_byte)
  show "read_aegis2_grant bs = Some g"
    using g n by (simp add: read_aegis2_grant_def grant_body_def wf_grant_def wire_simps
        prefix_grants.get_each_at bootstrap_entries.get_each_at)
qed

definition grant_text :: "Aegis2MembershipGrant \<Rightarrow> string" where
  "grant_text g = AEGIS2_PREFIX @ base64url_encode (grant_body g @ gr_signature g)"

lemma decode_grant_text:
  "decode_aegis2_grant ed s = Some g \<longleftrightarrow>
    wf_grant g \<and> trim_invite s = grant_text g \<and>
    ed_verify ed (gr_issuer_signing_public_key g) (gr_signature g) (ascii AEGIS2_SIGNING_DOMAIN @ grant_body g)"
proof -
  have "AEGIS2_FIXED_SIZE \<le> length (grant_body g @ gr_signature g) \<and>
      length (grant_body g @ gr_signature g) \<le> AEGIS2_MAX_SIZE" if "wf_grant g"
    using that length_grant_body [OF that] by (simp add: wf_grant_def)
  moreover have "verify_aegis2_grant_signature ed g \<longleftrightarrow>
      ed_verify ed (gr_issuer_signing_public_key g) (gr_signature g) (ascii AEGIS2_SIGNING_DOMAIN @ grant_body g)"
    if "wf_grant g" using that by (simp add: verify_aegis2_grant_signature_def signed_bytes_eq verify_aegis2_def)
  ultimately show ?thesis
    unfolding decode_grant_iff read_grant_iff grant_text_def by blast
qed

lemma grant_body_signature [simp]: "grant_body (g\<lparr>gr_signature := s\<rparr>) = grant_body g"
  by (simp add: grant_body_def)

lemma encode_grant_eq:
  assumes "wf_grant (g\<lparr>gr_signature := zero_signature\<rparr>)" "encode_aegis2_grant ed g sk \<noteq> []"
  obtains s where "encode_aegis2_grant ed g sk = grant_text (g\<lparr>gr_signature := s\<rparr>)"
    and "wf_grant (g\<lparr>gr_signature := s\<rparr>)"
    and "ed_verify ed (gr_issuer_signing_public_key g) s (ascii AEGIS2_SIGNING_DOMAIN @ grant_body g)"
proof -
  have "aegis2_signed_bytes g = aegis2_signed_bytes (g\<lparr>gr_signature := zero_signature\<rparr>)"
    by (simp add: aegis2_signed_bytes_def)
  then have b: "aegis2_signed_bytes g = Some (grant_body g)" using signed_bytes_eq [OF assms(1)] by simp
  with assms(2) obtain s where s: "sign_aegis2 ed (grant_body g) sk = Some s"
    "verify_aegis2 ed (grant_body g) (gr_issuer_signing_public_key g) s"
    "encode_aegis2_grant ed g sk = AEGIS2_PREFIX @ base64url_encode (grant_body g @ s)"
    by (auto simp: encode_aegis2_grant_def split: option.splits if_splits)
  moreover have "length s = 64" using s(1) by (auto simp: sign_aegis2_def dest: sign_exact_SomeD)
  ultimately show ?thesis
    using assms(1) by (intro that [of s]) (simp_all add: grant_text_def verify_aegis2_def wf_grant_def)
qed

end
