(* ===== verification/Identity.thy ===== *)
theory Identity
  imports Wire Ed25519
begin

text \<open>
  \<open>src/identity/identity.cpp\<close>: a node's Ed25519 signing identity, its binding to the
  rotatable X25519 key of the Noise handshake, and the certificate by which one identity
  hands over to the next.  Key generation and BLAKE2b are arguments.
\<close>

section \<open>Definitions\<close>

abbreviation KEY_BINDING_DOMAIN :: string where "KEY_BINDING_DOMAIN \<equiv> ''aegis-x25519-binding-v1''"
abbreviation ROTATION_DOMAIN :: string where "ROTATION_DOMAIN \<equiv> ''aegis-identity-rotation-v1''"
abbreviation X25519_KEY_SIZE :: nat where "X25519_KEY_SIZE \<equiv> 32"

record SigningKeyPair =
  sk_public :: bytes
  sk_private :: bytes

record X25519KeyPair =
  xk_private :: bytes
  xk_public :: public_key

record Identity =
  id_signing_keypair :: SigningKeyPair
  id_keypair :: X25519KeyPair
  id_key_agreement_binding :: bytes
  id_node_id :: node_id
  id_network_id :: network_id
  id_creator_node_id :: node_id

record IdentityRotationCertificate =
  rc_previous_signing_public_key :: bytes
  rc_previous_key_agreement_public_key :: public_key
  rc_previous_key_agreement_binding :: bytes
  rc_next_signing_public_key :: bytes
  rc_next_key_agreement_public_key :: public_key
  rc_next_key_agreement_binding :: bytes
  rc_issued_at :: u64
  rc_rotation_signature :: bytes

definition zero_signing_keypair :: SigningKeyPair where
  "zero_signing_keypair = \<lparr>sk_public = zero_key, sk_private = zero_key\<rparr>"

definition zero_keypair :: X25519KeyPair where
  "zero_keypair = \<lparr>xk_private = zero_key, xk_public = zero_key\<rparr>"

definition default_identity :: Identity where
  "default_identity = \<lparr>id_signing_keypair = zero_signing_keypair, id_keypair = zero_keypair,
     id_key_agreement_binding = zero_signature, id_node_id = replicate NODE_ID_SIZE 0,
     id_network_id = replicate NETWORK_ID_SIZE 0, id_creator_node_id = replicate NODE_ID_SIZE 0\<rparr>"

definition key_binding_message :: "public_key \<Rightarrow> bytes" where
  "key_binding_message public_key = ascii KEY_BINDING_DOMAIN @ public_key"

text \<open>The empty message is the failure of a write.\<close>

definition rotation_message :: "IdentityRotationCertificate \<Rightarrow> bytes" where
  "rotation_message certificate =
    (case do {
       let message = replicate (length ROTATION_DOMAIN + KEY_SIZE + X25519_KEY_SIZE + IDENTITY_SIGNATURE_SIZE +
             KEY_SIZE + X25519_KEY_SIZE + IDENTITY_SIGNATURE_SIZE + 8) 0;
       w \<leftarrow> write_bytes (ascii ROTATION_DOMAIN) (WireWriter message);
       w \<leftarrow> write_bytes (rc_previous_signing_public_key certificate) w;
       w \<leftarrow> write_bytes (rc_previous_key_agreement_public_key certificate) w;
       w \<leftarrow> write_bytes (rc_previous_key_agreement_binding certificate) w;
       w \<leftarrow> write_bytes (rc_next_signing_public_key certificate) w;
       w \<leftarrow> write_bytes (rc_next_key_agreement_public_key certificate) w;
       w \<leftarrow> write_bytes (rc_next_key_agreement_binding certificate) w;
       w \<leftarrow> write_u64 (rc_issued_at certificate) w;
       if wr_finished w then Some (wr_bytes w) else None } of
       None \<Rightarrow> [] | Some message \<Rightarrow> message)"

definition sign_rotation_message :: "ed25519 \<Rightarrow> bytes \<Rightarrow> bytes \<Rightarrow> bytes option" where
  "sign_rotation_message ed message private_key = sign_exact ed private_key message"

definition verify_rotation_message :: "ed25519 \<Rightarrow> bytes \<Rightarrow> bytes \<Rightarrow> bytes \<Rightarrow> bool" where
  "verify_rotation_message ed message public_key signature = ed_verify ed public_key signature message"

definition public_identity :: "bytes \<Rightarrow> public_key \<Rightarrow> bytes \<Rightarrow> Identity" where
  "public_identity signing_key agreement_key binding = default_identity
     \<lparr>id_signing_keypair := zero_signing_keypair\<lparr>sk_public := signing_key\<rparr>,
      id_keypair := zero_keypair\<lparr>xk_public := agreement_key\<rparr>,
      id_key_agreement_binding := binding\<rparr>"

text \<open>\<open>hash_public_key\<close>.  \<open>blake2b\<close> is the 64-byte digest, \<open>None\<close> when the call fails: the failure is logged and
  the buffer keeps its zeros.\<close>

definition blake2b_node_id :: "(bytes \<Rightarrow> bytes option) \<Rightarrow> public_key \<Rightarrow> node_id" where
  "blake2b_node_id blake2b public_key =
    take NODE_ID_SIZE (case blake2b public_key of None \<Rightarrow> replicate 64 0 | Some full_hash \<Rightarrow> full_hash)"

definition bind_identity_keys_with :: "ed25519 \<Rightarrow> Identity \<Rightarrow> bytes \<Rightarrow> bool \<times> Identity" where
  "bind_identity_keys_with ed identity signing_private_key =
    (let identity = identity\<lparr>id_signing_keypair := \<lparr>sk_public = zero_key, sk_private = signing_private_key\<rparr>,
           id_key_agreement_binding := zero_signature\<rparr>
     in case ed_public ed signing_private_key of
          None \<Rightarrow> (False, identity)
        | Some public_key \<Rightarrow>
            if length public_key \<noteq> KEY_SIZE then (False, identity)
            else
              let identity = identity\<lparr>id_signing_keypair := (id_signing_keypair identity)\<lparr>sk_public := public_key\<rparr>\<rparr>;
                  message = key_binding_message (xk_public (id_keypair identity))
              in case sign_exact ed signing_private_key message of
                   None \<Rightarrow> (False, identity)
                 | Some signature \<Rightarrow> (True, identity\<lparr>id_key_agreement_binding := signature\<rparr>))"

text \<open>\<open>generated\<close> is the result of \<open>generate_signing_keypair\<close>.\<close>

definition bind_identity_keys :: "ed25519 \<Rightarrow> SigningKeyPair option \<Rightarrow> Identity \<Rightarrow> bool \<times> Identity" where
  "bind_identity_keys ed generated identity =
    (let identity = identity\<lparr>id_signing_keypair := zero_signing_keypair, id_key_agreement_binding := zero_signature\<rparr>
     in case generated of None \<Rightarrow> (False, identity)
        | Some keypair \<Rightarrow> bind_identity_keys_with ed (identity\<lparr>id_signing_keypair := keypair\<rparr>) (sk_private keypair))"

text \<open>\<open>keypair\<close> is the result of \<open>x25519_generate_keypair\<close>; \<open>None\<close> is the exception.\<close>

definition create_identity ::
    "ed25519 \<Rightarrow> (bytes \<Rightarrow> bytes option) \<Rightarrow> X25519KeyPair \<Rightarrow> SigningKeyPair option \<Rightarrow> network_id \<Rightarrow> Identity option" where
  "create_identity ed blake2b keypair generated network_id =
    (let identity = default_identity\<lparr>id_keypair := keypair,
           id_node_id := blake2b_node_id blake2b (xk_public keypair), id_network_id := network_id\<rparr>;
         (bound, identity) = bind_identity_keys ed generated identity
     in if \<not> bound then None else Some identity)"

definition verify_key_agreement_binding :: "ed25519 \<Rightarrow> Identity \<Rightarrow> bool" where
  "verify_key_agreement_binding ed identity =
    (if sk_public (id_signing_keypair identity) = zero_key \<or> xk_public (id_keypair identity) = zero_key \<or>
        id_key_agreement_binding identity = zero_signature then False
     else ed_verify ed (sk_public (id_signing_keypair identity)) (id_key_agreement_binding identity)
       (key_binding_message (xk_public (id_keypair identity))))"

definition verify_identity_rotation_certificate ::
    "ed25519 \<Rightarrow> IdentityRotationCertificate \<Rightarrow> bytes \<Rightarrow> bool" where
  "verify_identity_rotation_certificate ed certificate expected_previous_signing_public_key =
    (if rc_previous_signing_public_key certificate \<noteq> expected_previous_signing_public_key \<or>
        rc_previous_signing_public_key certificate = zero_key \<or>
        rc_next_signing_public_key certificate = zero_key \<or>
        rc_previous_key_agreement_public_key certificate = zero_key \<or>
        rc_next_key_agreement_public_key certificate = zero_key \<or>
        rc_rotation_signature certificate = zero_signature then False
     else
       let previous = public_identity (rc_previous_signing_public_key certificate)
             (rc_previous_key_agreement_public_key certificate) (rc_previous_key_agreement_binding certificate);
           successor = public_identity (rc_next_signing_public_key certificate)
             (rc_next_key_agreement_public_key certificate) (rc_next_key_agreement_binding certificate)
       in if \<not> verify_key_agreement_binding ed previous \<or> \<not> verify_key_agreement_binding ed successor then False
          else let message = rotation_message certificate in
            message \<noteq> [] \<and> verify_rotation_message ed message expected_previous_signing_public_key
              (rc_rotation_signature certificate))"

definition create_identity_rotation_certificate ::
    "ed25519 \<Rightarrow> Identity \<Rightarrow> Identity \<Rightarrow> u64 \<Rightarrow> IdentityRotationCertificate option" where
  "create_identity_rotation_certificate ed previous_identity next_identity issued_at =
    (if \<not> verify_key_agreement_binding ed previous_identity \<or> \<not> verify_key_agreement_binding ed next_identity
     then None
     else
       let certificate = \<lparr>
             rc_previous_signing_public_key = sk_public (id_signing_keypair previous_identity),
             rc_previous_key_agreement_public_key = xk_public (id_keypair previous_identity),
             rc_previous_key_agreement_binding = id_key_agreement_binding previous_identity,
             rc_next_signing_public_key = sk_public (id_signing_keypair next_identity),
             rc_next_key_agreement_public_key = xk_public (id_keypair next_identity),
             rc_next_key_agreement_binding = id_key_agreement_binding next_identity,
             rc_issued_at = issued_at, rc_rotation_signature = zero_signature\<rparr>;
           message = rotation_message certificate
       in if message = [] then None
          else do {
            signature \<leftarrow> sign_rotation_message ed message (sk_private (id_signing_keypair previous_identity));
            let certificate = certificate\<lparr>rc_rotation_signature := signature\<rparr>;
            if verify_identity_rotation_certificate ed certificate (sk_public (id_signing_keypair previous_identity))
            then Some certificate else None })"

definition matches_network :: "Identity \<Rightarrow> network_id \<Rightarrow> bool" where
  "matches_network identity other \<longleftrightarrow> id_network_id identity = other"

section \<open>Bindings\<close>

lemma bind_with_SomeD:
  assumes "bind_identity_keys_with ed identity sk = (True, i)"
  shows "ed_public ed sk = Some (sk_public (id_signing_keypair i))"
    and "sign_exact ed sk (key_binding_message (xk_public (id_keypair i))) = Some (id_key_agreement_binding i)"
    and "sk_private (id_signing_keypair i) = sk" "id_keypair i = id_keypair identity"
    and "length (sk_public (id_signing_keypair i)) = KEY_SIZE"
    and "id_node_id i = id_node_id identity" "id_network_id i = id_network_id identity"
  using assms by (auto simp: bind_identity_keys_with_def Let_def split: option.splits if_splits)

lemma bound_identity_verifies:
  assumes "ed25519_correct ed" "bind_identity_keys_with ed identity sk = (True, i)"
    and "sk_public (id_signing_keypair i) \<noteq> zero_key" "xk_public (id_keypair i) \<noteq> zero_key"
    and "id_key_agreement_binding i \<noteq> zero_signature"
  shows "verify_key_agreement_binding ed i"
  using sign_verifies [OF assms(1) bind_with_SomeD(1) [OF assms(2)]] bind_with_SomeD(2) [OF assms(2)] assms(3-5)
  by (simp add: verify_key_agreement_binding_def sign_exact_correct [OF assms(1)])

lemma created_identity:
  assumes "create_identity ed blake2b keypair generated network_id = Some i"
  obtains kp where "generated = Some kp"
    and "bind_identity_keys_with ed (default_identity\<lparr>id_keypair := keypair,
        id_node_id := blake2b_node_id blake2b (xk_public keypair), id_network_id := network_id,
        id_key_agreement_binding := zero_signature, id_signing_keypair := kp\<rparr>) (sk_private kp) = (True, i)"
proof (cases generated)
  case (Some kp)
  show ?thesis
    using assms Some
    by (intro that [of kp]) (auto simp: create_identity_def bind_identity_keys_def Let_def split: prod.splits if_splits)
qed (use assms in \<open>simp add: create_identity_def bind_identity_keys_def\<close>)

section \<open>Rotation\<close>

definition wf_rotation :: "IdentityRotationCertificate \<Rightarrow> bool" where
  "wf_rotation c \<longleftrightarrow> length (rc_previous_signing_public_key c) = 32 \<and>
     length (rc_previous_key_agreement_public_key c) = 32 \<and> length (rc_previous_key_agreement_binding c) = 64 \<and>
     length (rc_next_signing_public_key c) = 32 \<and> length (rc_next_key_agreement_public_key c) = 32 \<and>
     length (rc_next_key_agreement_binding c) = 64"

lemma rotation_message_eq:
  assumes "wf_rotation c"
  shows "rotation_message c = ascii ROTATION_DOMAIN @ rc_previous_signing_public_key c @
     rc_previous_key_agreement_public_key c @ rc_previous_key_agreement_binding c @ rc_next_signing_public_key c @
     rc_next_key_agreement_public_key c @ rc_next_key_agreement_binding c @ be64 (rc_issued_at c)"
  using assms by (simp add: rotation_message_def wf_rotation_def wire_simps)

lemma rotation_message_inj:
  assumes "wf_rotation c" "wf_rotation d" "rotation_message c = rotation_message d"
  shows "c = d\<lparr>rc_rotation_signature := rc_rotation_signature c\<rparr>"
  using assms(3) [unfolded rotation_message_eq [OF assms(1)] rotation_message_eq [OF assms(2)]] assms(1,2)
  by (simp add: wf_rotation_def)

end
