(* ===== verification/Revocation.thy ===== *)
theory Revocation
  imports Wire_List Ed25519 Std_Vector
begin

text \<open>
  \<open>src/identity/revocation.cpp\<close>: signed revocations of membership grants, the message
  that carries up to sixteen of them, and the bounded store that keeps the highest epoch
  per network, issuer and enrollment nonce.
\<close>

section \<open>Definitions\<close>

abbreviation REVOCATION_WIRE_VERSION :: byte where "REVOCATION_WIRE_VERSION \<equiv> 1"
abbreviation REVOCATION_DOMAIN :: string where "REVOCATION_DOMAIN \<equiv> ''aegis-membership-revocation-v1''"
abbreviation REVOCATION_BODY_SIZE :: nat where "REVOCATION_BODY_SIZE \<equiv> 112"
abbreviation MEMBERSHIP_REVOCATION_MAX_RECORDS :: nat where "MEMBERSHIP_REVOCATION_MAX_RECORDS \<equiv> 16"
abbreviation MEMBERSHIP_REVOCATION_MAX_STORED :: nat where "MEMBERSHIP_REVOCATION_MAX_STORED \<equiv> 1024"
abbreviation MEMBERSHIP_REVOCATION_RECORD_SIZE :: nat where "MEMBERSHIP_REVOCATION_RECORD_SIZE \<equiv> 176"

record MembershipRevocation =
  rv_network_id :: network_id
  rv_issuer_signing_public_key :: bytes
  rv_enrollment_nonce :: bytes
  rv_revocation_epoch :: u64
  rv_issued_at :: u64
  rv_signature :: bytes

text \<open>The empty body is the failure of a write.\<close>

definition signed_body :: "MembershipRevocation \<Rightarrow> bytes" where
  "signed_body revocation =
    (case do {
       w \<leftarrow> write_bytes (rv_network_id revocation) (WireWriter (replicate REVOCATION_BODY_SIZE 0));
       w \<leftarrow> write_bytes (rv_issuer_signing_public_key revocation) w;
       w \<leftarrow> write_bytes (rv_enrollment_nonce revocation) w;
       w \<leftarrow> write_u64 (rv_revocation_epoch revocation) w;
       w \<leftarrow> write_u64 (rv_issued_at revocation) w;
       if wr_finished w then Some (wr_bytes w) else None } of
       None \<Rightarrow> [] | Some body \<Rightarrow> body)"

definition domain_message :: "MembershipRevocation \<Rightarrow> bytes" where
  "domain_message revocation = ascii REVOCATION_DOMAIN @ signed_body revocation"

definition verify_membership_revocation :: "ed25519 \<Rightarrow> MembershipRevocation \<Rightarrow> bool" where
  "verify_membership_revocation ed revocation =
    (if rv_network_id revocation = replicate NETWORK_ID_SIZE 0 \<or>
        rv_issuer_signing_public_key revocation = zero_key \<or>
        rv_enrollment_nonce revocation = zero_key \<or> rv_signature revocation = zero_signature then False
     else ed_verify ed (rv_issuer_signing_public_key revocation) (rv_signature revocation)
       (domain_message revocation))"

definition sign_membership_revocation ::
    "ed25519 \<Rightarrow> network_id \<Rightarrow> bytes \<Rightarrow> bytes \<Rightarrow> bytes \<Rightarrow> u64 \<Rightarrow> u64 \<Rightarrow> MembershipRevocation option" where
  "sign_membership_revocation ed network_id issuer_signing_public_key issuer_signing_private_key
     enrollment_nonce revocation_epoch issued_at =
    (if network_id = replicate NETWORK_ID_SIZE 0 \<or> issuer_signing_public_key = zero_key \<or>
        enrollment_nonce = zero_key then None
     else
       let revocation = \<lparr>rv_network_id = network_id, rv_issuer_signing_public_key = issuer_signing_public_key,
             rv_enrollment_nonce = enrollment_nonce, rv_revocation_epoch = revocation_epoch,
             rv_issued_at = issued_at, rv_signature = zero_signature\<rparr>
       in do {
         signature \<leftarrow> sign_exact ed issuer_signing_private_key (domain_message revocation);
         let revocation = revocation\<lparr>rv_signature := signature\<rparr>;
         if \<not> verify_membership_revocation ed revocation then None else Some revocation })"

definition write_revocation :: "ed25519 \<Rightarrow> MembershipRevocation \<Rightarrow> wire_writer \<Rightarrow> wire_writer option" where
  "write_revocation ed revocation w =
    (if \<not> verify_membership_revocation ed revocation then None
     else do {
       w \<leftarrow> write_bytes (rv_network_id revocation) w;
       w \<leftarrow> write_bytes (rv_issuer_signing_public_key revocation) w;
       w \<leftarrow> write_bytes (rv_enrollment_nonce revocation) w;
       w \<leftarrow> write_u64 (rv_revocation_epoch revocation) w;
       w \<leftarrow> write_u64 (rv_issued_at revocation) w;
       write_bytes (rv_signature revocation) w })"

definition serialize_membership_revocations :: "ed25519 \<Rightarrow> MembershipRevocation list \<Rightarrow> bytes option" where
  "serialize_membership_revocations ed revocations =
    (if revocations = [] \<or> length revocations > MEMBERSHIP_REVOCATION_MAX_RECORDS then None
     else do {
       let bytes = replicate (2 + length revocations * MEMBERSHIP_REVOCATION_RECORD_SIZE) 0;
       w \<leftarrow> write_u8 REVOCATION_WIRE_VERSION (WireWriter bytes);
       w \<leftarrow> write_u8 (of_nat (length revocations)) w;
       w \<leftarrow> write_each (write_revocation ed) revocations w;
       if wr_finished w then Some (wr_bytes w) else None })"

definition read_revocation :: "ed25519 \<Rightarrow> wire_reader \<Rightarrow> (MembershipRevocation \<times> wire_reader) option" where
  "read_revocation ed r = do {
     (network, r) \<leftarrow> read_bytes 32 r;
     (issuer, r) \<leftarrow> read_bytes 32 r;
     (nonce, r) \<leftarrow> read_bytes 32 r;
     (epoch, r) \<leftarrow> read_u64 r;
     (issued, r) \<leftarrow> read_u64 r;
     (signature, r) \<leftarrow> read_bytes 64 r;
     let revocation = \<lparr>rv_network_id = network, rv_issuer_signing_public_key = issuer,
           rv_enrollment_nonce = nonce, rv_revocation_epoch = epoch, rv_issued_at = issued,
           rv_signature = signature\<rparr>;
     if \<not> verify_membership_revocation ed revocation then None else Some (revocation, r) }"

definition deserialize_membership_revocations :: "ed25519 \<Rightarrow> bytes \<Rightarrow> MembershipRevocation list option" where
  "deserialize_membership_revocations ed data =
    (if length data < 2 \<or>
        length data > 2 + MEMBERSHIP_REVOCATION_MAX_RECORDS * MEMBERSHIP_REVOCATION_RECORD_SIZE then None
     else do {
       (version, r) \<leftarrow> read_u8 (WireReader data);
       (count, r) \<leftarrow> read_u8 r;
       if version \<noteq> REVOCATION_WIRE_VERSION \<or> count = 0 \<or> unat count > MEMBERSHIP_REVOCATION_MAX_RECORDS \<or>
          length data \<noteq> 2 + unat count * MEMBERSHIP_REVOCATION_RECORD_SIZE then None
       else do {
         (result, r) \<leftarrow> read_count (read_revocation ed) (unat count) r;
         if \<not> rd_finished r then None else Some result } })"

text \<open>The store is its vector of records.\<close>

definition same_grant :: "MembershipRevocation \<Rightarrow> MembershipRevocation \<Rightarrow> bool" where
  "same_grant revocation current \<longleftrightarrow> rv_network_id current = rv_network_id revocation \<and>
     rv_issuer_signing_public_key current = rv_issuer_signing_public_key revocation \<and>
     rv_enrollment_nonce current = rv_enrollment_nonce revocation"

definition add_revocation ::
    "ed25519 \<Rightarrow> MembershipRevocation \<Rightarrow> MembershipRevocation list \<Rightarrow> bool \<times> MembershipRevocation list" where
  "add_revocation ed revocation records =
    (if \<not> verify_membership_revocation ed revocation then (False, records)
     else case find (same_grant revocation) records of
       Some found \<Rightarrow>
         if rv_revocation_epoch found \<ge> rv_revocation_epoch revocation then (False, records)
         else (True, update_first (same_grant revocation) (\<lambda>_. revocation) records)
     | None \<Rightarrow>
         if length records \<ge> MEMBERSHIP_REVOCATION_MAX_STORED then (False, records)
         else (True, records @ [revocation]))"

section \<open>Messages\<close>

definition wf_revocation :: "ed25519 \<Rightarrow> MembershipRevocation \<Rightarrow> bool" where
  "wf_revocation ed r \<longleftrightarrow> length (rv_network_id r) = 32 \<and> length (rv_issuer_signing_public_key r) = 32 \<and>
     length (rv_enrollment_nonce r) = 32 \<and> length (rv_signature r) = 64 \<and> verify_membership_revocation ed r"

definition revocation_bytes :: "MembershipRevocation \<Rightarrow> bytes" where
  "revocation_bytes r = rv_network_id r @ rv_issuer_signing_public_key r @ rv_enrollment_nonce r @
     be64 (rv_revocation_epoch r) @ be64 (rv_issued_at r) @ rv_signature r"

lemma signed_body_eq:
  assumes "length (rv_network_id r) = 32" "length (rv_issuer_signing_public_key r) = 32"
    "length (rv_enrollment_nonce r) = 32"
  shows "signed_body r = rv_network_id r @ rv_issuer_signing_public_key r @ rv_enrollment_nonce r @
     be64 (rv_revocation_epoch r) @ be64 (rv_issued_at r)"
  using assms by (simp add: signed_body_def wire_simps)

interpretation revocation_entry: entry_codec "wf_revocation ed" revocation_bytes "write_revocation ed"
    "read_revocation ed" for ed
proof
  fix x :: MembershipRevocation and free out :: bytes
  assume "wf_revocation ed x" "length (revocation_bytes x) \<le> length free"
  then show "write_revocation ed x (writer_at out free) =
      Some (writer_at (out @ revocation_bytes x) (drop (length (revocation_bytes x)) free))"
    by (simp add: write_revocation_def revocation_bytes_def wf_revocation_def wire_simps) arith
next
  fix x :: MembershipRevocation and pre t assume "wf_revocation ed x"
  then show "read_revocation ed (reader_at pre (revocation_bytes x @ t)) =
      Some (x, reader_at (pre @ revocation_bytes x) t)"
    by (cases x) (simp add: read_revocation_def revocation_bytes_def wf_revocation_def wire_simps Let_def)
next
  fix pre suf x r assume "read_revocation ed (reader_at pre suf) = Some (x, r)"
  then show "wf_revocation ed x \<and> (\<exists>t. suf = revocation_bytes x @ t \<and> r = reader_at (pre @ revocation_bytes x) t)"
    by (auto simp: read_revocation_def revocation_bytes_def wf_revocation_def bind_eq_Some_conv Let_def
        split: if_splits dest!: wire_dest)
qed

definition wf_revocations :: "ed25519 \<Rightarrow> MembershipRevocation list \<Rightarrow> bool" where
  "wf_revocations ed rs \<longleftrightarrow> rs \<noteq> [] \<and> length rs \<le> MEMBERSHIP_REVOCATION_MAX_RECORDS \<and> (\<forall>r \<in> set rs. wf_revocation ed r)"

lemma length_revocations:
  "wf_revocations ed rs \<Longrightarrow> length (revocation_entry.enc_all rs) = length rs * MEMBERSHIP_REVOCATION_RECORD_SIZE"
  unfolding wf_revocations_def
  by (rule revocation_entry.length_enc_all) (auto simp: revocation_bytes_def wf_revocation_def)

lemma serialize_revocations_eq:
  "wf_revocations ed rs \<Longrightarrow> serialize_membership_revocations ed rs =
     Some (REVOCATION_WIRE_VERSION # of_nat (length rs) # revocation_entry.enc_all rs)"
  using length_revocations [of ed rs]
  by (simp add: serialize_membership_revocations_def wf_revocations_def wire_simps revocation_entry.put_each_at)

interpretation revocation_codec: canonical_codec "wf_revocations ed" "serialize_membership_revocations ed"
    "deserialize_membership_revocations ed" for ed
proof
  fix rs assume "wf_revocations ed rs"
  then show "\<exists>bs. serialize_membership_revocations ed rs = Some bs" by (simp add: serialize_revocations_eq)
next
  fix rs bs assume w: "wf_revocations ed rs" and s: "serialize_membership_revocations ed rs = Some bs"
  have n: "unat (of_nat (length rs) :: byte) = length rs" "(of_nat (length rs) :: byte) \<noteq> 0"
    using w by (auto simp: wf_revocations_def unsigned_of_nat take_bit_nat_eq_self
        simp flip: unat_0_iff [where 'a = 8])
  have "bs = REVOCATION_WIRE_VERSION # of_nat (length rs) # revocation_entry.enc_all rs"
    using s w by (simp add: serialize_revocations_eq)
  then show "deserialize_membership_revocations ed bs = Some rs"
    using w n length_revocations [OF w] revocation_entry.get_each_at [of rs ed _ "[]"]
    by (simp add: deserialize_membership_revocations_def wire_simps wf_revocations_def)
next
  fix bs rs assume "deserialize_membership_revocations ed bs = Some rs"
  then have "wf_revocations ed rs \<and> bs = REVOCATION_WIRE_VERSION # of_nat (length rs) # revocation_entry.enc_all rs"
    by (auto simp: deserialize_membership_revocations_def WireReader_at rd_finished_at bind_eq_Some_conv
        wf_revocations_def unsigned_eq_0_iff split: if_splits dest!: wire_dest revocation_entry.get_each_SomeD)
  then show "wf_revocations ed rs" "serialize_membership_revocations ed rs = Some bs"
    by (simp_all add: serialize_revocations_eq)
qed

section \<open>The store\<close>

definition revocation_key :: "MembershipRevocation \<Rightarrow> network_id \<times> bytes \<times> bytes" where
  "revocation_key r = (rv_network_id r, rv_issuer_signing_public_key r, rv_enrollment_nonce r)"

definition store_ok :: "ed25519 \<Rightarrow> MembershipRevocation list \<Rightarrow> bool" where
  "store_ok ed rs \<longleftrightarrow> length rs \<le> MEMBERSHIP_REVOCATION_MAX_STORED \<and> distinct (map revocation_key rs) \<and>
     (\<forall>r \<in> set rs. verify_membership_revocation ed r)"

text \<open>\<open>covered\<close>: the store answers for a revocation, by its own or a later epoch, unless
  it is full of other grants.\<close>

definition covered :: "MembershipRevocation list \<Rightarrow> MembershipRevocation \<Rightarrow> bool" where
  "covered rs r \<longleftrightarrow> (\<exists>q \<in> set rs. revocation_key q = revocation_key r \<and> rv_revocation_epoch r \<le> rv_revocation_epoch q) \<or>
     length rs = MEMBERSHIP_REVOCATION_MAX_STORED \<and> revocation_key r \<notin> revocation_key ` set rs"

lemma same_grant_key: "same_grant r q \<longleftrightarrow> revocation_key q = revocation_key r"
  by (auto simp: same_grant_def revocation_key_def)

lemma add_cases:
  obtains (unchanged) "add_revocation ed r rs = (False, rs)"
      "verify_membership_revocation ed r \<Longrightarrow> length rs \<le> MEMBERSHIP_REVOCATION_MAX_STORED \<Longrightarrow> covered rs r"
  | (replaced) us q vs where "rs = us @ q # vs" "revocation_key q = revocation_key r"
      "rv_revocation_epoch q < rv_revocation_epoch r" "add_revocation ed r rs = (True, us @ r # vs)"
      "verify_membership_revocation ed r"
  | (added) "add_revocation ed r rs = (True, rs @ [r])" "length rs < MEMBERSHIP_REVOCATION_MAX_STORED"
      "revocation_key r \<notin> revocation_key ` set rs" "verify_membership_revocation ed r"
proof (cases "verify_membership_revocation ed r")
  case True
  show ?thesis
  proof (cases "find (same_grant r) rs")
    case None
    then have k: "revocation_key r \<notin> revocation_key ` set rs" by (auto simp: find_None_iff same_grant_key)
    show ?thesis
    proof (cases "length rs \<ge> MEMBERSHIP_REVOCATION_MAX_STORED")
      case True
      with None k show ?thesis by (intro unchanged) (auto simp: add_revocation_def covered_def)
    next
      case False
      with None k \<open>verify_membership_revocation ed r\<close> show ?thesis
        by (intro added) (auto simp: add_revocation_def)
    qed
  next
    case (Some q)
    from find_Some_mem [OF Some] have q: "q \<in> set rs" "revocation_key q = revocation_key r"
      by (auto simp: same_grant_key)
    show ?thesis
    proof (cases "rv_revocation_epoch r \<le> rv_revocation_epoch q")
      case True
      with Some q show ?thesis by (intro unchanged) (auto simp: add_revocation_def covered_def)
    next
      case False
      from update_first_some [OF Some, of "\<lambda>_. r"] obtain us vs where
        "rs = us @ q # vs" "update_first (same_grant r) (\<lambda>_. r) rs = us @ r # vs" by auto
      with False Some q(2) True show ?thesis by (intro replaced [of us q vs]) (auto simp: add_revocation_def)
    qed
  qed
qed (rule unchanged; simp add: add_revocation_def)

lemma add_revocation_ok:
  assumes "store_ok ed rs"
  shows "store_ok ed (snd (add_revocation ed r rs))"
  using assms by (cases rule: add_cases [of ed r rs]) (auto simp: store_ok_def)

lemma add_revocation_covers:
  assumes "store_ok ed rs" "verify_membership_revocation ed r"
  shows "covered (snd (add_revocation ed r rs)) r"
  using assms by (cases rule: add_cases [of ed r rs]) (auto simp: store_ok_def covered_def)

lemma add_revocation_keeps:
  assumes "covered rs p"
  shows "covered (snd (add_revocation ed r rs)) p"
proof (cases rule: add_cases [of ed r rs])
  case (replaced us q vs)
  have k: "revocation_key ` set (us @ r # vs) = revocation_key ` set rs" using replaced(1,2) by auto
  have "\<exists>x \<in> set (us @ r # vs). revocation_key x = revocation_key p \<and> rv_revocation_epoch p \<le> rv_revocation_epoch x"
    if x: "x \<in> set rs" "revocation_key x = revocation_key p" "rv_revocation_epoch p \<le> rv_revocation_epoch x" for x
  proof (cases "x = q")
    case True
    then show ?thesis using x replaced(2,3) by (intro bexI [of _ r]) auto
  qed (use x replaced(1) in auto)
  then show ?thesis using assms k replaced(1,4) unfolding covered_def by auto
qed (use assms in \<open>auto simp: covered_def\<close>)

lemma add_revocation_set: "set (snd (add_revocation ed r rs)) \<subseteq> insert r (set rs)"
  by (cases rule: add_cases [of ed r rs]) auto

definition store_run :: "ed25519 \<Rightarrow> MembershipRevocation list \<Rightarrow> MembershipRevocation list" where
  "store_run ed calls = foldl (\<lambda>rs r. snd (add_revocation ed r rs)) [] calls"

lemma store_run_ok: "store_ok ed (store_run ed calls)"
  by (induction calls rule: rev_induct) (auto simp: store_run_def add_revocation_ok, simp add: store_ok_def)

lemma store_run_set: "set (store_run ed calls) \<subseteq> set calls"
proof (induction calls rule: rev_induct)
  case (snoc r calls)
  then show ?case using add_revocation_set [of ed r "store_run ed calls"] by (auto simp: store_run_def)
qed (simp add: store_run_def)

lemma store_run_covers:
  "r \<in> set calls \<Longrightarrow> verify_membership_revocation ed r \<Longrightarrow> covered (store_run ed calls) r"
proof (induction calls rule: rev_induct)
  case (snoc c calls)
  then show ?case using add_revocation_covers [OF store_run_ok [of ed calls]] add_revocation_keeps
    by (auto simp: store_run_def)
qed simp

end
