(* ===== verification/Membership_Properties.thy ===== *)
theory Membership_Properties
  imports Invite Identity Revocation
begin

text \<open>
  Membership: what an invite or a grant says is what its issuer wrote, a grant is
  accepted only when signed, revocations are not forgotten, an identity hands over only
  under its own key, and no signature serves two purposes.
\<close>

section \<open>Invites and grants\<close>

definition demo_endpoint :: Endpoint where
  "demo_endpoint = network_endpoint 0x0100007F 0x5CB2"

definition demo_invite :: InvitePayload where
  "demo_invite = \<lparr>iv_network_id = replicate 32 1, iv_bootstrap_pubkey = replicate 32 2,
     iv_creator_node_id = replicate 32 3, iv_bootstrap_endpoint = demo_endpoint,
     iv_bootstrap_prefix = 0x0A000000, iv_bootstrap_prefix_len = 8, iv_network_name = ascii ''home''\<rparr>"



definition demo_grant :: Aegis2MembershipGrant where
  "demo_grant = \<lparr>gr_network_id = replicate 32 1, gr_issuer_signing_public_key = replicate 32 7,
     gr_issuer_node_id = replicate 32 3, gr_enrollment_nonce = replicate 32 4, gr_issued_at = 100,
     gr_expires_at = 200, gr_capabilities = 3, gr_revocation_epoch = 0,
     gr_allowed_prefixes = [\<lparr>pg_prefix = 0x0A000000, pg_prefix_len = 8\<rparr>],
     gr_bootstrap_candidates = [\<lparr>bc_x25519_public_key = replicate 32 2, bc_endpoint = demo_endpoint\<rparr>],
     gr_signature = zero_signature\<rparr>"

lemma required_known:
  fixes c :: "'a::len word"
  assumes "c AND NOT k = 0" "c AND r = r"
  shows "r AND NOT k = 0"
proof -
  have "r AND NOT k = (c AND r) AND NOT k" unfolding assms(2) ..
  also have "\<dots> = r AND (c AND NOT k)" by (simp only: and.assoc and.left_commute)
  finally show ?thesis unfolding assms(1) by simp
qed

text \<open>C35: only signed grants are accepted.  A text decodes to a grant exactly when the grant is
  well formed, the trimmed text is the one text of that grant, and the key it names as
  issuer verifies its signature over the domain tag and every field; and a grant
  validates only with such a signature, inside its interval, with known capabilities that
  include the required ones.\<close>

theorem grant_authentic:
  "(decode_aegis2_grant ed s = Some g \<longleftrightarrow>
      wf_grant g \<and> trim_invite s = grant_text g \<and>
      ed_verify ed (gr_issuer_signing_public_key g) (gr_signature g) (ascii AEGIS2_SIGNING_DOMAIN @ grant_body g)) \<and>
   (wf_grant h \<and> validate_aegis2_grant ed h now required \<longleftrightarrow>
      wf_grant h \<and> gr_issued_at h \<le> now \<and> now < gr_expires_at h \<and> gr_bootstrap_candidates h \<noteq> [] \<and>
      gr_capabilities h AND NOT AEGIS2_KNOWN_CAPABILITIES = 0 \<and>
      gr_capabilities h AND required = required \<and>
      ed_verify ed (gr_issuer_signing_public_key h) (gr_signature h) (ascii AEGIS2_SIGNING_DOMAIN @ grant_body h))"
proof -
  have "required AND NOT AEGIS2_KNOWN_CAPABILITIES = 0"
    if "gr_capabilities h AND NOT AEGIS2_KNOWN_CAPABILITIES = 0" "gr_capabilities h AND required = required"
    using that by (rule required_known)
  then show ?thesis
    by (auto simp: decode_grant_text validate_aegis2_grant_def verify_aegis2_grant_signature_def signed_bytes_eq
        verify_aegis2_def not_less not_le split: if_splits)
qed


lemma demo_grant_wf: "wf_grant (demo_grant\<lparr>gr_signature := zero_signature\<rparr>)"
  by (simp add: wf_grant_def demo_grant_def wf_prefix_grant_def wf_bootstrap_def demo_endpoint_def)


section \<open>Revocations\<close>

text \<open>C38: the revocation store forgets nothing it had room for.  After any calls of
  \<open>add\<close> it holds at most 1024 records, one per grant, each of them verified and one of
  those offered; and every verified record that was offered is answered by a record for
  the same grant with at least its epoch, unless the store is full of other grants.\<close>

theorem revocation_store_remembers:
  assumes "records = store_run ed calls" "r \<in> set calls" "verify_membership_revocation ed r"
  shows "length records \<le> MEMBERSHIP_REVOCATION_MAX_STORED \<and> distinct (map revocation_key records) \<and>
    (\<forall>q \<in> set records. verify_membership_revocation ed q \<and> q \<in> set calls) \<and>
    ((\<exists>q \<in> set records. revocation_key q = revocation_key r \<and> rv_revocation_epoch r \<le> rv_revocation_epoch q) \<or>
     length records = MEMBERSHIP_REVOCATION_MAX_STORED \<and> revocation_key r \<notin> revocation_key ` set records)"
  using store_run_ok [of ed calls] store_run_set [of ed calls] store_run_covers [OF assms(2,3)]
  unfolding assms(1) store_ok_def covered_def by blast

definition demo_revocation :: "u64 \<Rightarrow> MembershipRevocation" where
  "demo_revocation epoch = \<lparr>rv_network_id = replicate 32 1, rv_issuer_signing_public_key = replicate 32 7,
     rv_enrollment_nonce = replicate 32 4, rv_revocation_epoch = epoch, rv_issued_at = 100,
     rv_signature = replicate 32 7 @ replicate 32 (sum_list (ascii REVOCATION_DOMAIN @ replicate 32 1 @
       replicate 32 7 @ replicate 32 4 @ be64 epoch @ be64 100))\<rparr>"

lemma demo_revocation_verified: "verify_membership_revocation demo_ed25519 (demo_revocation e)"
proof -
  have "rv_signature (demo_revocation e) ! 0 \<noteq> zero_signature ! 0" by (simp add: demo_revocation_def nth_append)
  then have "rv_signature (demo_revocation e) \<noteq> zero_signature" by metis
  then show ?thesis
    by (simp add: verify_membership_revocation_def domain_message_def signed_body_eq demo_ed25519_def)
      (simp add: demo_revocation_def signed_body_eq replicate_eq_replicate)
qed

theorem revocation_store_remembers_witness:
  "\<exists>q \<in> set (store_run demo_ed25519 [demo_revocation 2, demo_revocation 5, demo_revocation 3]).
     revocation_key q = revocation_key (demo_revocation 5) \<and> 5 \<le> rv_revocation_epoch q"
proof -
  let ?calls = "[demo_revocation 2, demo_revocation 5, demo_revocation 3]"
  have f: "revocation_key (demo_revocation e) = (replicate 32 1, replicate 32 7, replicate 32 4)"
    "rv_revocation_epoch (demo_revocation e) = e" for e
    by (simp_all add: revocation_key_def demo_revocation_def)
  have "store_run demo_ed25519 ?calls = [demo_revocation 5]"
    by (simp add: store_run_def add_revocation_def demo_revocation_verified same_grant_key f)
  with revocation_store_remembers [OF refl _ demo_revocation_verified, of 5 ?calls]
  show ?thesis by (simp add: f)
qed

section \<open>Identities\<close>


definition demo_identity :: "byte \<Rightarrow> Identity" where
  "demo_identity n = snd (bind_identity_keys_with demo_ed25519
     (default_identity\<lparr>id_keypair := \<lparr>xk_private = replicate 32 n, xk_public = replicate 32 n\<rparr>\<rparr>) (replicate 32 n))"


text \<open>A failed X25519 key generation returns all zeros, which \<open>Identity::create\<close> does not
  check: the identity it returns is one whose binding no peer accepts.\<close>

lemma failed_key_generation_accepted:
  "\<exists>i. create_identity demo_ed25519 (\<lambda>_. None) zero_keypair
      (Some \<lparr>sk_public = replicate 32 1, sk_private = replicate 32 1\<rparr>) (replicate 32 9) = Some i \<and>
    id_keypair i = zero_keypair \<and> \<not> verify_key_agreement_binding demo_ed25519 i"
  by (simp add: create_identity_def bind_identity_keys_def bind_identity_keys_with_def Let_def demo_ed25519_def
      sign_exact_def verify_key_agreement_binding_def zero_keypair_def)

end
