(* ===== verification/Discovery.thy ===== *)
theory Discovery
  imports Identity Packet_Header Net_Order Std_Map
begin

text \<open>
  \<open>src/discovery/discovery.cpp\<close>: the presence every node broadcasts on the local network,
  its wire form, and the table of presences seen.  The socket is a transport of its own;
  the announce loop only repeats one datagram.
\<close>

section \<open>Definitions\<close>

abbreviation DISCOVERY_PAYLOAD_SIZE :: nat where "DISCOVERY_PAYLOAD_SIZE \<equiv> 102"
abbreviation DISCOVERY_FRAME_SIZE :: nat where "DISCOVERY_FRAME_SIZE \<equiv> 118"

record Presence =
  pr_node_id :: node_id
  pr_network_id :: network_id
  pr_creator_node_id :: node_id
  pr_network_name :: string
  pr_endpoint :: Endpoint
  pr_reachable_endpoint :: Endpoint
  pr_last_seen_ms :: int

definition default_endpoint :: Endpoint where
  "default_endpoint = \<lparr>ep_address = default_address, ep_port = 0\<rparr>"

definition presence_header :: PacketHeader where
  "presence_header = \<lparr>ph_version = PACKET_VERSION, ph_packet_type = TYPE_DISCOVERY, ph_flags = 0, ph_reserved = 0,
     ph_session_id = 0, ph_sequence_number = 0, ph_payload_length = of_nat DISCOVERY_PAYLOAD_SIZE\<rparr>"

text \<open>The empty vector is the failure.\<close>

definition build_presence :: "Identity \<Rightarrow> Endpoint \<Rightarrow> bytes" where
  "build_presence identity endpoint =
    (let hdr_bytes = serialize_packet_header presence_header in
     if \<not> is_ipv4 endpoint then []
     else case do {
       w \<leftarrow> write_bytes hdr_bytes (WireWriter (replicate DISCOVERY_FRAME_SIZE 0));
       w \<leftarrow> write_bytes (id_node_id identity) w;
       w \<leftarrow> write_bytes (id_network_id identity) w;
       w \<leftarrow> write_bytes (id_creator_node_id identity) w;
       w \<leftarrow> write_u32 (ntohl (ipv4_network endpoint)) w;
       w \<leftarrow> write_u16 (ntohs (ep_port endpoint)) w;
       if wr_finished w then Some (wr_bytes w) else None } of
       None \<Rightarrow> [] | Some out \<Rightarrow> out)"

definition parse_presence :: "bytes \<Rightarrow> Presence option" where
  "parse_presence data =
    (if length data \<noteq> DISCOVERY_FRAME_SIZE then None
     else do {
       (header_bytes, r) \<leftarrow> read_bytes PACKET_HEADER_SIZE (WireReader data);
       header \<leftarrow> parse_packet_header header_bytes;
       if ph_version header \<noteq> PACKET_VERSION \<or> ph_packet_type header \<noteq> TYPE_DISCOVERY \<or> ph_flags header \<noteq> 0 \<or>
          ph_reserved header \<noteq> 0 \<or> ph_session_id header \<noteq> 0 \<or> ph_sequence_number header \<noteq> 0 \<or>
          ph_payload_length header \<noteq> of_nat DISCOVERY_PAYLOAD_SIZE then None
       else do {
         (node_id, r) \<leftarrow> read_bytes NODE_ID_SIZE r;
         (network_id, r) \<leftarrow> read_bytes NETWORK_ID_SIZE r;
         (creator_node_id, r) \<leftarrow> read_bytes NODE_ID_SIZE r;
         (endpoint_ip, r) \<leftarrow> read_u32 r;
         (endpoint_port, r) \<leftarrow> read_u16 r;
         if \<not> rd_finished r then None
         else Some \<lparr>pr_node_id = node_id, pr_network_id = network_id, pr_creator_node_id = creator_node_id,
           pr_network_name = [], pr_endpoint = network_endpoint (htonl endpoint_ip) (htons endpoint_port),
           pr_reachable_endpoint = default_endpoint, pr_last_seen_ms = 0\<rparr> } })"

definition parse_received_presence :: "bytes \<Rightarrow> Endpoint \<Rightarrow> node_id \<Rightarrow> int \<Rightarrow> Presence option" where
  "parse_received_presence data sender self_node_id observed_at_ms = do {
     presence \<leftarrow> parse_presence data;
     if pr_node_id presence = self_node_id then None
     else Some (presence\<lparr>pr_reachable_endpoint :=
            \<lparr>ep_address = ep_address sender, ep_port = ep_port (pr_endpoint presence)\<rparr>,
          pr_last_seen_ms := observed_at_ms\<rparr>) }"

text \<open>The table \<open>presences_\<close>; the identity is the one passed to \<open>start\<close>.\<close>

definition on_presence ::
    "Identity \<Rightarrow> time \<Rightarrow> bytes \<Rightarrow> Endpoint \<Rightarrow> (node_id, Presence) std_map \<Rightarrow> (node_id, Presence) std_map" where
  "on_presence identity now data sender presences =
    (case parse_received_presence data sender (id_node_id identity) now of
       None \<Rightarrow> presences
     | Some p \<Rightarrow> map_put (pr_node_id p) p presences)"

section \<open>Wire form\<close>

lemma build_presence_eq:
  assumes "length (id_node_id i) = 32" "length (id_network_id i) = 32" "length (id_creator_node_id i) = 32" "is_ipv4 e"
  shows "build_presence i e = serialize_packet_header presence_header @ id_node_id i @ id_network_id i @
     id_creator_node_id i @ be32 (ipv4_value (ep_address e)) @ be16 (ntohs (ep_port e))"
  using assms by (simp add: build_presence_def wire_simps length_serialize_packet_header ipv4_network_def)

lemma header_of_presence: "header_bytes = serialize_packet_header presence_header \<longleftrightarrow>
    (\<exists>h. parse_packet_header header_bytes = Some h \<and> h = presence_header)"
  using parse_serialize_packet_header parse_packet_header_SomeD by (metis)

text \<open>What the parser accepts: the one frame of the announced fields.\<close>

lemma parse_presence_iff:
  "parse_presence data = Some p \<longleftrightarrow>
    (length (pr_node_id p) = 32 \<and> length (pr_network_id p) = 32 \<and> length (pr_creator_node_id p) = 32 \<and>
     is_ipv4 (pr_endpoint p) \<and> canonical_address (ep_address (pr_endpoint p)) \<and> pr_network_name p = [] \<and>
     pr_reachable_endpoint p = default_endpoint \<and> pr_last_seen_ms p = 0 \<and>
     data = serialize_packet_header presence_header @ pr_node_id p @ pr_network_id p @ pr_creator_node_id p @
       be32 (ipv4_value (ep_address (pr_endpoint p))) @ be16 (ntohs (ep_port (pr_endpoint p))))"
    (is "_ \<longleftrightarrow> ?rhs")
proof
  assume a: "parse_presence data = Some p"
  then obtain hb r h where h: "length data = 118" "read_bytes 16 (WireReader data) = Some (hb, r)"
    "parse_packet_header hb = Some h" "h = presence_header"
    by (auto simp: parse_presence_def presence_header_def bind_eq_Some_conv split: if_splits)
  then have hb: "hb = serialize_packet_header presence_header" using header_of_presence by blast
  show ?rhs using a h(2) hb
    by (auto simp: parse_presence_def WireReader_at rd_finished_at bind_eq_Some_conv network_endpoint_def is_ipv4_def
        split: if_splits dest!: wire_dest)
next
  assume r: ?rhs
  then have "network_endpoint (htonl (ipv4_value (ep_address (pr_endpoint p)))) (ep_port (pr_endpoint p)) = pr_endpoint p"
    using network_endpoint_id [of "pr_endpoint p"] by (simp add: ipv4_network_def)
  moreover have "parse_packet_header (serialize_packet_header presence_header) = Some presence_header"
    using header_of_presence by blast
  ultimately show "parse_presence data = Some p"
    using r by (cases p) (simp add: parse_presence_def wire_simps length_serialize_packet_header presence_header_def)
qed

end
