(* ===== verification/Stun.thy ===== *)
theory Stun
  imports Transport Net_Order
begin

text \<open>
  \<open>src/stun/stun.cpp\<close>: the STUN binding request and the parser of the response, which
  extracts the one \<open>XOR-MAPPED-ADDRESS\<close>.  Name resolution and the random transaction id are
  arguments of \<open>stun_discover\<close>.
\<close>

section \<open>Definitions\<close>

abbreviation STUN_MAGIC_COOKIE :: u32 where "STUN_MAGIC_COOKIE \<equiv> 0x2112A442"

definition create_stun_binding_request :: "bytes \<Rightarrow> bytes" where
  "create_stun_binding_request transaction_id =
    (case do {
       w \<leftarrow> write_u16 1 (WireWriter (replicate 20 0));
       w \<leftarrow> write_u16 0 w;
       w \<leftarrow> write_u32 STUN_MAGIC_COOKIE w;
       w \<leftarrow> write_bytes transaction_id w;
       if wr_finished w then Some (wr_bytes w) else None } of
       None \<Rightarrow> [] | Some req \<Rightarrow> req)"

text \<open>Lines 60 to 95: the value of an \<open>XOR-MAPPED-ADDRESS\<close> attribute.\<close>

definition parse_mapped_address :: "bytes \<Rightarrow> u16 \<Rightarrow> bytes \<Rightarrow> Endpoint option" where
  "parse_mapped_address transaction_id attr_len value = do {
     (reserved, r) \<leftarrow> read_u8 (WireReader value);
     (family, r) \<leftarrow> read_u8 r;
     (xor_port, r) \<leftarrow> read_u16 r;
     if reserved \<noteq> 0 then None
     else if family \<noteq> 1 \<and> family \<noteq> 2 then None
     else
       let port = htons (xor_port XOR ucast (drop_bit 16 STUN_MAGIC_COOKIE)) in
       if family = 1 then
         if attr_len \<noteq> 8 then None
         else do {
           (xor_ip, r) \<leftarrow> read_u32 r;
           if \<not> rd_finished r then None
           else Some (network_endpoint (htonl (xor_ip XOR STUN_MAGIC_COOKIE)) port) }
       else if attr_len \<noteq> 20 then None
       else do {
         (xor_ip, r) \<leftarrow> read_bytes 16 r;
         if \<not> rd_finished r then None
         else do {
           w \<leftarrow> write_u32 STUN_MAGIC_COOKIE (WireWriter (replicate 16 0));
           w \<leftarrow> write_bytes transaction_id w;
           if \<not> wr_finished w then None
           else Some \<lparr>ep_address = from_ipv6 (map2 (XOR) xor_ip (wr_bytes w)), ep_port = port\<rparr> } } }"

text \<open>One attribute: its type, its value, the padding.\<close>

definition read_attribute :: "wire_reader \<Rightarrow> ((u16 \<times> u16 \<times> bytes) \<times> wire_reader) option" where
  "read_attribute r = do {
     (attr_type, r) \<leftarrow> read_u16 r;
     (attr_len, r) \<leftarrow> read_u16 r;
     (value, r) \<leftarrow> read_bytes (unat attr_len) r;
     (padding, r) \<leftarrow> read_bytes ((unat attr_len + 3) div 4 * 4 - unat attr_len) r;
     Some ((attr_type, attr_len, value), r) }"

lemma read_attribute_progress: "read_attribute r = Some (a, r') \<Longrightarrow> rd_remaining r' < rd_remaining r"
  by (auto simp: read_attribute_def read_u16_def read_bytes_def rd_remaining_def bind_eq_Some_conv split: if_splits)

function parse_attributes :: "bytes \<Rightarrow> Endpoint option \<Rightarrow> wire_reader \<Rightarrow> Endpoint option option" where
  "parse_attributes transaction_id mapped r =
    (if rd_finished r then Some mapped
     else case read_attribute r of
       None \<Rightarrow> None
     | Some ((attr_type, attr_len, value), r) \<Rightarrow>
         if attr_type \<noteq> 0x0020 then parse_attributes transaction_id mapped r
         else case parse_mapped_address transaction_id attr_len value of
           None \<Rightarrow> None
         | Some endpoint \<Rightarrow>
             if mapped \<noteq> None then None else parse_attributes transaction_id (Some endpoint) r)"
  by pat_completeness auto
termination
  by (relation "measure (\<lambda>(tx, mapped, r). rd_remaining r)") (auto dest: read_attribute_progress)

declare parse_attributes.simps [simp del]

text \<open>\<open>expected_tx_id\<close> is \<open>None\<close> for a null pointer; the result \<open>None\<close> is \<open>std::nullopt\<close>, for
  a malformed response or one without a mapped address.\<close>

definition parse_stun_binding_response :: "bytes \<Rightarrow> bytes option \<Rightarrow> Endpoint option" where
  "parse_stun_binding_response data expected_tx_id =
    (if length data < 20 then None
     else do {
       (msg_type, r) \<leftarrow> read_u16 (WireReader data);
       (msg_len, r) \<leftarrow> read_u16 r;
       (cookie, r) \<leftarrow> read_u32 r;
       (transaction_id, r) \<leftarrow> read_bytes 12 r;
       if (msg_type \<noteq> 0x0101 \<and> msg_type \<noteq> 0x0111) \<or> cookie \<noteq> STUN_MAGIC_COOKIE \<or> unat msg_len mod 4 \<noteq> 0 \<or>
          length data \<noteq> 20 + unat msg_len then None
       else if (case expected_tx_id of None \<Rightarrow> False | Some tx \<Rightarrow> transaction_id \<noteq> tx) then None
       else Option.bind (parse_attributes transaction_id None r) (\<lambda>mapped. mapped) })"

text \<open>\<open>addresses\<close> is what \<open>getaddrinfo\<close> returns for the host, \<open>None\<close> when it fails; \<open>tx_id\<close> what
  the random source delivers; the exchange is that of the transport.\<close>

definition stun_discover ::
    "string \<Rightarrow> u16 \<Rightarrow> time \<Rightarrow> (sockaddr \<times> nat) list option \<Rightarrow> bytes option \<Rightarrow>
     time \<Rightarrow> bool \<Rightarrow> (time \<times> bool \<times> receive_event) list \<Rightarrow> Transport \<Rightarrow> Endpoint option \<times> Transport" where
  "stun_discover stun_host stun_port timeout_ms addresses tx_id now sent_all events transport =
    (if \<not> tp_open transport \<or> stun_host = [] \<or> stun_port = 0 \<or> timeout_ms \<le> 0 then (None, transport)
     else case addresses of None \<Rightarrow> (None, transport)
     | Some res \<Rightarrow>
         if res = [] then (None, transport)
         else case tx_id of None \<Rightarrow> (None, transport)
         | Some tx \<Rightarrow>
             (case find (\<lambda>e. is_ipv4 e \<or> tp_ipv6 transport)
                (List.map_filter (\<lambda>(a, n). endpoint_from_sockaddr (Some a) n) res) of
                None \<Rightarrow> (None, transport)
              | Some server \<Rightarrow>
                  let (response, transport) =
                    exchange (Some (create_stun_binding_request tx)) server timeout_ms now sent_all events transport
                  in (Option.bind response (\<lambda>(bs, source). parse_stun_binding_response bs (Some tx)), transport)))"

section \<open>Responses\<close>

text \<open>RFC 5389: an attribute is its type, its length, its value and zeros up to a multiple of
  four; the mapped address is masked by the cookie and, for IPv6, the transaction id.\<close>

definition attribute_bytes :: "u16 \<times> bytes \<Rightarrow> bytes" where
  "attribute_bytes a = be16 (fst a) @ be16 (of_nat (length (snd a))) @ snd a @
     replicate ((length (snd a) + 3) div 4 * 4 - length (snd a)) 0"

definition mapped_value :: "bytes \<Rightarrow> Endpoint \<Rightarrow> bytes" where
  "mapped_value tx e = [0, if is_ipv4 e then 1 else 2] @ be16 (ntohs (ep_port e) XOR 0x2112) @
     (if is_ipv4 e then be32 (ipv4_value (ep_address e) XOR STUN_MAGIC_COOKIE)
      else map2 (XOR) (addr_bytes (ep_address e)) (be32 STUN_MAGIC_COOKIE @ tx))"

definition stun_response :: "bytes \<Rightarrow> (u16 \<times> bytes) list \<Rightarrow> bytes" where
  "stun_response tx attrs = (let body = concat (map attribute_bytes attrs) in
     be16 0x0101 @ be16 (of_nat (length body)) @ be32 STUN_MAGIC_COOKIE @ tx @ body)"

lemma unat_of_nat_u16: "n < 65536 \<Longrightarrow> unat (of_nat n :: u16) = n"
  by (simp add: unsigned_of_nat take_bit_nat_eq_self)

lemma read_attribute_bytes:
  assumes "length (snd a) < 65536"
  shows "read_attribute (reader_at pre (attribute_bytes a @ t)) =
    Some ((fst a, of_nat (length (snd a)), snd a), reader_at (pre @ attribute_bytes a) t)"
  using unat_of_nat_u16 [OF assms] by (simp add: read_attribute_def attribute_bytes_def wire_simps)

lemma attribute_not_Nil [simp]: "attribute_bytes a \<noteq> []"
  by (simp add: attribute_bytes_def)

lemma parse_attributes_skip:
  assumes "\<forall>a \<in> set attrs. fst a \<noteq> 0x0020 \<and> length (snd a) < 65536"
  shows "parse_attributes tx mapped (reader_at pre (concat (map attribute_bytes attrs) @ t)) =
    parse_attributes tx mapped (reader_at (pre @ concat (map attribute_bytes attrs)) t)"
  using assms
proof (induction attrs arbitrary: pre)
  case (Cons a attrs)
  have "parse_attributes tx mapped (reader_at pre (attribute_bytes a @ u)) =
      parse_attributes tx mapped (reader_at (pre @ attribute_bytes a) u)" for u
    using Cons.prems
    by (subst parse_attributes.simps) (simp add: rd_finished_at read_attribute_bytes)
  then show ?case using Cons by simp
qed simp

lemma xor_mask: "length xs = length ys \<Longrightarrow> map2 (XOR) (map2 (XOR) xs ys) ys = (xs :: bytes)"
  by (induction xs ys rule: list_induct2) (simp_all add: xor.assoc)

lemma parse_mapped_value:
  assumes "canonical_address (ep_address e)" "length tx = 12"
  shows "parse_mapped_address tx (of_nat (length (mapped_value tx e))) (mapped_value tx e) = Some e"
proof (cases "is_ipv4 e")
  case True
  then have "network_endpoint (htonl (ipv4_value (ep_address e))) (ep_port e) = e"
    using network_endpoint_id [OF assms(1) True] by (simp add: ipv4_network_def)
  with True show ?thesis
    by (simp add: parse_mapped_address_def mapped_value_def wire_simps xor.assoc)
next
  case False
  have a: "addr_family (ep_address e) = IPv6" "length (addr_bytes (ep_address e)) = 16"
    using assms(1) False by (auto simp: canonical_address_def wf_address_def valid_family_def is_ipv4_def)
  then have "\<lparr>ep_address = from_ipv6 (addr_bytes (ep_address e)), ep_port = ep_port e\<rparr> = e"
    by (intro Endpoint.equality IPAddress.equality) (simp_all add: from_ipv6_def)
  moreover have "map2 (XOR) (map2 (XOR) (addr_bytes (ep_address e)) (be32 STUN_MAGIC_COOKIE @ tx))
      (be32 STUN_MAGIC_COOKIE @ tx) = addr_bytes (ep_address e)"
    using a(2) assms(2) by (intro xor_mask) simp
  ultimately show ?thesis
    using False a(2) assms(2)
    by (simp add: parse_mapped_address_def mapped_value_def wire_simps xor.assoc)
qed

lemma length_attribute_bytes: "length (attribute_bytes a) mod 4 = 0"
proof -
  have "length (snd a) \<le> (length (snd a) + 3) div 4 * 4" by linarith
  then have "length (attribute_bytes a) = 4 + (length (snd a) + 3) div 4 * 4" by (simp add: attribute_bytes_def)
  then show ?thesis by simp
qed

lemma length_attributes: "length (concat (map attribute_bytes attrs)) mod 4 = 0"
proof (induction attrs)
  case (Cons a attrs)
  then show ?case using length_attribute_bytes [of a] by (simp add: mod_eq_0_iff_dvd)
qed simp

text \<open>C40: the mapped address of a response is the address the server saw.  For a response
  to the node's own request that carries one mapped address, for IPv4 or IPv6, among any
  other attributes, the parser returns exactly that endpoint, and it returns nothing for
  another transaction.\<close>

theorem stun_mapped_endpoint:
  assumes "canonical_address (ep_address e)" "length tx = 12"
    and "\<forall>a \<in> set (before @ after). fst a \<noteq> 0x0020 \<and> length (snd a) < 65536"
    and "attrs = before @ (0x0020, mapped_value tx e) # after" "length (concat (map attribute_bytes attrs)) < 65536"
  shows "parse_stun_binding_response (stun_response tx attrs) (Some tx) = Some e \<and>
    (\<forall>tx'. tx' \<noteq> tx \<longrightarrow> parse_stun_binding_response (stun_response tx attrs) (Some tx') = None)"
proof -
  let ?body = "concat (map attribute_bytes attrs)"
  have m: "length (mapped_value tx e) < 65536"
    using assms(1,2) by (auto simp: mapped_value_def canonical_address_def wf_address_def)
  have b: "unat (of_nat (length ?body) :: u16) = length ?body" by (rule unat_of_nat_u16 [OF assms(5)])
  have "parse_attributes tx None (reader_at pre ?body) = Some (Some e)" for pre
  proof -
    have "parse_attributes tx None (reader_at pre ?body) = parse_attributes tx None
        (reader_at (pre @ concat (map attribute_bytes before))
           (attribute_bytes (0x0020, mapped_value tx e) @ concat (map attribute_bytes after)))"
      using parse_attributes_skip [of before tx None pre] assms(3,4) by simp
    also have "\<dots> = parse_attributes tx (Some e) (reader_at (pre @ concat (map attribute_bytes before) @
        attribute_bytes (0x0020, mapped_value tx e)) (concat (map attribute_bytes after)))"
      using m parse_mapped_value [OF assms(1,2)]
      by (subst parse_attributes.simps) (simp add: rd_finished_at read_attribute_bytes)
    also have "\<dots> = Some (Some e)"
      using parse_attributes_skip [where t = "[]", of after tx "Some e"] assms(3)
      by (simp add: parse_attributes.simps [of tx "Some e" "reader_at _ []"] rd_finished_at)
    finally show ?thesis .
  qed
  then show ?thesis
    using assms(2) b length_attributes [of attrs]
    by (simp add: parse_stun_binding_response_def stun_response_def wire_simps Let_def)
qed

theorem stun_mapped_endpoint_witness:
  "parse_stun_binding_response (stun_response (replicate 12 7)
     [(0x8022, ascii ''demo''), (0x0020, mapped_value (replicate 12 7) (network_endpoint 0x0100007F 0x5CB2))])
     (Some (replicate 12 7)) = Some (network_endpoint 0x0100007F 0x5CB2)"
  using stun_mapped_endpoint [of "network_endpoint 0x0100007F 0x5CB2" "replicate 12 7" "[(0x8022, ascii ''demo'')]" "[]"]
  by (simp add: attribute_bytes_def mapped_value_def)

text \<open>The parser takes a binding error response for a success.\<close>

lemma stun_error_response_accepted:
  "parse_stun_binding_response
     (be16 0x0111 @ be16 12 @ be32 STUN_MAGIC_COOKIE @ replicate 12 7 @
      attribute_bytes (0x0020, mapped_value (replicate 12 7) (network_endpoint 0x0100007F 0x5CB2)))
     (Some (replicate 12 7)) = Some (network_endpoint 0x0100007F 0x5CB2)"
proof -
  let ?e = "network_endpoint 0x0100007F 0x5CB2" and ?tx = "replicate 12 (7 :: byte)"
  have m: "length (mapped_value ?tx ?e) = 8" by (simp add: mapped_value_def)
  have l: "length (attribute_bytes (0x0020, mapped_value ?tx ?e)) = 12" by (simp add: attribute_bytes_def m)
  have "parse_attributes ?tx None (reader_at pre (attribute_bytes (0x0020, mapped_value ?tx ?e))) = Some (Some ?e)" for pre
    using read_attribute_bytes [of "(0x0020, mapped_value ?tx ?e)" pre "[]"] parse_mapped_value [of ?e ?tx] m
    by (simp add: parse_attributes.simps [of ?tx None] parse_attributes.simps [of ?tx "Some ?e" "reader_at _ []"] rd_finished_at)
  then show ?thesis by (simp add: parse_stun_binding_response_def wire_simps l)
qed

end
