(* ===== verification/Spec2Isabelle.thy ===== *)
theory Spec2Isabelle
  imports Session_Properties Relay_Properties Net_Text Routing_Properties Probing_Properties
    Queue_Properties Handshake_Guard Relay_Limiter Transport Peer_Table_Codec Gossip_Properties
    File_Properties Peer_Table_Properties Membership_Properties Discovery Stun
begin

text \<open>
  A verification development for Aegis, an encrypted overlay mesh.  The header
  is completed with the components below.
\<close>

text \<open>The frame header codec is a bijection between header values and
  16-byte strings it accepts: parsing a serialized header returns it, and the
  parser accepts a byte string only if it is the serialization of the header
  it returns.\<close>

theorem packet_header_roundtrip:
  "parse_packet_header bs = Some h \<longleftrightarrow> bs = serialize_packet_header h"
  using header_codec.dec_Some_iff [of bs h] by auto

section \<open>Signatures\<close>

text \<open>The four things an Ed25519 key of the program signs.\<close>

datatype signed_item =
    Binding public_key
  | Rotation IdentityRotationCertificate
  | Grant Aegis2MembershipGrant
  | Revocation MembershipRevocation

fun signed_message :: "signed_item \<Rightarrow> bytes" where
  "signed_message (Binding k) = key_binding_message k"
| "signed_message (Rotation c) = rotation_message c"
| "signed_message (Grant g) = ascii AEGIS2_SIGNING_DOMAIN @ the (aegis2_signed_bytes g)"
| "signed_message (Revocation r) = domain_message r"

fun wf_signed_item :: "signed_item \<Rightarrow> bool" where
  "wf_signed_item (Binding k) \<longleftrightarrow> length k = X25519_KEY_SIZE"
| "wf_signed_item (Rotation c) \<longleftrightarrow> wf_rotation c"
| "wf_signed_item (Grant g) \<longleftrightarrow> wf_grant g"
| "wf_signed_item (Revocation r) \<longleftrightarrow> length (rv_network_id r) = 32 \<and>
     length (rv_issuer_signing_public_key r) = 32 \<and> length (rv_enrollment_nonce r) = 32"

text \<open>The item without its own signature.\<close>

fun unsigned :: "signed_item \<Rightarrow> signed_item" where
  "unsigned (Binding k) = Binding k"
| "unsigned (Rotation c) = Rotation (c\<lparr>rc_rotation_signature := zero_signature\<rparr>)"
| "unsigned (Grant g) = Grant (g\<lparr>gr_signature := zero_signature\<rparr>)"
| "unsigned (Revocation r) = Revocation (r\<lparr>rv_signature := zero_signature\<rparr>)"

lemma grant_body_inj:
  assumes "wf_grant g" "wf_grant h" "grant_body g = grant_body h"
  shows "g\<lparr>gr_signature := s\<rparr> = h\<lparr>gr_signature := s\<rparr>"
proof -
  have w: "wf_grant (x\<lparr>gr_signature := zero_signature\<rparr>)" if "wf_grant x" for x using that by (simp add: wf_grant_def)
  have "read_aegis2_grant (grant_body x @ zero_signature) = Some (x\<lparr>gr_signature := zero_signature\<rparr>)"
    if "wf_grant x" for x using w [OF that] by (simp add: read_grant_iff)
  from this [OF assms(1)] this [OF assms(2)] have
    "g\<lparr>gr_signature := zero_signature\<rparr> = h\<lparr>gr_signature := zero_signature\<rparr>" using assms(3) by simp
  then have "g\<lparr>gr_signature := zero_signature\<rparr>\<lparr>gr_signature := s\<rparr> = h\<lparr>gr_signature := zero_signature\<rparr>\<lparr>gr_signature := s\<rparr>"
    by (rule arg_cong)
  then show ?thesis by simp
qed

lemma domain_tags:
  "ascii KEY_BINDING_DOMAIN @ a \<noteq> ascii ROTATION_DOMAIN @ b"
  "ascii KEY_BINDING_DOMAIN @ a \<noteq> ascii AEGIS2_SIGNING_DOMAIN @ b"
  "ascii KEY_BINDING_DOMAIN @ a \<noteq> ascii REVOCATION_DOMAIN @ b"
  "ascii ROTATION_DOMAIN @ a \<noteq> ascii AEGIS2_SIGNING_DOMAIN @ b"
  "ascii ROTATION_DOMAIN @ a \<noteq> ascii REVOCATION_DOMAIN @ b"
  "ascii AEGIS2_SIGNING_DOMAIN @ a \<noteq> ascii REVOCATION_DOMAIN @ b"
  by (simp_all add: ascii_def)

text \<open>C34: no signature serves two purposes.  Whatever a key of the program signs, a key
  binding, a rotation certificate, a membership grant or a revocation, the signed bytes
  determine which of the four it is and every field of it: a signature made for one item
  never verifies for another.\<close>

theorem signed_messages_unambiguous:
  assumes "wf_signed_item a" "wf_signed_item b" "signed_message a = signed_message b"
  shows "unsigned a = unsigned b"
  using assms
  by (cases a; cases b)
    (auto simp: key_binding_message_def rotation_message_eq signed_bytes_eq domain_message_def domain_tags
      domain_tags [symmetric] signed_body_eq wf_rotation_def intro: grant_body_inj)

theorem signed_messages_unambiguous_witness:
  "unsigned (Grant demo_grant) = unsigned (Grant (demo_grant\<lparr>gr_signature := replicate 64 1\<rparr>))"
proof -
  have "wf_grant demo_grant" "wf_grant (demo_grant\<lparr>gr_signature := replicate 64 1\<rparr>)"
    using demo_grant_wf by (simp_all add: wf_grant_def demo_grant_def)
  then show ?thesis by (intro signed_messages_unambiguous) (simp_all add: signed_bytes_eq)
qed

end
